(* ===== verification/Prelude.thy ===== *)
theory Prelude
  imports
    Main
    "HOL-Library.Word"
    "HOL-Library.List_Lexorder"
    "HOL-Library.Char_ord"
    "HOL-Library.Multiset"
    "HOL-Library.Monad_Syntax"
begin

text \<open>
  Shared vocabulary of the imbh-go development: the representation of Go values (byte strings,
  machine integers, errors and results), the option monad whose \<open>None\<close> is a Go run-time panic,
  generic lemmas on lists, maps and sorting, and the two interfaces that several components
  provide: an encoding with its decoder (\<open>codec\<close>) and a text quoting with the splitter that reads
  it back.
\<close>

section \<open>Values\<close>

text \<open>
  A Go \<open>string\<close> and a Go \<open>[]byte\<close> are both finite sequences of bytes; Isabelle's \<^typ>\<open>char\<close> has
  exactly 256 values, so both are a \<^typ>\<open>string\<close>. Go's conversions between the two are the identity.
  A \<open>nil\<close> slice and an empty slice have the same bytes and are both \<open>[]\<close>.
  \<open>int64\<close> and \<open>uint64\<close> are both \<open>64 word\<close>: a Go conversion between them keeps the bits, and
  \<^const>\<open>sint\<close> or \<^const>\<open>uint\<close> reads the value.
\<close>

type_synonym bytes = string
type_synonym u64 = "64 word"
type_synonym i64 = "64 word"
type_synonym u32 = "32 word"
type_synonym u8 = "8 word"

text \<open>
  Go errors. \<open>ErrorString\<close> is \<open>errors.New\<close>, \<open>ErrorWrap\<close> is \<open>fmt.Errorf("...: %w", err)\<close>, and the
  sentinels are the ones callers compare with: \<open>context.Canceled\<close>, \<open>context.DeadlineExceeded\<close> and
  sable's \<open>ErrBackpressure\<close>.
\<close>

datatype goerr =
    ErrorString string
  | ErrorWrap string goerr
  | CtxCanceled
  | CtxDeadlineExceeded
  | ErrBackpressure

type_synonym 'a result = "goerr + 'a"

fun error_text :: "goerr \<Rightarrow> string" where
  "error_text (ErrorString s) = s"
| "error_text (ErrorWrap s e) = s @ '': '' @ error_text e"
| "error_text CtxCanceled = ''context canceled''"
| "error_text CtxDeadlineExceeded = ''context deadline exceeded''"
| "error_text ErrBackpressure = ''sable: backpressure''"

section \<open>Reading a slice: out of range is a panic\<close>

definition elt :: "'a list \<Rightarrow> nat \<Rightarrow> 'a option" where
  "elt xs i = (if i < length xs then Some (xs ! i) else None)"

lemma elt_in_range [simp]: "i < length xs \<Longrightarrow> elt xs i = Some (xs ! i)"
  by (simp add: elt_def)

lemma elt_eq_Some: "elt xs i = Some x \<longleftrightarrow> i < length xs \<and> xs ! i = x"
  by (auto simp: elt_def)

lemma elt_eq_None: "elt xs i = None \<longleftrightarrow> length xs \<le> i"
  by (auto simp: elt_def)

section \<open>Traversals in the option monad\<close>

fun mapM :: "('a \<Rightarrow> 'b option) \<Rightarrow> 'a list \<Rightarrow> 'b list option" where
  "mapM f [] = Some []"
| "mapM f (x # xs) = do { y \<leftarrow> f x; ys \<leftarrow> mapM f xs; Some (y # ys) }"

lemma bind_total:
  "\<exists>x. m = Some x \<Longrightarrow> (\<And>x. \<exists>y. f x = Some y) \<Longrightarrow> \<exists>y. Option.bind m f = Some y"
  by auto

lemma mapM_Some_map: "(\<And>x. x \<in> set xs \<Longrightarrow> f x = Some (g x)) \<Longrightarrow> mapM f xs = Some (map g xs)"
  by (induction xs) auto

lemma mapM_total: "(\<And>x. x \<in> set xs \<Longrightarrow> f x \<noteq> None) \<Longrightarrow> \<exists>ys. mapM f xs = Some ys"
  by (induction xs) fastforce+

lemma mapM_append: "mapM f (xs @ ys) = do { as \<leftarrow> mapM f xs; bs \<leftarrow> mapM f ys; Some (as @ bs) }"
  by (induction xs) (auto split: Option.bind_splits)

lemma mapM_length: "mapM f xs = Some ys \<Longrightarrow> length ys = length xs"
  by (induction xs arbitrary: ys) (auto split: Option.bind_splits)

lemma mapM_cong [fundef_cong]:
  "xs = ys \<Longrightarrow> (\<And>x. x \<in> set ys \<Longrightarrow> f x = g x) \<Longrightarrow> mapM f xs = mapM g ys"
  by (induction xs arbitrary: ys) auto

lemma mapM_map: "mapM f (map g xs) = mapM (\<lambda>x. f (g x)) xs"
  by (induction xs) auto

lemma mapM_set: "mapM f xs = Some ys \<Longrightarrow> set ys = {y. \<exists>x\<in>set xs. f x = Some y}"
  by (induction xs arbitrary: ys) (auto split: Option.bind_splits)

lemma mapM_elem: "mapM f xs = Some ys \<Longrightarrow> x \<in> set xs \<Longrightarrow> \<exists>y. f x = Some y"
  by (induction xs arbitrary: ys) (auto split: Option.bind_splits)

lemma distinct_concat_mapM:
  assumes "mapM g cs = Some ts" "distinct cs"
    and "\<And>c t. c \<in> set cs \<Longrightarrow> g c = Some t \<Longrightarrow> distinct (h t)"
    and "\<And>c d t u. c \<in> set cs \<Longrightarrow> d \<in> set cs \<Longrightarrow> c \<noteq> d \<Longrightarrow> g c = Some t \<Longrightarrow> g d = Some u \<Longrightarrow>
      set (h t) \<inter> set (h u) = {}"
  shows "distinct (concat (map h ts))"
  using assms
proof (induction cs arbitrary: ts)
  case (Cons c cs)
  then obtain t us where t: "g c = Some t" and us: "mapM g cs = Some us" and ts: "ts = t # us"
    by (auto split: Option.bind_splits)
  have "distinct (concat (map h us))"
  proof (rule Cons.IH [OF us])
    show "distinct cs" using Cons.prems(2) by simp
    show "distinct (h t)" if "c \<in> set cs" "g c = Some t" for c t
      by (rule Cons.prems(3) [OF _ that(2)]) (use that in simp)
    show "set (h t) \<inter> set (h u) = {}"
      if "c \<in> set cs" "d \<in> set cs" "c \<noteq> d" "g c = Some t" "g d = Some u" for c d t u
      by (rule Cons.prems(4) [OF _ _ that(3-5)]) (use that in auto)
  qed
  moreover have "set (h t) \<inter> set (h u) = {}" if "u \<in> set us" for u
  proof -
    from that obtain d where d: "d \<in> set cs" "g d = Some u" using mapM_set [OF us] by auto
    show ?thesis
      by (rule Cons.prems(4) [of c d t u]) (use d t Cons.prems(2) in auto)
  qed
  ultimately show ?case using Cons.prems(3) t by (auto simp: ts)
qed simp

section \<open>UTF-8\<close>

text \<open>
  The length of the first well-formed UTF-8 sequence of a byte string, 0 when there is none; the ranges
  are those of the Unicode standard, which both Go and Rust check (no overlong form, no surrogate,
  nothing above U+10FFFF).
\<close>

abbreviation byte :: "char \<Rightarrow> nat" where
  "byte \<equiv> of_char"

definition between :: "nat \<Rightarrow> nat \<Rightarrow> char \<Rightarrow> bool" where
  "between lo hi c \<longleftrightarrow> lo \<le> byte c \<and> byte c \<le> hi"

fun utf8_len :: "bytes \<Rightarrow> nat" where
  "utf8_len [] = 0"
| "utf8_len (a # r) =
     (let n = byte a in
      if n < 128 then 1
      else case r of
        [] \<Rightarrow> 0
      | b # r' \<Rightarrow>
        if 194 \<le> n \<and> n \<le> 223 then (if between 128 191 b then 2 else 0)
        else case r' of
          [] \<Rightarrow> 0
        | c # r'' \<Rightarrow>
          if n = 224 then (if between 160 191 b \<and> between 128 191 c then 3 else 0)
          else if n = 237 then (if between 128 159 b \<and> between 128 191 c then 3 else 0)
          else if 225 \<le> n \<and> n \<le> 239 then (if between 128 191 b \<and> between 128 191 c then 3 else 0)
          else case r'' of
            [] \<Rightarrow> 0
          | d # _ \<Rightarrow>
            if (n = 240 \<and> between 144 191 b \<or> 241 \<le> n \<and> n \<le> 243 \<and> between 128 191 b \<or>
                n = 244 \<and> between 128 143 b) \<and> between 128 191 c \<and> between 128 191 d
            then 4 else 0)"

function utf8_valid :: "bytes \<Rightarrow> bool" where
  "utf8_valid bs =
     (if bs = [] then True
      else if utf8_len bs = 0 then False else utf8_valid (drop (utf8_len bs) bs))"
  by pat_completeness auto
termination
  by (relation "measure length") auto

declare utf8_valid.simps [simp del]

lemma utf8_valid_Nil [simp]: "utf8_valid []"
  by (subst utf8_valid.simps) simp

lemma utf8_valid_ascii: "(\<forall>c\<in>set s. byte c < 128) \<Longrightarrow> utf8_valid s"
proof (induction s)
  case (Cons c s)
  then have "utf8_len (c # s) = 1" by simp
  with Cons show ?case by (subst utf8_valid.simps) simp
qed simp

section \<open>Lists without a byte, and terminated concatenation\<close>

text \<open>
  Several keys of the program are built by writing each component followed by a NUL byte. Such a
  key determines its components as soon as no component contains the terminator.
\<close>

definition nul :: char where
  "nul = CHR 0x00"

definition terminated :: "string list \<Rightarrow> string" where
  "terminated ss = concat (map (\<lambda>s. s @ [nul]) ss)"

lemma terminated_simps [simp]:
  "terminated [] = []"
  "terminated (s # ss) = s @ nul # terminated ss"
  by (simp_all add: terminated_def)

lemma terminated_append: "terminated (ss @ ts) = terminated ss @ terminated ts"
  by (simp add: terminated_def)

lemma append_sep_inject:
  assumes "a @ c # x = b @ c # y" "c \<notin> set a" "c \<notin> set b"
  shows "a = b \<and> x = y"
  using assms
proof (induction a arbitrary: b)
  case Nil
  then show ?case by (cases b) auto
next
  case (Cons h t)
  then show ?case by (cases b) auto
qed

lemma terminated_inject:
  assumes "terminated ss = terminated ts"
    and "\<forall>s\<in>set ss. nul \<notin> set s" "\<forall>t\<in>set ts. nul \<notin> set t"
  shows "ss = ts"
  using assms
proof (induction ss arbitrary: ts)
  case Nil
  then show ?case by (cases ts) auto
next
  case (Cons s ss)
  from Cons.prems(1) obtain t ts' where ts: "ts = t # ts'" by (cases ts) auto
  from Cons.prems ts have "s @ nul # terminated ss = t @ nul # terminated ts'"
    and "nul \<notin> set s" "nul \<notin> set t" by simp_all
  then have eq: "s = t \<and> terminated ss = terminated ts'" by (rule append_sep_inject)
  have "ss = ts'"
    by (rule Cons.IH) (use eq Cons.prems ts in simp_all)
  with eq ts show ?case by simp
qed

section \<open>Sorting: a contract that fixes the result\<close>

text \<open>
  Go's \<open>sort.Slice\<close> promises a permutation that the comparison finds in order and nothing about equal
  elements. When the sort key is injective on the elements, that contract has one solution, so the
  model may compute it with any sort.
\<close>

definition sorted_perm :: "('a \<Rightarrow> 'k::linorder) \<Rightarrow> 'a list \<Rightarrow> 'a list \<Rightarrow> bool" where
  "sorted_perm k xs ys \<longleftrightarrow> mset ys = mset xs \<and> sorted (map k ys)"

lemma sorted_perm_sort_key: "sorted_perm k xs (sort_key k xs)"
  by (simp add: sorted_perm_def)

lemma sorted_perm_unique:
  assumes ys: "sorted_perm k xs ys" and zs: "sorted_perm k xs' zs"
    and same: "mset xs = mset xs'" and inj: "inj_on k (set xs)"
  shows "ys = zs"
proof -
  have mset: "mset ys = mset zs"
    using ys zs same unfolding sorted_perm_def by metis
  then have "mset (map k zs) = mset (map k ys)" by simp
  moreover have "sorted (map k ys)" "sorted (map k zs)"
    using ys zs by (simp_all add: sorted_perm_def)
  ultimately have keys: "map k ys = map k zs"
    using properties_for_sort [of "map k zs" "map k ys"] by (simp add: sorted_sort_id)
  have "set ys = set xs"
    using ys by (auto simp: sorted_perm_def dest: mset_eq_setD)
  moreover have "set zs = set xs"
    using zs same by (auto simp: sorted_perm_def dest: mset_eq_setD)
  ultimately have "inj_on k (set ys \<union> set zs)" using inj by simp
  then show ?thesis using keys by (rule map_inj_on [rotated])
qed

lemma distinct_map_filter_key: "distinct (map f xs) \<Longrightarrow> distinct (map f (filter P xs))"
  by (induction xs) auto

lemma map_insort_key: "map f (insort_key (\<lambda>x. k (f x)) x xs) = insort_key k (f x) (map f xs)"
  by (induction xs) auto

lemma map_sort_key: "map f (sort_key (\<lambda>x. k (f x)) xs) = sort_key k (map f xs)"
  by (induction xs) (auto simp: map_insort_key)

lemma map_nth_filter: "map ((!) xs) (filter (\<lambda>i. P (xs ! i)) [0..<length xs]) = filter P xs"
proof -
  have "filter P xs = filter P (map ((!) xs) [0..<length xs])" by (simp add: map_nth)
  also have "\<dots> = map ((!) xs) (filter (P \<circ> (!) xs) [0..<length xs])" by (rule filter_map)
  finally show ?thesis by (simp add: comp_def)
qed

lemma sort_key_mset_eq:
  assumes "mset U = mset V" "inj_on k (set U)"
  shows "sort_key k (filter P U) = sort_key k (filter P V)"
proof (rule sorted_perm_unique [where k = k])
  show "sorted_perm k (filter P U) (sort_key k (filter P U))" by (rule sorted_perm_sort_key)
  show "sorted_perm k (filter P V) (sort_key k (filter P V))" by (rule sorted_perm_sort_key)
  show "mset (filter P U) = mset (filter P V)" using assms(1) by simp
  show "inj_on k (set (filter P U))" using assms(2) by (rule inj_on_subset) auto
qed

section \<open>Encodings with a decoder\<close>

text \<open>
  The interface of every wire format and every quoting in the program: on the values \<open>ok\<close> accepts,
  decoding an encoding gives the value back. \<open>prefix_codec\<close> adds that the decoder ignores what follows
  the encoding, which is what makes framing by concatenation work.
\<close>

locale codec =
  fixes ok :: "'a \<Rightarrow> bool"
    and enc :: "'a \<Rightarrow> 'b"
    and dec :: "'b \<Rightarrow> 'a option"
  assumes dec_enc: "ok x \<Longrightarrow> dec (enc x) = Some x"
begin

lemma enc_inject: "ok x \<Longrightarrow> ok y \<Longrightarrow> enc x = enc y \<Longrightarrow> x = y"
  by (metis dec_enc option.inject)

lemma enc_eq_iff: "ok x \<Longrightarrow> ok y \<Longrightarrow> enc x = enc y \<longleftrightarrow> x = y"
  using enc_inject by blast

end

locale prefix_codec = codec ok enc dec
  for ok :: "'a \<Rightarrow> bool" and enc :: "'a \<Rightarrow> 'c list" and dec :: "'c list \<Rightarrow> 'a option" +
  assumes dec_prefix: "ok x \<Longrightarrow> dec (enc x @ rest) = Some x"
begin

lemma frame_inject:
  assumes "ok x" "ok y" "enc x @ r = enc y @ s"
  shows "x = y \<and> r = s"
proof -
  have "x = y" using assms by (metis dec_prefix option.inject)
  with assms show ?thesis by simp
qed

end

end
