(* ===== verification/Results.thy ===== *)
theory Results
  imports Prelude
begin

text \<open>
  The structs that the decoders return, with the fields of the Go declarations (prefixed by the
  struct, since Isabelle record fields share one name space). Times and counters are 64-bit words;
  a \<open>float64\<close> is its IEEE-754 bit pattern. A Go \<open>map[string]string\<close> is a partial function.
\<close>

type_synonym f64 = "64 word"

record LogEntry =
  le_Time :: i64
  le_ObservedTime :: i64
  le_Service :: string
  le_Severity :: u8
  le_SeverityText :: string
  le_Body :: string
  le_Attributes :: string
  le_TraceID :: bytes
  le_SpanID :: bytes

record Point =
  pt_T :: i64
  pt_V :: f64

record Series =
  se_Labels :: "string \<rightharpoonup> string"
  se_Points :: "Point list"

record SpanMetricPoint =
  sm_Bucket :: i64
  sm_Labels :: "string \<rightharpoonup> string"
  sm_Calls :: u64
  sm_Errors :: u64
  sm_P50 :: f64
  sm_P95 :: f64
  sm_P99 :: f64

record InstantSample =
  is_Labels :: string
  is_Time :: i64
  is_Value :: f64

record MetricPoint =
  mp_Time :: i64
  mp_Metric :: string
  mp_Service :: string
  mp_Attributes :: string
  mp_Value :: f64

record MetricInfo =
  mi_Metric :: string
  mi_Unit :: string
  mi_Temporality :: string
  mi_Kind :: string

record Exemplar =
  ex_Time :: i64
  ex_Value :: f64
  ex_TraceID :: string
  ex_SpanID :: string
  ex_Attributes :: string

record VolumeBucket =
  vb_Time :: i64
  vb_Labels :: string
  vb_Count :: i64

record TraceMatch =
  tm_TraceID :: string
  tm_SpanIDs :: "string list"

record Span =
  sp_TraceID :: bytes
  sp_SpanID :: bytes
  sp_ParentSpanID :: bytes
  sp_Name :: string
  sp_Kind :: string
  sp_StartTime :: i64
  sp_DurationNs :: i64
  sp_StatusCode :: string
  sp_StatusMessage :: string
  sp_Service :: string
  sp_Attributes :: string

record TraceSummary =
  ts_TraceID :: string
  ts_RootService :: string
  ts_RootName :: string
  ts_StartTime :: i64
  ts_DurationNs :: i64
  ts_SpanCount :: i64
  ts_Error :: bool

end
