(* ===== verification/TraceTree.thy ===== *)
theory TraceTree
  imports Results
begin

text \<open>
  \<open>trace_tree.go\<close>: the parent-to-child forest of a flat span list. The Go code works on pointers to
  nodes; here a node is its index in \<open>order\<close>, and the heap is a record of the three structures the
  code keeps (\<open>byID\<close>, \<open>order\<close>, the \<open>Children\<close> of each node). \<open>assemble\<close> is the code; \<open>forest_spec\<close> is the
  specification on spans alone, and \<open>AssembleTrace_refines\<close> says the code computes it. The claims of
  the documentation comment (no span is dropped, order independence, first duplicate wins) are then
  properties of the specification.
\<close>

section \<open>The comparison of sortNodes\<close>

datatype span_key = SpanKey int string

instantiation span_key :: linorder
begin

fun less_eq_span_key :: "span_key \<Rightarrow> span_key \<Rightarrow> bool" where
  "less_eq_span_key (SpanKey a x) (SpanKey b y) \<longleftrightarrow> a < b \<or> (a = b \<and> x \<le> y)"

definition less_span_key :: "span_key \<Rightarrow> span_key \<Rightarrow> bool" where
  "less_span_key k l \<longleftrightarrow> k \<le> l \<and> \<not> l \<le> k"

instance
proof
  fix k l m :: span_key
  show "k < l \<longleftrightarrow> k \<le> l \<and> \<not> l \<le> k" by (simp add: less_span_key_def)
  show "k \<le> k" by (cases k) simp
  show "k \<le> l \<Longrightarrow> l \<le> m \<Longrightarrow> k \<le> m" by (cases k; cases l; cases m) auto
  show "k \<le> l \<Longrightarrow> l \<le> k \<Longrightarrow> k = l" by (cases k; cases l) auto
  show "k \<le> l \<or> l \<le> k" by (cases k; cases l) auto
qed

end

definition span_key_of :: "Span \<Rightarrow> span_key" where
  "span_key_of s = SpanKey (sint (sp_StartTime s)) (sp_SpanID s)"

text \<open>The comparison the code passes to \<open>sort.Slice\<close>, and that it is the strict order of the key.\<close>

definition node_less :: "Span \<Rightarrow> Span \<Rightarrow> bool" where
  "node_less a b =
     (if sp_StartTime a \<noteq> sp_StartTime b then sint (sp_StartTime a) < sint (sp_StartTime b)
      else sp_SpanID a < sp_SpanID b)"

lemma node_less_key: "node_less a b \<longleftrightarrow> span_key_of a < span_key_of b"
  by (auto simp: node_less_def span_key_of_def less_span_key_def signed_word_eqI)

section \<open>The heap and the three loops\<close>

record assembly =
  byID :: "string \<rightharpoonup> nat"
  order :: "Span list"
  children :: "nat \<Rightarrow> nat list"

definition empty_assembly :: assembly where
  "empty_assembly = \<lparr>byID = Map.empty, order = [], children = (\<lambda>_. [])\<rparr>"

text \<open>Index the spans by SpanID, first occurrence wins.\<close>

fun index_spans :: "Span list \<Rightarrow> assembly \<Rightarrow> assembly" where
  "index_spans [] a = a"
| "index_spans (s # ss) a =
     (case byID a (sp_SpanID s) of
        Some _ \<Rightarrow> index_spans ss a
      | None \<Rightarrow> index_spans ss
          (a\<lparr>byID := (byID a)(sp_SpanID s \<mapsto> length (order a)), order := order a @ [s]\<rparr>))"

text \<open>Link each node to its parent, or collect it as a root.\<close>

fun link_nodes :: "nat list \<Rightarrow> assembly \<Rightarrow> nat list \<Rightarrow> assembly \<times> nat list" where
  "link_nodes [] a roots = (a, roots)"
| "link_nodes (i # is) a roots =
     (let pid = sp_ParentSpanID (order a ! i) in
      if length pid = 0 then link_nodes is a (roots @ [i])
      else case byID a pid of
             Some p \<Rightarrow> link_nodes is (a\<lparr>children := (children a)(p := children a p @ [i])\<rparr>) roots
           | None \<Rightarrow> link_nodes is a (roots @ [i]))"

text \<open>
  \<open>sortNodes\<close>. \<open>sort.Slice\<close> only promises a sorted permutation; \<open>sortNodes_unique\<close> below shows that
  on these nodes every sorted permutation is the one computed here.
\<close>

definition sortNodes :: "assembly \<Rightarrow> nat list \<Rightarrow> nat list" where
  "sortNodes a nodes = sort_key (\<lambda>i. span_key_of (order a ! i)) nodes"

fun sort_children :: "nat list \<Rightarrow> assembly \<Rightarrow> assembly" where
  "sort_children [] a = a"
| "sort_children (i # is) a =
     sort_children is (a\<lparr>children := (children a)(i := sortNodes a (children a i))\<rparr>)"

definition assemble :: "Span list \<Rightarrow> assembly \<times> nat list" where
  "assemble spans =
     (if length spans = 0 then (empty_assembly, [])
      else let a = index_spans spans empty_assembly;
               (a', roots) = link_nodes [0..<length (order a)] a []
           in (sort_children [0..<length (order a')] a', sortNodes a' roots))"

text \<open>
  The value the caller sees when it walks the returned pointers: a tree. Fuel bounds the walk, and
  \<open>tree_spec_total\<close> shows that the number of nodes is always enough.
\<close>

datatype TraceNode = TraceNode (node_span: Span) (node_children: "TraceNode list")

fun tree_of :: "nat \<Rightarrow> assembly \<Rightarrow> nat \<Rightarrow> TraceNode option" where
  "tree_of 0 a i = None"
| "tree_of (Suc f) a i =
     do { ts \<leftarrow> mapM (tree_of f a) (children a i); Some (TraceNode (order a ! i) ts) }"

definition AssembleTrace :: "Span list \<Rightarrow> TraceNode list option" where
  "AssembleTrace spans =
     (let (a, roots) = assemble spans in mapM (tree_of (length (order a)) a) roots)"

fun spans_of :: "TraceNode \<Rightarrow> Span list" where
  "spans_of (TraceNode s ts) = s # concat (map spans_of ts)"

definition forest_spans :: "TraceNode list \<Rightarrow> Span list" where
  "forest_spans ts = concat (map spans_of ts)"

section \<open>The specification\<close>

text \<open>The spans that survive deduplication: the first one of every SpanID, in input order.\<close>

fun first_by_id :: "Span list \<Rightarrow> Span list" where
  "first_by_id [] = []"
| "first_by_id (s # ss) = s # filter (\<lambda>t. sp_SpanID t \<noteq> sp_SpanID s) (first_by_id ss)"

definition is_root :: "Span list \<Rightarrow> Span \<Rightarrow> bool" where
  "is_root U s \<longleftrightarrow> sp_ParentSpanID s = [] \<or> sp_ParentSpanID s \<notin> sp_SpanID ` set U"

definition child_of :: "Span \<Rightarrow> Span \<Rightarrow> bool" where
  "child_of p s \<longleftrightarrow> sp_ParentSpanID s \<noteq> [] \<and> sp_ParentSpanID s = sp_SpanID p"

definition kids :: "Span list \<Rightarrow> Span \<Rightarrow> Span list" where
  "kids U p = sort_key span_key_of (filter (child_of p) U)"

definition roots_spec :: "Span list \<Rightarrow> Span list" where
  "roots_spec U = sort_key span_key_of (filter (is_root U) U)"

fun tree_spec :: "nat \<Rightarrow> Span list \<Rightarrow> Span \<Rightarrow> TraceNode option" where
  "tree_spec 0 U s = None"
| "tree_spec (Suc f) U s =
     do { ts \<leftarrow> mapM (tree_spec f U) (kids U s); Some (TraceNode s ts) }"

definition forest_spec :: "Span list \<Rightarrow> TraceNode list option" where
  "forest_spec U = mapM (tree_spec (length U) U) (roots_spec U)"


section \<open>Deduplication\<close>

lemma first_by_id_ids: "sp_SpanID ` set (first_by_id ss) = sp_SpanID ` set ss"
proof (induction ss)
  case (Cons s ss)
  have "sp_SpanID ` {t \<in> set (first_by_id ss). sp_SpanID t \<noteq> sp_SpanID s} =
      sp_SpanID ` set (first_by_id ss) - {sp_SpanID s}" by auto
  with Cons show ?case by auto
qed simp

lemma first_by_id_subset: "set (first_by_id ss) \<subseteq> set ss"
  by (induction ss) auto

lemma first_by_id_distinct: "distinct (map sp_SpanID (first_by_id ss))"
  by (induction ss) (auto simp: distinct_map_filter_key)

lemma first_by_id_distinct_id: "distinct (map sp_SpanID ss) \<Longrightarrow> first_by_id ss = ss"
proof (induction ss)
  case (Cons s ss)
  then have "\<forall>t\<in>set ss. sp_SpanID t \<noteq> sp_SpanID s" by (auto simp: image_iff)
  with Cons show ?case by (simp add: filter_id_conv)
qed simp

lemma first_by_id_iff:
  "t \<in> set (first_by_id ss) \<longleftrightarrow>
     (\<exists>ys zs. ss = ys @ t # zs \<and> sp_SpanID t \<notin> sp_SpanID ` set ys)"
proof (induction ss)
  case (Cons s ss)
  show ?case
  proof
    assume "t \<in> set (first_by_id (s # ss))"
    then consider "t = s" | "t \<in> set (first_by_id ss)" "sp_SpanID t \<noteq> sp_SpanID s" by auto
    then show "\<exists>ys zs. s # ss = ys @ t # zs \<and> sp_SpanID t \<notin> sp_SpanID ` set ys"
    proof cases
      case 1
      then have "s # ss = [] @ t # ss \<and> sp_SpanID t \<notin> sp_SpanID ` set []" by simp
      then show ?thesis by blast
    next
      case 2
      then obtain ys zs where "ss = ys @ t # zs" "sp_SpanID t \<notin> sp_SpanID ` set ys"
        using Cons by auto
      with 2 have "s # ss = (s # ys) @ t # zs \<and> sp_SpanID t \<notin> sp_SpanID ` set (s # ys)" by auto
      then show ?thesis by blast
    qed
  next
    assume "\<exists>ys zs. s # ss = ys @ t # zs \<and> sp_SpanID t \<notin> sp_SpanID ` set ys"
    then obtain ys zs where "s # ss = ys @ t # zs" "sp_SpanID t \<notin> sp_SpanID ` set ys" by auto
    then show "t \<in> set (first_by_id (s # ss))" using Cons by (cases ys) auto
  qed
qed simp

definition index_inv :: "assembly \<Rightarrow> bool" where
  "index_inv a \<longleftrightarrow>
     (\<forall>k i. byID a k = Some i \<longleftrightarrow> i < length (order a) \<and> sp_SpanID (order a ! i) = k)"

lemma index_inv_dom: "index_inv a \<Longrightarrow> byID a k = None \<longleftrightarrow> k \<notin> sp_SpanID ` set (order a)"
proof -
  assume inv: "index_inv a"
  then have "byID a k \<noteq> None \<longleftrightarrow> (\<exists>i < length (order a). sp_SpanID (order a ! i) = k)"
    unfolding index_inv_def by (metis not_None_eq)
  also have "\<dots> \<longleftrightarrow> k \<in> sp_SpanID ` set (order a)"
    by (auto simp: set_conv_nth)
  finally show ?thesis by blast
qed

lemma index_inv_step:
  assumes "index_inv a" "byID a (sp_SpanID s) = None"
  shows "index_inv (a\<lparr>byID := (byID a)(sp_SpanID s \<mapsto> length (order a)), order := order a @ [s]\<rparr>)"
proof -
  have "\<forall>i < length (order a). sp_SpanID (order a ! i) \<noteq> sp_SpanID s"
    using assms index_inv_dom by (metis image_eqI nth_mem)
  with assms(1) show ?thesis
    by (auto simp: index_inv_def nth_append less_Suc_eq)
qed

lemma index_spans_correct:
  assumes "index_inv a"
  shows "index_inv (index_spans ss a) \<and> children (index_spans ss a) = children a \<and>
    order (index_spans ss a) =
      order a @ filter (\<lambda>s. sp_SpanID s \<notin> sp_SpanID ` set (order a)) (first_by_id ss)"
  using assms
proof (induction ss arbitrary: a)
  case (Cons s ss)
  show ?case
  proof (cases "byID a (sp_SpanID s)")
    case None
    let ?a = "a\<lparr>byID := (byID a)(sp_SpanID s \<mapsto> length (order a)), order := order a @ [s]\<rparr>"
    have "s \<notin> {}" and fresh: "sp_SpanID s \<notin> sp_SpanID ` set (order a)"
      using None Cons.prems index_inv_dom by auto
    have "filter (\<lambda>t. sp_SpanID t \<notin> sp_SpanID ` set (order ?a)) (first_by_id ss) =
      filter (\<lambda>t. sp_SpanID t \<notin> sp_SpanID ` set (order a))
        (filter (\<lambda>t. sp_SpanID t \<noteq> sp_SpanID s) (first_by_id ss))"
      by (auto intro: filter_cong)
    with Cons.IH [OF index_inv_step [OF Cons.prems None]] None fresh show ?thesis by simp
  next
    case (Some i)
    then have "sp_SpanID s \<in> sp_SpanID ` set (order a)"
      using Cons.prems index_inv_dom [of a "sp_SpanID s"] by auto
    then have "filter (\<lambda>t. sp_SpanID t \<notin> sp_SpanID ` set (order a))
        (filter (\<lambda>t. sp_SpanID t \<noteq> sp_SpanID s) (first_by_id ss)) =
      filter (\<lambda>t. sp_SpanID t \<notin> sp_SpanID ` set (order a)) (first_by_id ss)"
      by (auto intro!: filter_cong)
    with Cons.IH [OF Cons.prems] Some \<open>sp_SpanID s \<in> _\<close> show ?thesis by simp
  qed
qed simp

section \<open>Linking and sorting\<close>

definition par :: "assembly \<Rightarrow> nat \<Rightarrow> nat option" where
  "par a i = (let pid = sp_ParentSpanID (order a ! i) in if pid = [] then None else byID a pid)"

lemma link_nodes_correct:
  "link_nodes is a roots =
     (a\<lparr>children := (\<lambda>p. children a p @ filter (\<lambda>i. par a i = Some p) is)\<rparr>,
      roots @ filter (\<lambda>i. par a i = None) is)"
proof (induction "is" arbitrary: a roots)
  case (Cons i "is")
  have "par (a\<lparr>children := c\<rparr>) = par a" for c by (rule ext) (simp add: par_def Let_def)
  then show ?case
    by (auto simp: Cons par_def Let_def fun_eq_iff split: option.splits)
qed simp

lemma sort_children_correct:
  assumes "distinct is"
  shows "sort_children is a =
    a\<lparr>children := (\<lambda>p. if p \<in> set is then sortNodes a (children a p) else children a p)\<rparr>"
  using assms
proof (induction "is" arbitrary: a)
  case (Cons i "is")
  have "sortNodes (a\<lparr>children := c\<rparr>) = sortNodes a" for c by (auto simp: sortNodes_def fun_eq_iff)
  with Cons show ?case by (auto simp: fun_eq_iff)
qed simp

section \<open>The code computes the specification\<close>

lemma assemble_correct:
  assumes "spans \<noteq> []"
  defines "U \<equiv> first_by_id spans"
  shows "order (fst (assemble spans)) = U"
    and "i < length U \<Longrightarrow>
      map ((!) U) (children (fst (assemble spans)) i) = kids U (U ! i)"
    and "map ((!) U) (snd (assemble spans)) = roots_spec U"
    and "set (children (fst (assemble spans)) i) \<subseteq> {..<length U}"
    and "set (snd (assemble spans)) \<subseteq> {..<length U}"
proof -
  define a where "a = index_spans spans empty_assembly"
  have "index_inv empty_assembly" by (simp add: index_inv_def empty_assembly_def)
  from index_spans_correct [OF this, of spans]
  have inv: "index_inv a" and ord: "order a = U" and kids0: "children a = (\<lambda>_. [])"
    by (simp_all add: a_def U_def empty_assembly_def)
  define a' where "a' = a\<lparr>children := (\<lambda>p. filter (\<lambda>i. par a i = Some p) [0..<length U])\<rparr>"
  have link: "link_nodes [0..<length (order a)] a [] =
      (a', filter (\<lambda>i. par a i = None) [0..<length U])"
    by (simp add: link_nodes_correct a'_def ord kids0)
  have ord': "order a' = U" by (simp add: a'_def ord)
  have asm: "assemble spans =
      (a'\<lparr>children := (\<lambda>p. if p < length U then sortNodes a' (children a' p) else children a' p)\<rparr>,
       sortNodes a' (filter (\<lambda>i. par a i = None) [0..<length U]))"
    using assms(1) link by (simp add: assemble_def Let_def sort_children_correct ord' flip: a_def)
  have root: "par a i = None \<longleftrightarrow> is_root U (U ! i)" for i
    using index_inv_dom [OF inv] by (auto simp: par_def is_root_def ord Let_def)
  have child: "par a j = Some i \<longleftrightarrow> child_of (U ! i) (U ! j)" if "i < length U" for i j
    using inv that by (auto simp: par_def child_of_def ord Let_def index_inv_def)
  have sortU: "map ((!) U) (sortNodes a' is) = sort_key span_key_of (map ((!) U) is)" for "is"
    by (simp add: sortNodes_def ord' map_sort_key)
  have kids': "children a' i = filter (\<lambda>j. par a j = Some i) [0..<length U]" for i
    by (simp add: a'_def)
  show "order (fst (assemble spans)) = U" by (simp add: asm ord')
  show "map ((!) U) (snd (assemble spans)) = roots_spec U"
    by (simp add: asm sortU root roots_spec_def map_nth_filter)
  show "map ((!) U) (children (fst (assemble spans)) i) = kids U (U ! i)" if "i < length U"
    using that by (simp add: asm sortU kids' child kids_def map_nth_filter)
  show "set (children (fst (assemble spans)) i) \<subseteq> {..<length U}"
    by (auto simp: asm kids' sortNodes_def)
  show "set (snd (assemble spans)) \<subseteq> {..<length U}"
    by (auto simp: asm sortNodes_def)
qed

lemma tree_of_spec:
  assumes "spans \<noteq> []" "i < length (first_by_id spans)"
  shows "tree_of f (fst (assemble spans)) i = tree_spec f (first_by_id spans) (first_by_id spans ! i)"
  using assms(2)
proof (induction f arbitrary: i)
  case (Suc f)
  let ?a = "fst (assemble spans)" and ?U = "first_by_id spans"
  have "mapM (tree_of f ?a) (children ?a i) = mapM (\<lambda>j. tree_spec f ?U (?U ! j)) (children ?a i)"
    using Suc.IH assemble_correct(4) [OF assms(1), of i] by (intro mapM_cong) auto
  also have "\<dots> = mapM (tree_spec f ?U) (kids ?U (?U ! i))"
    by (simp add: mapM_map assemble_correct(2) [OF assms(1) Suc.prems] flip: mapM_map)
  finally show ?case by (simp add: assemble_correct(1) [OF assms(1)])
qed simp

lemma AssembleTrace_spec: "AssembleTrace spans = forest_spec (first_by_id spans)"
proof (cases "spans = []")
  case True
  then show ?thesis
    by (simp add: AssembleTrace_def assemble_def forest_spec_def roots_spec_def)
next
  case False
  let ?a = "fst (assemble spans)" and ?U = "first_by_id spans"
  have "AssembleTrace spans = mapM (tree_of (length ?U) ?a) (snd (assemble spans))"
    by (simp add: AssembleTrace_def split_beta assemble_correct(1) [OF False])
  also have "\<dots> = mapM (\<lambda>j. tree_spec (length ?U) ?U (?U ! j)) (snd (assemble spans))"
    using assemble_correct(5) [OF False] tree_of_spec [OF False] by (intro mapM_cong) auto
  also have "\<dots> = mapM (tree_spec (length ?U) ?U) (map ((!) ?U) (snd (assemble spans)))"
    by (simp add: mapM_map)
  finally show ?thesis by (simp add: assemble_correct(3) [OF False] forest_spec_def)
qed


section \<open>Descent\<close>

fun desc :: "Span list \<Rightarrow> nat \<Rightarrow> Span \<Rightarrow> Span \<Rightarrow> bool" where
  "desc U 0 s x \<longleftrightarrow> x = s"
| "desc U (Suc j) s x \<longleftrightarrow> (\<exists>c\<in>set U. child_of s c \<and> desc U j c x)"

definition rooted :: "Span list \<Rightarrow> nat \<Rightarrow> Span \<Rightarrow> bool" where
  "rooted U k x \<longleftrightarrow> (\<exists>r\<in>set U. is_root U r \<and> desc U k r x)"

lemma desc_mem: "desc U j s x \<Longrightarrow> s \<in> set U \<Longrightarrow> x \<in> set U"
  by (induction j arbitrary: s) auto

lemma desc_snoc: "desc U (Suc j) s x \<longleftrightarrow> (\<exists>p. desc U j s p \<and> child_of p x \<and> x \<in> set U)"
proof (induction j arbitrary: s)
  case (Suc j)
  have "desc U (Suc (Suc j)) s x \<longleftrightarrow> (\<exists>c\<in>set U. child_of s c \<and> desc U (Suc j) c x)" by simp
  also have "\<dots> \<longleftrightarrow> (\<exists>c\<in>set U. child_of s c \<and> (\<exists>p. desc U j c p \<and> child_of p x \<and> x \<in> set U))"
    by (simp only: Suc)
  also have "\<dots> \<longleftrightarrow> (\<exists>p. desc U (Suc j) s p \<and> child_of p x \<and> x \<in> set U)" by auto
  finally show ?case .
qed auto

lemma desc_add: "desc U i r s \<Longrightarrow> desc U j s x \<Longrightarrow> desc U (i + j) r x"
  by (induction i arbitrary: r) auto

lemma child_of_parent_unique:
  assumes "distinct (map sp_SpanID U)" "p \<in> set U" "q \<in> set U" "child_of p x" "child_of q x"
  shows "p = q"
  using assms by (auto simp: child_of_def distinct_map dest: inj_onD)

lemma desc_same_depth:
  assumes "distinct (map sp_SpanID U)" "desc U j s x" "desc U j s' x" "s \<in> set U" "s' \<in> set U"
  shows "s = s'"
  using assms(2,3)
proof (induction j arbitrary: x)
  case (Suc j)
  then obtain p q where "desc U j s p" "child_of p x" "desc U j s' q" "child_of q x"
    by (auto simp: desc_snoc simp del: desc.simps)
  moreover have "p = q"
    using calculation assms(1,4,5) by (meson child_of_parent_unique desc_mem)
  ultimately show ?case using Suc.IH by blast
qed simp

lemma root_not_child: "is_root U x \<Longrightarrow> p \<in> set U \<Longrightarrow> \<not> child_of p x"
  by (auto simp: is_root_def child_of_def)

lemma rooted_level_unique:
  assumes dist: "distinct (map sp_SpanID U)" and "rooted U k x" "rooted U l x"
  shows "k = l"
  using assms(2,3)
proof (induction k arbitrary: l x)
  case 0
  then have "is_root U x" "x \<in> set U" by (auto simp: rooted_def)
  with 0 show ?case
    by (cases l) (auto simp: rooted_def desc_snoc simp del: desc.simps(2) dest: root_not_child desc_mem)
next
  case (Suc k)
  then obtain r p where r: "r \<in> set U" "is_root U r" "desc U k r p" "child_of p x"
    by (auto simp: rooted_def desc_snoc simp del: desc.simps)
  from Suc.prems obtain r' where r': "r' \<in> set U" "is_root U r'" "desc U l r' x"
    by (auto simp: rooted_def)
  show ?case
  proof (cases l)
    case 0
    with r r' show ?thesis by (auto dest: root_not_child desc_mem)
  next
    case (Suc m)
    with r' obtain q where q: "desc U m r' q" "child_of q x"
      by (auto simp: desc_snoc simp del: desc.simps)
    then have "p = q"
      using r r' dist by (meson child_of_parent_unique desc_mem)
    with r r' q have "rooted U k p" "rooted U m p" by (auto simp: rooted_def)
    with Suc.IH Suc show ?thesis by blast
  qed
qed

lemma rooted_mem: "rooted U k x \<Longrightarrow> x \<in> set U"
  by (auto simp: rooted_def dest: desc_mem)

lemma rooted_step: "rooted U k s \<Longrightarrow> child_of s c \<Longrightarrow> c \<in> set U \<Longrightarrow> rooted U (Suc k) c"
  by (auto simp: rooted_def desc_snoc simp del: desc.simps)

lemma rooted_desc: "rooted U k s \<Longrightarrow> desc U j s x \<Longrightarrow> rooted U (k + j) x"
  by (auto simp: rooted_def dest: desc_add)

lemma rooted_below: "rooted U k x \<Longrightarrow> j \<le> k \<Longrightarrow> \<exists>y. rooted U j y"
proof (induction k arbitrary: x)
  case (Suc k)
  then obtain p where "rooted U k p"
    by (auto simp: rooted_def desc_snoc simp del: desc.simps)
  with Suc show ?case by (cases "j = Suc k") auto
qed auto

lemma rooted_level_bound:
  assumes "distinct (map sp_SpanID U)" "rooted U k x"
  shows "k < length U"
proof -
  define f where "f j = (SOME y. rooted U j y)" for j
  have f: "rooted U j (f j)" if "j \<le> k" for j
    unfolding f_def using rooted_below [OF assms(2) that] by (rule someI_ex)
  have "inj_on f {..k}"
    using f rooted_level_unique [OF assms(1)] by (auto intro!: inj_onI) metis
  moreover have "f ` {..k} \<subseteq> set U" using f rooted_mem by fastforce
  ultimately have "card {..k} \<le> card (set U)" by (metis List.finite_set card_inj_on_le)
  also have "\<dots> \<le> length U" by (rule card_length)
  finally show ?thesis by simp
qed

section \<open>The walk: total, complete, each span once\<close>

lemma set_kids [simp]: "set (kids U p) = {c \<in> set U. child_of p c}"
  by (auto simp: kids_def)

lemma tree_spec_total:
  assumes "distinct (map sp_SpanID U)"
  shows "rooted U k s \<Longrightarrow> length U \<le> f + k \<Longrightarrow> tree_spec f U s \<noteq> None"
proof (induction f arbitrary: k s)
  case 0
  with rooted_level_bound [OF assms] show ?case by fastforce
next
  case (Suc f)
  have "\<exists>ts. mapM (tree_spec f U) (kids U s) = Some ts"
  proof (rule mapM_total)
    fix c assume "c \<in> set (kids U s)"
    then have "rooted U (Suc k) c" using Suc.prems rooted_step by auto
    then show "tree_spec f U c \<noteq> None" using Suc by simp
  qed
  then show ?case by auto
qed

lemma tree_spec_Suc_eq:
  "tree_spec (Suc f) U s = Some t \<longleftrightarrow>
     (\<exists>ts. mapM (tree_spec f U) (kids U s) = Some ts \<and> t = TraceNode s ts)"
  by (auto split: Option.bind_splits)

lemma tree_spec_spans:
  "tree_spec f U s = Some t \<Longrightarrow> x \<in> set (spans_of t) \<longleftrightarrow> (\<exists>j<f. desc U j s x)"
proof (induction f arbitrary: s t)
  case (Suc f)
  then obtain ts where ts: "mapM (tree_spec f U) (kids U s) = Some ts" and t: "t = TraceNode s ts"
    by (auto simp: tree_spec_Suc_eq simp del: tree_spec.simps)
  have sub: "(\<exists>u. tree_spec f U c = Some u \<and> x \<in> set (spans_of u)) \<longleftrightarrow> (\<exists>j<f. desc U j c x)"
    if "c \<in> set (kids U s)" for c
    using mapM_elem [OF ts that] Suc.IH by auto
  have "x \<in> set (spans_of t) \<longleftrightarrow> x = s \<or> (\<exists>u\<in>set ts. x \<in> set (spans_of u))" by (simp add: t)
  also have "\<dots> \<longleftrightarrow>
      x = s \<or> (\<exists>c\<in>set (kids U s). \<exists>u. tree_spec f U c = Some u \<and> x \<in> set (spans_of u))"
    by (auto simp: mapM_set [OF ts] simp del: set_kids)
  also have "\<dots> \<longleftrightarrow> x = s \<or> (\<exists>c\<in>set (kids U s). \<exists>j<f. desc U j c x)"
    using sub by (auto simp del: set_kids)
  also have "\<dots> \<longleftrightarrow> (\<exists>j<Suc f. desc U j s x)"
    by (auto simp: Ex_less_Suc2)
  finally show ?case .
qed simp

lemma distinct_kids: "distinct (map sp_SpanID U) \<Longrightarrow> distinct (kids U p)"
  by (auto simp: kids_def distinct_map)

lemma tree_spec_distinct:
  assumes dist: "distinct (map sp_SpanID U)"
  shows "tree_spec f U s = Some t \<Longrightarrow> rooted U k s \<Longrightarrow> distinct (spans_of t)"
proof (induction f arbitrary: s t k)
  case (Suc f)
  then obtain ts where ts: "mapM (tree_spec f U) (kids U s) = Some ts" and t: "t = TraceNode s ts"
    by (auto simp: tree_spec_Suc_eq simp del: tree_spec.simps)
  have child: "rooted U (Suc k) c" if "c \<in> set (kids U s)" for c
    using that Suc.prems(2) rooted_step by auto
  have "distinct (concat (map spans_of ts))"
  proof (rule distinct_concat_mapM [OF ts distinct_kids [OF dist]])
    fix c u assume "c \<in> set (kids U s)" "tree_spec f U c = Some u"
    then show "distinct (spans_of u)" using Suc.IH child by blast
  next
    fix c d u v
    assume c: "c \<in> set (kids U s)" "d \<in> set (kids U s)" "c \<noteq> d"
      and u: "tree_spec f U c = Some u" "tree_spec f U d = Some v"
    show "set (spans_of u) \<inter> set (spans_of v) = {}"
    proof (rule ccontr)
      assume "\<not> ?thesis"
      then obtain x i j where x: "desc U i c x" "desc U j d x"
        using tree_spec_spans [OF u(1)] tree_spec_spans [OF u(2)] by blast
      have "Suc k + i = Suc k + j"
        using rooted_desc [OF child [OF c(1)] x(1)] rooted_desc [OF child [OF c(2)] x(2)]
        by (rule rooted_level_unique [OF dist])
      then have "i = j" by simp
      with x c have "c = d" using desc_same_depth [OF dist] by auto
      with c show False by simp
    qed
  qed
  moreover have "s \<notin> set (concat (map spans_of ts))"
  proof
    assume "s \<in> set (concat (map spans_of ts))"
    then obtain c u where "c \<in> set (kids U s)" "tree_spec f U c = Some u" "s \<in> set (spans_of u)"
      using mapM_set [OF ts] by auto
    then obtain j where "desc U j c s" and c: "rooted U (Suc k) c"
      using tree_spec_spans child by blast
    then have "rooted U (Suc k + j) s" using rooted_desc by blast
    then have "k = Suc k + j" by (rule rooted_level_unique [OF dist Suc.prems(2)])
    then show False by simp
  qed
  ultimately show ?case by (simp add: t)
qed simp

lemma forest_spec_total: "distinct (map sp_SpanID U) \<Longrightarrow> \<exists>ts. forest_spec U = Some ts"
  unfolding forest_spec_def
proof (rule mapM_total)
  fix r assume dist: "distinct (map sp_SpanID U)" and "r \<in> set (roots_spec U)"
  then have "rooted U 0 r" by (auto simp: rooted_def roots_spec_def)
  then show "tree_spec (length U) U r \<noteq> None" using tree_spec_total [OF dist] by simp
qed

lemma forest_spec_spans:
  assumes dist: "distinct (map sp_SpanID U)" and ts: "forest_spec U = Some ts"
  shows "distinct (forest_spans ts) \<and> set (forest_spans ts) = {x. \<exists>k. rooted U k x}"
proof
  have m: "mapM (tree_spec (length U) U) (roots_spec U) = Some ts"
    using ts by (simp add: forest_spec_def)
  have root: "rooted U 0 r" if "r \<in> set (roots_spec U)" for r
    using that by (auto simp: rooted_def roots_spec_def)
  show "distinct (forest_spans ts)"
    unfolding forest_spans_def
  proof (rule distinct_concat_mapM [OF m])
    show "distinct (roots_spec U)" using dist by (auto simp: roots_spec_def distinct_map)
  next
    fix r t assume "r \<in> set (roots_spec U)" "tree_spec (length U) U r = Some t"
    then show "distinct (spans_of t)" using tree_spec_distinct [OF dist] root by blast
  next
    fix r q t u
    assume r: "r \<in> set (roots_spec U)" "q \<in> set (roots_spec U)" "r \<noteq> q"
      and t: "tree_spec (length U) U r = Some t" "tree_spec (length U) U q = Some u"
    show "set (spans_of t) \<inter> set (spans_of u) = {}"
    proof (rule ccontr)
      assume "\<not> ?thesis"
      then obtain x i j where x: "desc U i r x" "desc U j q x"
        using tree_spec_spans [OF t(1)] tree_spec_spans [OF t(2)] by blast
      have "0 + i = 0 + j"
        using rooted_desc [OF root [OF r(1)] x(1)] rooted_desc [OF root [OF r(2)] x(2)]
        by (rule rooted_level_unique [OF dist])
      then have "i = j" by simp
      with x r have "r = q" using desc_same_depth [OF dist] by (auto simp: roots_spec_def)
      with r show False by simp
    qed
  qed
  have "x \<in> set (forest_spans ts) \<longleftrightarrow> (\<exists>r\<in>set (roots_spec U). \<exists>j<length U. desc U j r x)" for x
    using mapM_elem [OF m] tree_spec_spans
    by (auto simp: forest_spans_def mapM_set [OF m]) blast+
  also have "(\<exists>r\<in>set (roots_spec U). \<exists>j<length U. desc U j r x) \<longleftrightarrow> (\<exists>k. rooted U k x)" for x
    using rooted_level_bound [OF dist] by (auto simp: rooted_def roots_spec_def) blast+
  finally show "set (forest_spans ts) = {x. \<exists>k. rooted U k x}" by auto
qed


section \<open>Complete when parents do not loop\<close>

definition parent_ranked :: "(Span \<Rightarrow> nat) \<Rightarrow> Span list \<Rightarrow> bool" where
  "parent_ranked rank U \<longleftrightarrow> (\<forall>p\<in>set U. \<forall>s\<in>set U. child_of p s \<longrightarrow> rank p < rank s)"

lemma ranked_rooted:
  assumes "parent_ranked rank U"
  shows "s \<in> set U \<Longrightarrow> \<exists>k. rooted U k s"
proof (induction "rank s" arbitrary: s rule: less_induct)
  case less
  show ?case
  proof (cases "is_root U s")
    case True
    then have "rooted U 0 s" using less.prems by (auto simp: rooted_def)
    then show ?thesis by blast
  next
    case False
    then obtain p where p: "p \<in> set U" "child_of p s" by (auto simp: is_root_def child_of_def)
    then have "rank p < rank s" using assms less.prems by (auto simp: parent_ranked_def)
    then obtain k where "rooted U k p" using less.hyps p(1) by blast
    then show ?thesis using p less.prems rooted_step by blast
  qed
qed

section \<open>Order\<close>

fun ordered_tree :: "TraceNode \<Rightarrow> bool" where
  "ordered_tree (TraceNode s ts) \<longleftrightarrow>
     sorted (map (\<lambda>t. span_key_of (node_span t)) ts) \<and>
     (\<forall>t\<in>set ts. child_of s (node_span t) \<and> ordered_tree t)"

lemma tree_spec_node: "tree_spec f U s = Some t \<Longrightarrow> node_span t = s"
  by (cases f) (auto split: Option.bind_splits)

lemma mapM_tree_spec_nodes: "mapM (tree_spec f U) ss = Some ts \<Longrightarrow> map node_span ts = ss"
  by (induction ss arbitrary: ts) (auto split: Option.bind_splits dest: tree_spec_node)

lemma tree_spec_ordered: "tree_spec f U s = Some t \<Longrightarrow> ordered_tree t"
proof (induction f arbitrary: s t)
  case (Suc f)
  then obtain ts where ts: "mapM (tree_spec f U) (kids U s) = Some ts" and t: "t = TraceNode s ts"
    by (auto simp: tree_spec_Suc_eq simp del: tree_spec.simps)
  have nodes: "map node_span ts = kids U s" using ts by (rule mapM_tree_spec_nodes)
  have "map (\<lambda>t. span_key_of (node_span t)) ts = map span_key_of (map node_span ts)" by simp
  also have "\<dots> = map span_key_of (kids U s)" by (simp only: nodes)
  finally have "map (\<lambda>t. span_key_of (node_span t)) ts = map span_key_of (kids U s)" .
  then have "sorted (map (\<lambda>t. span_key_of (node_span t)) ts)" by (simp add: kids_def)
  moreover have "child_of s (node_span u) \<and> ordered_tree u" if "u \<in> set ts" for u
  proof -
    from that obtain c where "c \<in> set (kids U s)" "tree_spec f U c = Some u"
      using mapM_set [OF ts] by auto
    then show ?thesis using Suc.IH by (auto dest: tree_spec_node)
  qed
  ultimately show ?case by (simp add: t)
qed simp

section \<open>The input order does not matter\<close>

lemma span_key_inj: "distinct (map sp_SpanID U) \<Longrightarrow> inj_on span_key_of (set U)"
  by (auto simp: inj_on_def distinct_map span_key_of_def)

lemma forest_spec_mset:
  assumes "mset U = mset V" "distinct (map sp_SpanID U)"
  shows "forest_spec U = forest_spec V"
proof -
  have inj: "inj_on span_key_of (set U)" by (rule span_key_inj [OF assms(2)])
  have "set U = set V" using assms(1) by (rule mset_eq_setD)
  then have "is_root U = is_root V" by (auto simp: is_root_def fun_eq_iff)
  then have "roots_spec U = roots_spec V"
    by (simp add: roots_spec_def sort_key_mset_eq [OF assms(1) inj])
  moreover have "kids U = kids V"
    by (simp add: kids_def fun_eq_iff sort_key_mset_eq [OF assms(1) inj])
  then have "tree_spec f U = tree_spec f V" for f
  proof (induction f)
    case (Suc f)
    show ?case by (rule ext) (simp add: Suc \<open>kids U = kids V\<close>)
  qed (simp add: fun_eq_iff)
  moreover have "length U = length V" using assms(1) by (rule mset_eq_length)
  ultimately show ?thesis by (simp add: forest_spec_def)
qed

lemma sortNodes_unique:
  assumes "distinct (map (\<lambda>i. sp_SpanID (order a ! i)) nodes)"
    and "mset ys = mset nodes"
    and "\<And>i j. i < j \<Longrightarrow> j < length ys \<Longrightarrow> \<not> node_less (order a ! (ys ! j)) (order a ! (ys ! i))"
  shows "ys = sortNodes a nodes"
proof (rule sorted_perm_unique [where k = "\<lambda>i. span_key_of (order a ! i)"])
  show "sorted_perm (\<lambda>i. span_key_of (order a ! i)) nodes ys"
    using assms(2,3) by (auto simp: sorted_perm_def sorted_iff_nth_mono_less node_less_key not_less)
  show "sorted_perm (\<lambda>i. span_key_of (order a ! i)) nodes (sortNodes a nodes)"
    by (simp add: sortNodes_def sorted_perm_sort_key)
  show "inj_on (\<lambda>i. span_key_of (order a ! i)) (set nodes)"
    using assms(1) by (auto simp: inj_on_def distinct_map span_key_of_def)
qed simp


section \<open>Properties\<close>

text \<open>Inputs for the witnesses: the tree of the unit test, and a span that is its own parent.\<close>

definition test_span :: "string \<Rightarrow> string \<Rightarrow> string \<Rightarrow> i64 \<Rightarrow> Span" where
  "test_span sid parent nm start = \<lparr>sp_TraceID = [], sp_SpanID = sid, sp_ParentSpanID = parent,
     sp_Name = nm, sp_Kind = [], sp_StartTime = start, sp_DurationNs = 0, sp_StatusCode = [],
     sp_StatusMessage = [], sp_Service = [], sp_Attributes = []\<rparr>"

definition test_spans :: "Span list" where
  "test_spans = [test_span ''gc'' ''A'' ''grandchild'' 300, test_span ''B'' ''root'' ''childB'' 250,
     test_span ''orphan'' ''missing'' ''orphan'' 400, test_span ''A'' ''root'' ''childA'' 200,
     test_span ''root'' [] ''root'' 100]"

definition test_forest :: "TraceNode list" where
  "test_forest =
     [TraceNode (test_span ''root'' [] ''root'' 100)
        [TraceNode (test_span ''A'' ''root'' ''childA'' 200)
           [TraceNode (test_span ''gc'' ''A'' ''grandchild'' 300) []],
         TraceNode (test_span ''B'' ''root'' ''childB'' 250) []],
      TraceNode (test_span ''orphan'' ''missing'' ''orphan'' 400) []]"

lemma test_spans_assembled: "AssembleTrace test_spans = Some test_forest"
  by code_simp

definition loop_span :: Span where
  "loop_span = test_span ''x'' ''x'' ''loop'' 10"

text \<open>
  C1. AssembleTrace computes the specification: after deduplication (first span of each SpanID, in
  input order) the returned forest is exactly the one in which the roots are the spans with no parent
  in the input and the children of a span are the spans that name it, each list in
  (StartTime, SpanID) order.
\<close>
theorem AssembleTrace_refines:
  "AssembleTrace spans = forest_spec (first_by_id spans) \<and>
   order (fst (assemble spans)) = first_by_id spans"
  by (cases "spans = []")
    (simp_all add: AssembleTrace_spec assemble_correct(1), simp add: assemble_def empty_assembly_def)

text \<open>
  C9. The walk over the returned pointers always ends (the forest is a finite tree, whatever the
  parent links of the input), no span appears twice, and a span appears exactly when its chain of
  parents reaches a root.
\<close>
theorem AssembleTrace_once:
  "\<exists>ts. AssembleTrace spans = Some ts \<and> distinct (forest_spans ts) \<and>
     set (forest_spans ts) = {x. \<exists>k. rooted (first_by_id spans) k x}"
proof -
  from forest_spec_total [OF first_by_id_distinct, of spans]
  obtain ts where ts: "forest_spec (first_by_id spans) = Some ts" by blast
  from forest_spec_spans [OF first_by_id_distinct ts] ts show ?thesis
    by (auto simp: AssembleTrace_spec)
qed

text \<open>
  C10. No span is dropped when the parent links do not loop (for example when every span starts after
  its parent): the forest holds exactly the deduplicated spans.
\<close>
theorem AssembleTrace_complete:
  assumes "parent_ranked rank (first_by_id spans)" "AssembleTrace spans = Some ts"
  shows "mset (forest_spans ts) = mset (first_by_id spans)"
proof -
  let ?U = "first_by_id spans"
  have ts: "forest_spec ?U = Some ts" using assms(2) by (simp add: AssembleTrace_spec)
  note f = forest_spec_spans [OF first_by_id_distinct ts]
  have "set (forest_spans ts) = set ?U"
    using f ranked_rooted [OF assms(1)] by (auto dest: rooted_mem)
  moreover have "distinct ?U" using first_by_id_distinct [of spans] by (simp add: distinct_map)
  ultimately show ?thesis using f by (metis set_eq_iff_mset_eq_distinct)
qed

theorem AssembleTrace_complete_witness:
  "mset (forest_spans test_forest) = mset test_spans"
proof -
  have first: "first_by_id test_spans = test_spans" by code_simp
  have "parent_ranked (\<lambda>s. unat (sp_StartTime s)) (first_by_id test_spans)"
    by (simp add: first) (simp add: parent_ranked_def test_spans_def child_of_def test_span_def)
  from AssembleTrace_complete [OF this test_spans_assembled] show ?thesis by (simp add: first)
qed


text \<open>
  A span whose parent links lead back to itself is in no tree of the result, although the
  documentation says that no span is ever dropped.
\<close>
theorem AssembleTrace_drops_loops:
  assumes "desc (first_by_id spans) (Suc j) s s" "AssembleTrace spans = Some ts"
  shows "s \<notin> set (forest_spans ts)"
proof
  let ?U = "first_by_id spans"
  assume "s \<in> set (forest_spans ts)"
  then obtain k where k: "rooted ?U k s"
    using forest_spec_spans [OF first_by_id_distinct, of spans ts] assms(2)
    by (auto simp: AssembleTrace_spec)
  from rooted_level_unique [OF first_by_id_distinct k rooted_desc [OF k assms(1)]]
  show False by simp
qed

theorem AssembleTrace_drops_loops_witness:
  "AssembleTrace [loop_span] = Some [] \<and> loop_span \<notin> set (forest_spans [])"
proof -
  have run: "AssembleTrace [loop_span] = Some []" by code_simp
  have "desc (first_by_id [loop_span]) (Suc 0) loop_span loop_span"
    by (simp add: child_of_def loop_span_def test_span_def)
  from AssembleTrace_drops_loops [OF this run] run show ?thesis by simp
qed


text \<open>
  C11. The result does not depend on the order of the input when the SpanIDs are distinct.
\<close>
theorem AssembleTrace_order_independent:
  assumes "mset spans = mset spans'" "distinct (map sp_SpanID spans)"
  shows "AssembleTrace spans = AssembleTrace spans'"
proof -
  have "mset (map sp_SpanID spans) = mset (map sp_SpanID spans')" using assms(1) by simp
  then have "distinct (map sp_SpanID spans')"
    using assms(2) mset_eq_imp_distinct_iff by blast
  then have "AssembleTrace spans' = forest_spec spans'"
    by (simp add: AssembleTrace_spec first_by_id_distinct_id)
  moreover have "AssembleTrace spans = forest_spec spans"
    using assms(2) by (simp add: AssembleTrace_spec first_by_id_distinct_id)
  ultimately show ?thesis using forest_spec_mset [OF assms] by simp
qed

theorem AssembleTrace_order_independent_witness:
  "AssembleTrace (rev test_spans) = Some test_forest"
proof -
  have "distinct (map sp_SpanID test_spans)" by code_simp
  moreover have "mset test_spans = mset (rev test_spans)" by simp
  ultimately have "AssembleTrace test_spans = AssembleTrace (rev test_spans)"
    by (rule AssembleTrace_order_independent [rotated])
  then show ?thesis by (rule trans [OF sym test_spans_assembled])
qed


text \<open>
  The roots, and the children of every node at every depth, come in (StartTime, SpanID) order,
  and every child names its parent.
\<close>
theorem AssembleTrace_ordered:
  assumes "AssembleTrace spans = Some ts"
  shows "sorted (map (\<lambda>t. span_key_of (node_span t)) ts) \<and> (\<forall>t\<in>set ts. ordered_tree t)"
proof
  let ?U = "first_by_id spans"
  have ts: "mapM (tree_spec (length ?U) ?U) (roots_spec ?U) = Some ts"
    using assms by (simp add: AssembleTrace_spec forest_spec_def)
  have "map (\<lambda>t. span_key_of (node_span t)) ts = map span_key_of (map node_span ts)" by simp
  also have "map node_span ts = roots_spec ?U" using ts by (rule mapM_tree_spec_nodes)
  finally show "sorted (map (\<lambda>t. span_key_of (node_span t)) ts)" by (simp add: roots_spec_def)
  show "\<forall>t\<in>set ts. ordered_tree t" using mapM_set [OF ts] tree_spec_ordered by auto
qed

theorem AssembleTrace_ordered_witness:
  "list_all ordered_tree test_forest"
  using AssembleTrace_ordered [OF test_spans_assembled] by (simp add: list_all_iff)


text \<open>
  C7. The sort order of the code is total on the nodes it sorts, so \<open>sort.Slice\<close>, which is not stable,
  has only one possible outcome: any permutation of the nodes without an inversion is \<open>sortNodes\<close>.
\<close>
theorem sortNodes_determined:
  assumes "distinct (map (\<lambda>i. sp_SpanID (order a ! i)) nodes)"
    and "mset ys = mset nodes"
    and "\<And>i j. i < j \<Longrightarrow> j < length ys \<Longrightarrow> \<not> node_less (order a ! (ys ! j)) (order a ! (ys ! i))"
  shows "ys = sortNodes a nodes"
  using assms by (rule sortNodes_unique)

theorem sortNodes_determined_witness:
  "sortNodes (empty_assembly\<lparr>order := test_spans\<rparr>) [0, 1, 2, 3, 4] = [4, 3, 1, 0, 2]"
proof (rule sortNodes_determined [symmetric])
  show "distinct (map (\<lambda>i. sp_SpanID (order (empty_assembly\<lparr>order := test_spans\<rparr>) ! i)) [0, 1, 2, 3, 4])"
    by (simp add: test_spans_def test_span_def)
  show "mset [4, 3, 1, 0, 2] = mset [0, 1, 2, 3, 4 :: nat]" by simp
  fix i j :: nat
  assume "i < j" "j < length [4, 3, 1, 0, 2 :: nat]"
  then have "j \<in> {0, 1, 2, 3, 4}" "i \<in> {0, 1, 2, 3}" by auto
  with \<open>i < j\<close> show "\<not> node_less (order (empty_assembly\<lparr>order := test_spans\<rparr>) ! ([4, 3, 1, 0, 2] ! j))
      (order (empty_assembly\<lparr>order := test_spans\<rparr>) ! ([4, 3, 1, 0, 2] ! i))"
    by (auto simp: test_spans_def test_span_def node_less_def)
qed

end
