(* ===== verification/Wire.thy ===== *)
theory Wire
  imports Prelude
begin

text \<open>
  The byte formats that cross the FFI boundary: little-endian 64-bit words, the request frames
  \<open>[db id][body]\<close> and \<open>[db id][query id][payload]\<close> written by the Go package and split by the Rust
  handlers, the 26-byte ingest receipt and the 8-byte count reply.
\<close>

section \<open>Little-endian words\<close>

fun le_bytes :: "nat \<Rightarrow> nat \<Rightarrow> bytes" where
  "le_bytes 0 v = []"
| "le_bytes (Suc n) v = char_of v # le_bytes n (v div 256)"

fun le_val :: "bytes \<Rightarrow> nat" where
  "le_val [] = 0"
| "le_val (c # cs) = of_char c + 256 * le_val cs"

definition put64 :: "u64 \<Rightarrow> bytes" where
  "put64 w = le_bytes 8 (unat w)"

definition get64 :: "bytes \<Rightarrow> u64" where
  "get64 bs = word_of_nat (le_val (take 8 bs))"

text \<open>\<open>binary.LittleEndian.Uint64\<close> panics on fewer than eight bytes; every caller checks first.\<close>

definition dec64 :: "bytes \<Rightarrow> u64 option" where
  "dec64 bs = (if length bs < 8 then None else Some (get64 bs))"

lemma length_le_bytes [simp]: "length (le_bytes n v) = n"
  by (induction n arbitrary: v) auto

lemma le_val_bytes: "le_val (le_bytes n v) = v mod 256 ^ n"
proof (induction n arbitrary: v)
  case 0
  then show ?case by simp
next
  case (Suc n)
  then show ?case by (simp add: mod_mult2_eq)
qed

lemma length_put64 [simp]: "length (put64 w) = 8"
  by (simp add: put64_def)

lemma get64_put64 [simp]: "get64 (put64 w @ bs) = w"
proof -
  have "unat w < 256 ^ 8" using unsigned_less [of w] by simp
  then show ?thesis by (simp add: get64_def put64_def le_val_bytes)
qed

lemma get64_put64_only [simp]: "get64 (put64 w) = w"
  using get64_put64 [of w "[]"] by simp

lemma dec64_put64 [simp]: "dec64 (put64 w @ bs) = Some w"
  by (simp add: dec64_def)

interpretation le64: prefix_codec "\<lambda>_. True" put64 dec64
  by unfold_locales (simp_all add: dec64_def)

section \<open>Request frames\<close>

text \<open>The byte-Call frame of \<open>callOp\<close>, \<open>ingest\<close>, \<open>tryIngest\<close>, \<open>Flush\<close> and \<open>CountLogs\<close>.\<close>

definition call_frame :: "u64 \<Rightarrow> bytes \<Rightarrow> bytes" where
  "call_frame db body = put64 db @ body"

text \<open>The stream frame of \<open>openStream\<close>.\<close>

definition stream_frame :: "u64 \<Rightarrow> u64 \<Rightarrow> bytes \<Rightarrow> bytes" where
  "stream_frame db qid payload = put64 db @ put64 qid @ payload"

text \<open>The Rust side's inverses.\<close>

definition split_req :: "bytes \<Rightarrow> (u64 \<times> bytes) option" where
  "split_req req = (if length req < 8 then None else Some (get64 req, drop 8 req))"

definition split_stream_req :: "bytes \<Rightarrow> (u64 \<times> u64 \<times> bytes) option" where
  "split_stream_req req =
     (if length req < 16 then None
      else Some (get64 req, get64 (drop 8 req), drop 16 req))"

lemma split_call_frame [simp]: "split_req (call_frame db body) = Some (db, body)"
  by (simp add: split_req_def call_frame_def)

lemma split_stream_frame [simp]:
  "split_stream_req (stream_frame db qid payload) = Some (db, qid, payload)"
  by (simp add: split_stream_req_def stream_frame_def)

lemma stream_frame_append: "stream_frame db qid (p @ q) = stream_frame db qid p @ q"
  by (simp add: stream_frame_def)

interpretation call_framing: codec "\<lambda>_. True" "\<lambda>(db, body). call_frame db body" split_req
  by unfold_locales auto

interpretation stream_framing:
  codec "\<lambda>_. True" "\<lambda>(db, qid, payload). stream_frame db qid payload" split_stream_req
  by unfold_locales auto

section \<open>Ingest receipts\<close>

record Receipt =
  Accepted :: u64
  Rejected :: u64
  LSN :: u64
  Durable :: bool
  Queued :: bool

definition decodeReceipt :: "bytes \<Rightarrow> Receipt result" where
  "decodeReceipt b =
     (if length b < 26 then Inl (ErrorString ''imbhgo: short ingest receipt'')
      else Inr \<lparr>Accepted = get64 b, Rejected = get64 (drop 8 b), LSN = get64 (drop 16 b),
                Durable = (b ! 24 \<noteq> nul), Queued = (b ! 25 \<noteq> nul)\<rparr>)"

text \<open>
  The engine's receipt (\<open>imbh::IngestReceipt\<close>): the LSN is a non-zero integer that is absent while
  the record waits for the asynchronous ingest worker.
\<close>

record ImbhReceipt =
  ir_accepted :: u64
  ir_rejected :: u64
  ir_lsn :: "u64 option"
  ir_durable :: bool
  ir_queued :: bool

definition byte_of_bool :: "bool \<Rightarrow> char" where
  "byte_of_bool b = (if b then CHR 0x01 else CHR 0x00)"

definition encode_receipt :: "ImbhReceipt \<Rightarrow> bytes" where
  "encode_receipt r =
     put64 (ir_accepted r) @ put64 (ir_rejected r) @
     put64 (case ir_lsn r of Some l \<Rightarrow> l | None \<Rightarrow> 0) @
     [byte_of_bool (ir_durable r), byte_of_bool (ir_queued r)]"

lemma length_encode_receipt [simp]: "length (encode_receipt r) = 26"
  by (simp add: encode_receipt_def)

lemma byte_of_bool_nul [simp]: "byte_of_bool b \<noteq> nul \<longleftrightarrow> b"
  by (simp add: byte_of_bool_def nul_def)

lemma decodeReceipt_encode:
  "decodeReceipt (encode_receipt r @ rest) =
     Inr \<lparr>Accepted = ir_accepted r, Rejected = ir_rejected r,
          LSN = (case ir_lsn r of Some l \<Rightarrow> l | None \<Rightarrow> 0),
          Durable = ir_durable r, Queued = ir_queued r\<rparr>"
  by (simp add: decodeReceipt_def encode_receipt_def nth_append byte_of_bool_def nul_def)

text \<open>
  Read back with the flag convention (LSN 0 means none), the receipt codec loses nothing: an engine
  LSN is never 0.
\<close>

definition receipt_view :: "Receipt \<Rightarrow> ImbhReceipt" where
  "receipt_view r = \<lparr>ir_accepted = Accepted r, ir_rejected = Rejected r,
     ir_lsn = (if LSN r = 0 then None else Some (LSN r)),
     ir_durable = Durable r, ir_queued = Queued r\<rparr>"

definition receipt_dec :: "bytes \<Rightarrow> ImbhReceipt option" where
  "receipt_dec b = (case decodeReceipt b of Inl _ \<Rightarrow> None | Inr r \<Rightarrow> Some (receipt_view r))"

definition receipt_ok :: "ImbhReceipt \<Rightarrow> bool" where
  "receipt_ok r \<longleftrightarrow> ir_lsn r \<noteq> Some 0"

interpretation receipts: prefix_codec receipt_ok encode_receipt receipt_dec
proof unfold_locales
  have *: "receipt_dec (encode_receipt r @ rest) = Some r" if "receipt_ok r" for r rest
    using that
    by (auto simp: receipt_dec_def decodeReceipt_encode receipt_view_def receipt_ok_def
        split: option.splits)
  fix r :: ImbhReceipt and rest :: bytes
  assume "receipt_ok r"
  with * [of r "[]"] show "receipt_dec (encode_receipt r) = Some r" by simp
  from \<open>receipt_ok r\<close> show "receipt_dec (encode_receipt r @ rest) = Some r" by (rule *)
qed

section \<open>The count reply\<close>

definition decodeCount :: "bytes \<Rightarrow> u64 result" where
  "decodeCount resp =
     (if length resp < 8 then Inl (ErrorString ''imbhgo: short count reply'')
      else Inr (get64 resp))"

lemma decodeCount_put64 [simp]: "decodeCount (put64 n @ rest) = Inr n"
  by (simp add: decodeCount_def)

end
