(* ===== verification/Arrow.thy ===== *)
theory Arrow
  imports Results
begin

text \<open>
  The column readers of \<open>results.go\<close> over the Arrow arrays of \<open>arrow-go\<close>. An array is its concrete
  type with one (valid, value) slot per element; a nullable slot keeps a value that must not be read.
  A reader returns an \<^typ>\<open>'a option\<close>: \<open>None\<close> is the panic of an index out of range. A column that
  the batch does not have is Go's \<open>nil\<close> interface, here \<open>None\<close> in the column argument.
\<close>

section \<open>Arrays and batches\<close>

datatype arr =
    AString "(bool \<times> string) list"
  | ALargeString "(bool \<times> string) list"
  | AStringView "(bool \<times> string) list"
  | ADictionary "(bool \<times> nat) list" arr
  | AInt64 "(bool \<times> i64) list"
  | ATimestamp "(bool \<times> i64) list"
  | AUint8 "(bool \<times> u8) list"
  | AUint32 "(bool \<times> u32) list"
  | AUint64 "(bool \<times> u64) list"
  | ABoolean "(bool \<times> bool) list"
  | AFixedSizeBinary "(bool \<times> bytes) list"
  | ABinary "(bool \<times> bytes) list"
  | AFloat64 "(bool \<times> f64) list"
  | AFloat32 "(bool \<times> u32) list"
  | AMap "bool list" "int list" arr arr
  | AList "bool list" "int list" arr
  | AOther "bool list"

fun valids :: "arr \<Rightarrow> bool list" where
  "valids (AString vs) = map fst vs"
| "valids (ALargeString vs) = map fst vs"
| "valids (AStringView vs) = map fst vs"
| "valids (ADictionary ixs _) = map fst ixs"
| "valids (AInt64 vs) = map fst vs"
| "valids (ATimestamp vs) = map fst vs"
| "valids (AUint8 vs) = map fst vs"
| "valids (AUint32 vs) = map fst vs"
| "valids (AUint64 vs) = map fst vs"
| "valids (ABoolean vs) = map fst vs"
| "valids (AFixedSizeBinary vs) = map fst vs"
| "valids (ABinary vs) = map fst vs"
| "valids (AFloat64 vs) = map fst vs"
| "valids (AFloat32 vs) = map fst vs"
| "valids (AMap bs _ _ _) = bs"
| "valids (AList bs _ _) = bs"
| "valids (AOther bs) = bs"

definition alen :: "arr \<Rightarrow> nat" where
  "alen a = length (valids a)"

definition IsNull :: "arr \<Rightarrow> nat \<Rightarrow> bool option" where
  "IsNull a i = map_option Not (elt (valids a) i)"

definition val_at :: "(bool \<times> 'a) list \<Rightarrow> nat \<Rightarrow> 'a option" where
  "val_at vs i = map_option snd (elt vs i)"

section \<open>Numeric conversions\<close>

text \<open>
  Go's \<open>float64(n)\<close> for an integer \<open>n\<close>: the nearest double, ties to even. A double is
  sign, 11 exponent bits and 52 fraction bits; adding the rounded significand to the shifted exponent
  carries into the exponent when rounding reaches the next power of two.
\<close>

fun bit_length :: "nat \<Rightarrow> nat" where
  "bit_length n = (if n = 0 then 0 else Suc (bit_length (n div 2)))"

declare bit_length.simps [simp del]

definition round_shift :: "nat \<Rightarrow> nat \<Rightarrow> nat" where
  "round_shift m s =
     (let q = m div 2 ^ s; r = m mod 2 ^ s; half = 2 ^ s div 2
      in if half < r \<or> (r = half \<and> odd q) then q + 1 else q)"

definition f64_of_nat :: "nat \<Rightarrow> nat" where
  "f64_of_nat m =
     (if m = 0 then 0
      else let e = bit_length m - 1;
               sig = (if e \<le> 52 then m * 2 ^ (52 - e) else round_shift m (e - 52))
           in (e + 1023) * 2 ^ 52 + sig - 2 ^ 52)"

definition f64_of_int :: "int \<Rightarrow> f64" where
  "f64_of_int n = word_of_nat ((if n < 0 then 2 ^ 63 else 0) + f64_of_nat (nat \<bar>n\<bar>))"

text \<open>
  Go's \<open>float64(x)\<close> for a \<open>float32\<close>: exact. Subnormals are normalised, infinities keep their sign and
  a NaN keeps its payload and becomes quiet.
\<close>

definition f64_of_f32 :: "u32 \<Rightarrow> f64" where
  "f64_of_f32 w =
     (let b = unat w; s = b div 2 ^ 31; e = b div 2 ^ 23 mod 256; m = b mod 2 ^ 23;
          mag = (if e = 255 then 2047 * 2 ^ 52 + (if m = 0 then 0 else (m * 2 ^ 29) mod 2 ^ 51 + 2 ^ 51)
                 else if e = 0 then
                   (if m = 0 then 0
                    else let k = bit_length m - 1 in (k + 874) * 2 ^ 52 + m * 2 ^ (52 - k) - 2 ^ 52)
                 else (e + 896) * 2 ^ 52 + m * 2 ^ 29)
      in word_of_nat (s * 2 ^ 63 + mag))"

section \<open>The readers\<close>

fun string_value :: "arr \<Rightarrow> nat \<Rightarrow> string option" where
  "string_value (AString vs) i = val_at vs i"
| "string_value (ALargeString vs) i = val_at vs i"
| "string_value (AStringView vs) i = val_at vs i"
| "string_value (ADictionary ixs (AString vs)) i = do { k \<leftarrow> val_at ixs i; val_at vs k }"
| "string_value _ i = Some []"

definition stringAt :: "arr option \<Rightarrow> nat \<Rightarrow> string option" where
  "stringAt col i =
     (case col of None \<Rightarrow> Some []
      | Some a \<Rightarrow> do { isnull \<leftarrow> IsNull a i; if isnull then Some [] else string_value a i })"

fun plain_string_value :: "arr \<Rightarrow> nat \<Rightarrow> string option" where
  "plain_string_value (AString vs) j = val_at vs j"
| "plain_string_value (ALargeString vs) j = val_at vs j"
| "plain_string_value (AStringView vs) j = val_at vs j"
| "plain_string_value _ j = Some []"

definition stringFromArray :: "arr \<Rightarrow> int \<Rightarrow> string option" where
  "stringFromArray a j =
     (if j < 0 then None
      else do { isnull \<leftarrow> IsNull a (nat j);
                if isnull then Some [] else plain_string_value a (nat j) })"

fun map_entries :: "arr \<Rightarrow> arr \<Rightarrow> int list \<Rightarrow> (string \<rightharpoonup> string) \<Rightarrow> (string \<rightharpoonup> string) option" where
  "map_entries keys items [] out = Some out"
| "map_entries keys items (j # js) out =
     do { k \<leftarrow> stringFromArray keys j; v \<leftarrow> stringFromArray items j;
          map_entries keys items js (out(k \<mapsto> v)) }"

definition mapStringAt :: "arr option \<Rightarrow> nat \<Rightarrow> (string \<rightharpoonup> string) option" where
  "mapStringAt col i =
     (case col of
        Some (AMap valid offsets keys items) \<Rightarrow>
          do { isnull \<leftarrow> IsNull (AMap valid offsets keys items) i;
               if isnull then Some Map.empty
               else do { lo \<leftarrow> elt offsets i; hi \<leftarrow> elt offsets (i + 1);
                         map_entries keys items [lo..hi - 1] Map.empty } }
      | _ \<Rightarrow> Some Map.empty)"

definition stringListAt :: "arr option \<Rightarrow> nat \<Rightarrow> string list option" where
  "stringListAt col i =
     (case col of
        Some (AList valid offsets vals) \<Rightarrow>
          do { isnull \<leftarrow> IsNull (AList valid offsets vals) i;
               if isnull then Some []
               else do { lo \<leftarrow> elt offsets i; hi \<leftarrow> elt offsets (i + 1);
                         if hi \<le> lo then Some []
                         else mapM (stringFromArray vals) [lo..hi - 1] } }
      | _ \<Rightarrow> Some [])"

fun int64_value :: "arr \<Rightarrow> nat \<Rightarrow> i64 option" where
  "int64_value (AInt64 vs) i = val_at vs i"
| "int64_value (ATimestamp vs) i = val_at vs i"
| "int64_value (AUint8 vs) i = map_option ucast (val_at vs i)"
| "int64_value (AUint32 vs) i = map_option ucast (val_at vs i)"
| "int64_value (AUint64 vs) i = val_at vs i"
| "int64_value _ i = Some 0"

definition int64At :: "arr option \<Rightarrow> nat \<Rightarrow> i64 option" where
  "int64At col i =
     (case col of None \<Rightarrow> Some 0
      | Some a \<Rightarrow> do { isnull \<leftarrow> IsNull a i; if isnull then Some 0 else int64_value a i })"

definition boolAt :: "arr option \<Rightarrow> nat \<Rightarrow> bool option" where
  "boolAt col i =
     (case col of None \<Rightarrow> Some False
      | Some a \<Rightarrow> do { isnull \<leftarrow> IsNull a i;
          if isnull then Some False
          else (case a of ABoolean vs \<Rightarrow> val_at vs i | _ \<Rightarrow> Some False) })"

fun bytes_value :: "arr \<Rightarrow> nat \<Rightarrow> bytes option" where
  "bytes_value (AFixedSizeBinary vs) i = val_at vs i"
| "bytes_value (ABinary vs) i = val_at vs i"
| "bytes_value _ i = Some []"

definition bytesAt :: "arr option \<Rightarrow> nat \<Rightarrow> bytes option" where
  "bytesAt col i =
     (case col of None \<Rightarrow> Some []
      | Some a \<Rightarrow> do { isnull \<leftarrow> IsNull a i; if isnull then Some [] else bytes_value a i })"

fun float64_value :: "arr \<Rightarrow> nat \<Rightarrow> f64 option" where
  "float64_value (AFloat64 vs) i = val_at vs i"
| "float64_value (AFloat32 vs) i = map_option f64_of_f32 (val_at vs i)"
| "float64_value (AInt64 vs) i = map_option (\<lambda>w. f64_of_int (sint w)) (val_at vs i)"
| "float64_value (AUint64 vs) i = map_option (\<lambda>w. f64_of_int (uint w)) (val_at vs i)"
| "float64_value _ i = Some 0"

definition float64At :: "arr option \<Rightarrow> nat \<Rightarrow> f64 option" where
  "float64At col i =
     (case col of None \<Rightarrow> Some 0
      | Some a \<Rightarrow> do { isnull \<leftarrow> IsNull a i; if isnull then Some 0 else float64_value a i })"

section \<open>Batches\<close>

record batch =
  b_fields :: "(string \<times> arr) list"
  b_rows :: nat

type_synonym cols = "string \<Rightarrow> arr option"

text \<open>\<open>columnsByName\<close>: the loop writes in schema order, so the last field of a name wins.\<close>

fun fill_columns :: "(string \<times> arr) list \<Rightarrow> cols \<Rightarrow> cols" where
  "fill_columns [] m = m"
| "fill_columns ((n, c) # fs) m = fill_columns fs (m(n \<mapsto> c))"

definition columnsByName :: "batch \<Rightarrow> cols" where
  "columnsByName b = fill_columns (b_fields b) Map.empty"

lemma fill_columns_map_of: "fill_columns fs m = m ++ map_of (rev fs)"
proof (induction fs arbitrary: m)
  case (Cons f fs)
  obtain n c where f: "f = (n, c)" by (cases f)
  have "m(n \<mapsto> c) ++ map_of (rev fs) = m ++ map_of (rev fs @ [(n, c)])"
    by (rule ext) (simp add: map_add_def split: option.splits)
  then show ?case by (simp add: f Cons.IH) (simp add: fun_upd_def)
qed simp

lemma columnsByName_map_of: "columnsByName b = map_of (rev (b_fields b))"
  by (simp add: columnsByName_def fill_columns_map_of)

section \<open>Well-formed arrays, on which no reader panics\<close>

text \<open>
  What Arrow guarantees of an imported batch: every column has one slot per row, a valid dictionary
  index is inside the dictionary, and a map or list column has one more offset than slots, each inside
  the child arrays.
\<close>

fun wf_arr :: "arr \<Rightarrow> bool" where
  "wf_arr (ADictionary ixs d) \<longleftrightarrow> (\<forall>(v, k)\<in>set ixs. v \<longrightarrow> k < alen d)"
| "wf_arr (AMap bs offs ks vs) \<longleftrightarrow> length offs = Suc (length bs) \<and>
     (\<forall>j\<in>set offs. 0 \<le> j \<and> j \<le> int (alen ks) \<and> j \<le> int (alen vs))"
| "wf_arr (AList bs offs vs) \<longleftrightarrow> length offs = Suc (length bs) \<and>
     (\<forall>j\<in>set offs. 0 \<le> j \<and> j \<le> int (alen vs))"
| "wf_arr _ \<longleftrightarrow> True"

definition wf_batch :: "batch \<Rightarrow> bool" where
  "wf_batch b \<longleftrightarrow> (\<forall>c\<in>snd ` set (b_fields b). wf_arr c \<and> alen c = b_rows b)"

definition wf_col :: "nat \<Rightarrow> arr option \<Rightarrow> bool" where
  "wf_col n col \<longleftrightarrow> (case col of None \<Rightarrow> True | Some a \<Rightarrow> wf_arr a \<and> alen a = n)"

lemma wf_col_None [simp]: "wf_col n None"
  by (simp add: wf_col_def)

lemma wf_col_Some [simp]: "wf_col n (Some a) \<longleftrightarrow> wf_arr a \<and> alen a = n"
  by (simp add: wf_col_def)

lemma wf_batch_col: "wf_batch b \<Longrightarrow> wf_col (b_rows b) (columnsByName b n)"
proof (cases "columnsByName b n")
  case (Some a)
  assume wf: "wf_batch b"
  from Some have "(n, a) \<in> set (b_fields b)"
    by (auto simp: columnsByName_map_of dest: map_of_SomeD)
  with wf have "wf_arr a \<and> alen a = b_rows b" by (force simp: wf_batch_def)
  with Some show ?thesis by simp
qed simp

lemma IsNull_total: "i < alen a \<Longrightarrow> \<exists>b. IsNull a i = Some b \<and> b = (\<not> valids a ! i)"
  by (simp add: IsNull_def alen_def)

lemma val_at_total: "i < length vs \<Longrightarrow> val_at vs i = Some (snd (vs ! i))"
  by (simp add: val_at_def)

named_theorems reader_total
  "readers return a value on a well-formed column at a row in range"

lemma plain_string_total: "i < alen a \<Longrightarrow> \<exists>s. plain_string_value a i = Some s"
  by (cases a) (auto simp: alen_def val_at_total)

lemma string_value_total:
  assumes "wf_arr a" "i < alen a" "valids a ! i"
  shows "\<exists>s. string_value a i = Some s"
proof (cases a)
  case (ADictionary ixs d)
  with assms have i: "i < length ixs" and v: "fst (ixs ! i)" by (simp_all add: alen_def)
  then have "snd (ixs ! i) < alen d"
    using assms(1) ADictionary by (auto simp: case_prod_beta dest: bspec [OF _ nth_mem])
  with i show ?thesis
    by (cases d) (auto simp: ADictionary alen_def val_at_total)
qed (use assms in \<open>auto simp: alen_def val_at_total\<close>)

lemma stringAt_total [reader_total]: "wf_col n col \<Longrightarrow> i < n \<Longrightarrow> \<exists>s. stringAt col i = Some s"
  using string_value_total IsNull_total
  by (fastforce simp: stringAt_def split: option.splits)

lemma int64At_total [reader_total]: "wf_col n col \<Longrightarrow> i < n \<Longrightarrow> \<exists>s. int64At col i = Some s"
proof (cases col)
  case (Some a)
  assume "wf_col n col" "i < n"
  with Some have i: "i < alen a" by simp
  then have "\<exists>v. int64_value a i = Some v" by (cases a) (auto simp: alen_def val_at_total)
  with IsNull_total [OF i] show ?thesis by (auto simp: int64At_def Some)
qed (simp add: int64At_def)

lemma bytesAt_total [reader_total]: "wf_col n col \<Longrightarrow> i < n \<Longrightarrow> \<exists>s. bytesAt col i = Some s"
proof (cases col)
  case (Some a)
  assume "wf_col n col" "i < n"
  with Some have i: "i < alen a" by simp
  then have "\<exists>v. bytes_value a i = Some v" by (cases a) (auto simp: alen_def val_at_total)
  with IsNull_total [OF i] show ?thesis by (auto simp: bytesAt_def Some)
qed (simp add: bytesAt_def)

lemma float64At_total [reader_total]: "wf_col n col \<Longrightarrow> i < n \<Longrightarrow> \<exists>s. float64At col i = Some s"
proof (cases col)
  case (Some a)
  assume "wf_col n col" "i < n"
  with Some have i: "i < alen a" by simp
  then have "\<exists>v. float64_value a i = Some v" by (cases a) (auto simp: alen_def val_at_total)
  with IsNull_total [OF i] show ?thesis by (auto simp: float64At_def Some)
qed (simp add: float64At_def)

lemma boolAt_total [reader_total]: "wf_col n col \<Longrightarrow> i < n \<Longrightarrow> \<exists>s. boolAt col i = Some s"
proof (cases col)
  case (Some a)
  assume "wf_col n col" "i < n"
  with Some have i: "i < alen a" by simp
  then show ?thesis using IsNull_total [OF i]
    by (cases a) (auto simp: boolAt_def Some alen_def val_at_total)
next
  case None
  then have "boolAt col i = Some False" by (simp add: boolAt_def)
  then show ?thesis by blast
qed

lemma stringFromArray_total: "0 \<le> j \<Longrightarrow> j < int (alen a) \<Longrightarrow> \<exists>s. stringFromArray a j = Some s"
  using IsNull_total [of "nat j" a] plain_string_total [of "nat j" a]
  by (auto simp: stringFromArray_def)

lemma map_entries_total:
  "(\<And>j. j \<in> set js \<Longrightarrow> 0 \<le> j \<and> j < int (alen ks) \<and> j < int (alen vs)) \<Longrightarrow>
     \<exists>m'. map_entries ks vs js m = Some m'"
proof (induction js arbitrary: m)
  case (Cons j js)
  obtain k where k: "stringFromArray ks j = Some k"
    using stringFromArray_total [of j ks] Cons.prems [of j] by auto
  obtain v where v: "stringFromArray vs j = Some v"
    using stringFromArray_total [of j vs] Cons.prems [of j] by auto
  have "\<exists>m'. map_entries ks vs js (m(k \<mapsto> v)) = Some m'"
    by (rule Cons.IH) (use Cons.prems in simp)
  with k v show ?case by simp
qed simp

lemma mapStringAt_total [reader_total]:
  "wf_col n col \<Longrightarrow> i < n \<Longrightarrow> \<exists>m. mapStringAt col i = Some m"
proof (cases "\<exists>bs offs ks vs. col = Some (AMap bs offs ks vs)")
  case True
  assume "wf_col n col" "i < n"
  then obtain bs offs ks vs where col: "col = Some (AMap bs offs ks vs)"
    and wf: "wf_arr (AMap bs offs ks vs)" and i: "i < length bs"
    using True by (auto simp: alen_def)
  from wf i have off: "i < length offs" "Suc i < length offs" by auto
  have b: "0 \<le> offs ! i" "offs ! Suc i \<le> int (alen ks)" "offs ! Suc i \<le> int (alen vs)"
    using wf off by (auto dest: bspec [OF _ nth_mem])
  obtain m where "map_entries ks vs [offs ! i..offs ! Suc i - 1] Map.empty = Some m"
    using map_entries_total [of "[offs ! i..offs ! Suc i - 1]" ks vs Map.empty] b by force
  with off i show ?thesis
    by (auto simp: mapStringAt_def col IsNull_def)
next
  case False
  then show ?thesis by (auto simp: mapStringAt_def split: option.splits arr.splits)
qed

lemma stringListAt_total [reader_total]:
  "wf_col n col \<Longrightarrow> i < n \<Longrightarrow> \<exists>m. stringListAt col i = Some m"
proof (cases "\<exists>bs offs vs. col = Some (AList bs offs vs)")
  case True
  assume "wf_col n col" "i < n"
  then obtain bs offs vs where col: "col = Some (AList bs offs vs)"
    and wf: "wf_arr (AList bs offs vs)" and i: "i < length bs"
    using True by (auto simp: alen_def)
  from wf i have off: "i < length offs" "Suc i < length offs" by auto
  have b: "0 \<le> offs ! i" "offs ! Suc i \<le> int (alen vs)"
    using wf off by (auto dest: bspec [OF _ nth_mem])
  have "stringFromArray vs j \<noteq> None" if "j \<in> set [offs ! i..offs ! Suc i - 1]" for j
    using stringFromArray_total [of j vs] that b by auto
  then obtain m where "mapM (stringFromArray vs) [offs ! i..offs ! Suc i - 1] = Some m"
    using mapM_total by blast
  with off i show ?thesis
    by (auto simp: stringListAt_def col IsNull_def)
next
  case False
  then show ?thesis by (auto simp: stringListAt_def split: option.splits arr.splits)
qed

end
