(* ===== verification/GoStrings.thy ===== *)
theory GoStrings
  imports Prelude
begin

text \<open>
  What the program uses of Go's \<open>strings\<close>, \<open>strconv\<close> and \<open>path/filepath\<close>, on byte strings: decimal
  rendering, splitting at a byte, white space (Unicode, read as UTF-8), prefixes, byte replacement and
  slash-separated paths. The lemmas are the laws the callers rely on.
\<close>

section \<open>Decimal rendering\<close>

definition digit :: "nat \<Rightarrow> char" where
  "digit d = char_of (48 + d)"

function itoa :: "nat \<Rightarrow> string" where
  "itoa n = (if n < 10 then [digit n] else itoa (n div 10) @ [digit (n mod 10)])"
  by pat_completeness auto
termination
  by (relation "measure id") auto

declare itoa.simps [simp del]

definition digit_val :: "char \<Rightarrow> nat" where
  "digit_val c = byte c - 48"

definition is_digit :: "char \<Rightarrow> bool" where
  "is_digit c \<longleftrightarrow> between 48 57 c"

definition atoi :: "string \<Rightarrow> nat" where
  "atoi s = foldl (\<lambda>n c. 10 * n + digit_val c) 0 s"

lemma digit_val_digit [simp]: "d < 10 \<Longrightarrow> digit_val (digit d) = d"
  by (simp add: digit_val_def digit_def)

lemma is_digit_digit [simp]: "d < 10 \<Longrightarrow> is_digit (digit d)"
  by (simp add: is_digit_def between_def digit_def)

lemma atoi_append_one: "atoi (s @ [c]) = 10 * atoi s + digit_val c"
  by (simp add: atoi_def)

lemma atoi_itoa [simp]: "atoi (itoa n) = n"
proof (induction n rule: itoa.induct)
  case (1 n)
  show ?case
  proof (cases "n < 10")
    case True
    then show ?thesis by (subst itoa.simps) (simp add: atoi_def)
  next
    case False
    with 1 show ?thesis by (subst itoa.simps) (simp add: atoi_append_one)
  qed
qed

lemma itoa_inject [simp]: "itoa m = itoa n \<longleftrightarrow> m = n"
  by (metis atoi_itoa)

lemma itoa_digits: "c \<in> set (itoa n) \<Longrightarrow> is_digit c"
proof (induction n rule: itoa.induct)
  case (1 n)
  then show ?case by (subst (asm) (2) itoa.simps) (auto split: if_splits)
qed

lemma itoa_not_Nil [simp]: "itoa n \<noteq> []"
  by (subst itoa.simps) simp

interpretation decimal: codec "\<lambda>_. True" itoa "\<lambda>s. Some (atoi s)"
  by unfold_locales simp

section \<open>Bytes of a string\<close>

definition ascii :: "string \<Rightarrow> bool" where
  "ascii s \<longleftrightarrow> (\<forall>c\<in>set s. byte c < 128)"

text \<open>Printable ASCII without the space: no white space and no multi-byte rune can start in it.\<close>

definition graph :: "char \<Rightarrow> bool" where
  "graph c \<longleftrightarrow> between 33 126 c"

definition lower_byte :: "char \<Rightarrow> char" where
  "lower_byte c = (if between 65 90 c then char_of (byte c + 32) else c)"

text \<open>
  \<open>strings.ToLower\<close>: byte by byte on ASCII; \<open>ulow\<close> stands for the Unicode case tables it uses otherwise.
\<close>

definition ToLower :: "(string \<Rightarrow> string) \<Rightarrow> string \<Rightarrow> string" where
  "ToLower ulow s = (if ascii s then map lower_byte s else ulow s)"

definition ReplaceByte :: "char \<Rightarrow> string \<Rightarrow> string \<Rightarrow> string" where
  "ReplaceByte c by s = concat (map (\<lambda>x. if x = c then by else [x]) s)"

definition HasPrefix :: "string \<Rightarrow> string \<Rightarrow> bool" where
  "HasPrefix s p \<longleftrightarrow> take (length p) s = p"

definition TrimPrefix :: "string \<Rightarrow> string \<Rightarrow> string" where
  "TrimPrefix s p = (if HasPrefix s p then drop (length p) s else s)"

definition TrimRightByte :: "char \<Rightarrow> string \<Rightarrow> string" where
  "TrimRightByte c s = rev (dropWhile (\<lambda>x. x = c) (rev s))"

fun SplitByte :: "char \<Rightarrow> string \<Rightarrow> string list" where
  "SplitByte c [] = [[]]"
| "SplitByte c (x # s) =
     (if x = c then [] # SplitByte c s
      else case SplitByte c s of [] \<Rightarrow> [[x]] | l # ls \<Rightarrow> (x # l) # ls)"

lemma SplitByte_not_Nil [simp]: "SplitByte c s \<noteq> []"
  by (cases s) (auto split: list.splits)

lemma SplitByte_app:
  "c \<notin> set l \<Longrightarrow> SplitByte c (l @ c # s) = l # SplitByte c s"
  by (induction l) auto

lemma SplitByte_no_sep: "c \<notin> set l \<Longrightarrow> SplitByte c l = [l]"
  by (induction l) auto

lemma TrimRightByte_id: "s = [] \<or> last s \<noteq> c \<Longrightarrow> TrimRightByte c s = s"
  by (cases s rule: rev_cases) (auto simp: TrimRightByte_def)

lemma HasPrefix_append [simp]: "HasPrefix (p @ s) p"
  by (simp add: HasPrefix_def)

lemma TrimPrefix_append [simp]: "TrimPrefix (p @ s) p = s"
  by (simp add: TrimPrefix_def)

section \<open>White space\<close>

text \<open>
  The length of the white-space rune at the start of a string, 0 when there is none: the six ASCII
  ones, and the UTF-8 forms of U+0085, U+00A0, U+1680, U+2000 to U+200A, U+2028, U+2029, U+202F, U+205F
  and U+3000.
\<close>

fun space_len :: "bytes \<Rightarrow> nat" where
  "space_len [] = 0"
| "space_len (a # r) =
     (if between 9 13 a \<or> byte a = 32 then 1
      else case r of
        [] \<Rightarrow> 0
      | b # r' \<Rightarrow>
        if byte a = 194 \<and> (byte b = 133 \<or> byte b = 160) then 2
        else case r' of
          [] \<Rightarrow> 0
        | c # _ \<Rightarrow>
          if byte a = 225 \<and> byte b = 154 \<and> byte c = 128
             \<or> byte a = 226 \<and> byte b = 128 \<and> (between 128 138 c \<or> byte c = 168 \<or> byte c = 169 \<or> byte c = 175)
             \<or> byte a = 226 \<and> byte b = 129 \<and> byte c = 159
             \<or> byte a = 227 \<and> byte b = 128 \<and> byte c = 128
          then 3 else 0)"

lemma space_len_le: "space_len s \<le> length s"
  by (cases s) (auto split: list.splits)

function TrimLeftSpace :: "string \<Rightarrow> string" where
  "TrimLeftSpace s = (if space_len s = 0 then s else TrimLeftSpace (drop (space_len s) s))"
  by pat_completeness auto
termination
proof (relation "measure length")
  fix s :: string
  assume "space_len s \<noteq> 0"
  then show "(drop (space_len s) s, s) \<in> measure length" by (cases s) auto
qed simp

declare TrimLeftSpace.simps [simp del]

definition last_space_len :: "string \<Rightarrow> nat" where
  "last_space_len s =
     (if 1 \<le> length s \<and> space_len (drop (length s - 1) s) = 1 then 1
      else if 2 \<le> length s \<and> space_len (drop (length s - 2) s) = 2 then 2
      else if 3 \<le> length s \<and> space_len (drop (length s - 3) s) = 3 then 3
      else 0)"

function TrimRightSpace :: "string \<Rightarrow> string" where
  "TrimRightSpace s =
     (if last_space_len s = 0 then s else TrimRightSpace (take (length s - last_space_len s) s))"
  by pat_completeness auto
termination
  by (relation "measure length") (auto simp: last_space_len_def split: if_splits)

declare TrimRightSpace.simps [simp del]

definition TrimSpace :: "string \<Rightarrow> string" where
  "TrimSpace s = TrimRightSpace (TrimLeftSpace s)"

text \<open>\<open>strings.Fields\<close>: the maximal runs without white space; \<open>cur\<close> is the run being read, reversed.\<close>

function fields_from :: "string \<Rightarrow> string \<Rightarrow> string list" where
  "fields_from cur s =
     (case s of
        [] \<Rightarrow> (if cur = [] then [] else [rev cur])
      | c # r \<Rightarrow>
          if space_len s = 0 then fields_from (c # cur) r
          else (if cur = [] then [] else [rev cur]) @ fields_from [] (drop (space_len s - 1) r))"
  by pat_completeness auto
termination
  by (relation "measure (length \<circ> snd)") auto

declare fields_from.simps [simp del]

definition Fields :: "string \<Rightarrow> string list" where
  "Fields s = fields_from [] s"

lemma space_len_graph [simp]: "graph c \<Longrightarrow> space_len (c # s) = 0"
  by (auto simp: graph_def between_def split: list.splits)

lemma space_len_space [simp]: "space_len (CHR '' '' # s) = 1" "space_len (CHR 0x0A # s) = 1"
  by (simp_all add: between_def)

lemma space_len_2: "byte c < 128 \<Longrightarrow> space_len [b, c] \<noteq> 2"
  by simp

lemma space_len_3: "byte c < 128 \<Longrightarrow> space_len [a, b, c] \<noteq> 3"
  by (auto simp: between_def)

lemma space_len_short: "space_len [b, c] \<noteq> 3" "space_len [c] \<noteq> 3" "space_len [c] \<noteq> 2"
  by simp_all

lemma space_len_1: "graph c \<Longrightarrow> space_len [c] \<noteq> 1"
  by (simp only: space_len_graph)

declare space_len.simps(2) [simp del]

lemma TrimLeftSpace_graph: "s \<noteq> [] \<Longrightarrow> graph (hd s) \<Longrightarrow> TrimLeftSpace s = s"
  by (cases s) (auto simp: TrimLeftSpace.simps)

lemma TrimRightSpace_graph:
  assumes "s \<noteq> []" "graph (last s)"
  shows "TrimRightSpace s = s"
proof -
  obtain i c where s: "s = i @ [c]" using assms(1) by (cases s rule: rev_cases) auto
  with assms have c: "graph c" by simp
  then have c7: "byte c < 128" by (simp add: graph_def between_def)
  have "space_len (drop (length s - 2) s) \<noteq> 2"
    using s space_len_2 [OF c7] space_len_short by (cases i rule: rev_cases) auto
  moreover have "space_len (drop (length s - 3) s) \<noteq> 3"
  proof (cases i rule: rev_cases)
    case (snoc i' b)
    with s space_len_3 [OF c7] space_len_short show ?thesis by (cases i' rule: rev_cases) auto
  qed (use s space_len_short in simp)
  moreover have "space_len (drop (length s - 1) s) \<noteq> 1" using s c by simp
  ultimately have "last_space_len s = 0" by (simp add: last_space_len_def)
  then show ?thesis by (subst TrimRightSpace.simps) simp
qed

lemma TrimSpace_graph: "s \<noteq> [] \<Longrightarrow> graph (hd s) \<Longrightarrow> graph (last s) \<Longrightarrow> TrimSpace s = s"
  by (simp add: TrimSpace_def TrimLeftSpace_graph TrimRightSpace_graph)

lemma TrimSpace_Nil [simp]: "TrimSpace [] = []"
  by (simp add: TrimSpace_def TrimLeftSpace.simps TrimRightSpace.simps last_space_len_def)

lemma TrimSpace_newline: "s \<noteq> [] \<Longrightarrow> graph (hd s) \<Longrightarrow> graph (last s) \<Longrightarrow> TrimSpace (s @ [CHR 0x0A]) = s"
proof -
  assume s: "s \<noteq> []" "graph (hd s)" "graph (last s)"
  have "last_space_len (s @ [CHR 0x0A]) = 1" by (simp add: last_space_len_def)
  then have "TrimRightSpace (s @ [CHR 0x0A]) = TrimRightSpace s"
    by (subst TrimRightSpace.simps) simp
  moreover have "TrimLeftSpace (s @ [CHR 0x0A]) = s @ [CHR 0x0A]"
    using s by (intro TrimLeftSpace_graph) auto
  ultimately show ?thesis using s by (simp add: TrimSpace_def TrimRightSpace_graph)
qed

lemma fields_from_word:
  "list_all graph w \<Longrightarrow> fields_from cur (w @ s) = fields_from (rev w @ cur) s"
proof (induction w arbitrary: cur)
  case (Cons c w)
  then show ?case by (subst fields_from.simps) simp
qed simp

lemma fields_from_Nil [simp]: "fields_from cur [] = (if cur = [] then [] else [rev cur])"
  by (subst fields_from.simps) simp

lemma fields_from_space [simp]:
  "fields_from cur (CHR '' '' # s) = (if cur = [] then [] else [rev cur]) @ fields_from [] s"
  by (subst fields_from.simps) simp

lemma Fields_two:
  assumes "list_all graph a" "a \<noteq> []" "list_all graph b" "b \<noteq> []"
  shows "Fields (a @ '' '' @ b) = [a, b]" "Fields (a @ ''  '' @ b) = [a, b]"
  using assms fields_from_word [of b "[]" "[]"]
  by (simp_all add: Fields_def fields_from_word)

section \<open>Slash-separated paths\<close>

text \<open>
  \<open>filepath\<close> on a system whose separator is the slash. \<open>Clean\<close> works on the elements between slashes:
  empty ones and \<open>.\<close> go, \<open>..\<close> takes the element before it away unless there is none to take.
\<close>

fun clean_elems :: "bool \<Rightarrow> string list \<Rightarrow> string list \<Rightarrow> string list" where
  "clean_elems rooted out [] = rev out"
| "clean_elems rooted out (e # es) =
     (if e = [] \<or> e = ''.'' then clean_elems rooted out es
      else if e = ''..'' then
        (case out of
           [] \<Rightarrow> clean_elems rooted (if rooted then [] else [e]) es
         | o1 # out' \<Rightarrow> clean_elems rooted (if o1 = ''..'' then e # out else out') es)
      else clean_elems rooted (e # out) es)"

fun join_elems :: "string list \<Rightarrow> string" where
  "join_elems [] = []"
| "join_elems [e] = e"
| "join_elems (e # f # es) = e @ ''/'' @ join_elems (f # es)"

definition path_Clean :: "string \<Rightarrow> string" where
  "path_Clean p =
     (let rooted = (p \<noteq> [] \<and> hd p = CHR ''/'');
          q = (if rooted then ''/'' else []) @ join_elems (clean_elems rooted [] (SplitByte (CHR ''/'') p))
      in if q = [] then ''.'' else q)"

definition path_Join :: "string list \<Rightarrow> string" where
  "path_Join es =
     (case filter (\<lambda>e. e \<noteq> []) es of [] \<Rightarrow> [] | fs \<Rightarrow> path_Clean (join_elems fs))"

definition path_Dir :: "string \<Rightarrow> string" where
  "path_Dir p = path_Clean (rev (dropWhile (\<lambda>c. c \<noteq> CHR ''/'') (rev p)))"

definition path_Base :: "string \<Rightarrow> string" where
  "path_Base p =
     (if p = [] then ''.''
      else let q = TrimRightByte (CHR ''/'') p;
               b = rev (takeWhile (\<lambda>c. c \<noteq> CHR ''/'') (rev q))
           in if b = [] then ''/'' else b)"

lemma takeWhile_rev_app: "d \<notin> set b \<Longrightarrow> takeWhile (\<lambda>c. c \<noteq> d) (rev b @ d # xs) = rev b"
  by (subst takeWhile_append2) auto

lemma takeWhile_rev_all: "d \<notin> set b \<Longrightarrow> takeWhile (\<lambda>c. c \<noteq> d) (rev b) = rev b"
  by (auto simp: takeWhile_eq_all_conv)

lemma TrimRightByte_name: "b \<noteq> [] \<Longrightarrow> c \<notin> set b \<Longrightarrow> TrimRightByte c (a @ b) = a @ b"
  by (intro TrimRightByte_id) (metis append_is_Nil_conv last_appendR last_in_set)

lemma path_Base_file: "b \<noteq> [] \<Longrightarrow> CHR ''/'' \<notin> set b \<Longrightarrow> path_Base (a @ CHR ''/'' # b) = b"
  using TrimRightByte_name [of b "CHR ''/''" "a @ [CHR ''/'']"]
  by (simp add: path_Base_def Let_def takeWhile_rev_app)

lemma path_Base_plain: "b \<noteq> [] \<Longrightarrow> CHR ''/'' \<notin> set b \<Longrightarrow> path_Base b = b"
  using TrimRightByte_name [of b "CHR ''/''" "[]"]
  by (simp add: path_Base_def Let_def takeWhile_rev_all)

end
