(* ===== verification/Runtime.thy ===== *)
theory Runtime
  imports Wire Arrow GoStrings
begin

text \<open>
  The process state behind the Go package and the operations on it that are not Go code: the
  registries of \<open>rust/src/lib.rs\<close> (database handles, terminal query errors, page metadata, exported
  batches), its stream and byte handlers, and the transport between the two languages.

  What the repository does not contain is a parameter, the record \<open>env\<close>: the engine (parsing,
  planning and running a query, opening and mutating a database), the failure of an Arrow export or
  import, and the transport errors of sable. The transport itself follows its documented contract: a
  \<open>Call\<close> runs the registered handler and returns its bytes or its error; a stream is a queue of
  exported batches filled by the handler, whose receiver \<open>Close\<close> drops (releasing what is queued);
  \<open>NextCtx\<close> waits for a batch, the end of the handler or the cancellation of the context; admission
  compares the in-flight gauge with the cap, and an open stream holds a slot until \<open>Close\<close>.
\<close>

section \<open>State\<close>

text \<open>
  An exported batch is known by the address of its shell (\<open>FfiBatch\<close>). The shell and the Arrow
  buffers have separate owners: \<open>w_shells\<close> holds the shells that are allocated, \<open>w_owner\<close> says who must
  release the buffers. \<open>w_faults\<close> counts operations that would be undefined behaviour or a double
  release.
\<close>

type_synonym ptr = nat

datatype owner = RustOwned | GoOwned | Released | Leaked

datatype item = Item batch | ItemErr string

datatype task = Start u32 bytes | Sending u64 "item list" | Done

record stream =
  st_task :: task
  st_buf :: "ptr list"
  st_open :: bool

record 'db world =
  w_query_ctr :: u64
  w_dbs :: "u64 \<rightharpoonup> 'db"
  w_db_ctr :: u64
  w_query_errors :: "u64 \<rightharpoonup> bytes"
  w_page_meta :: "u64 \<rightharpoonup> bytes"
  w_live_batches :: int
  w_shells :: "ptr \<rightharpoonup> batch"
  w_owner :: "ptr \<rightharpoonup> owner"
  w_next_ptr :: nat
  w_streams :: "nat \<rightharpoonup> stream"
  w_next_stream :: nat
  w_ctx :: "nat \<Rightarrow> goerr option"
  w_in_flight :: nat
  w_max_in_flight :: nat
  w_rejected :: nat
  w_faults :: nat

datatype open_request = OpenMemory | OpenPath bytes | OpenReadOnlyPath bytes | OpenOptions bytes

text \<open>
  An import either hands the buffers to Go, or fails; \<open>ImportErr e True\<close> is a failing import that has
  already released the buffers, \<open>ImportErr e False\<close> one that has left them with the shell.
\<close>

datatype import_outcome = ImportOk | ImportErr goerr bool

record 'db env =
  ev_open :: "open_request \<Rightarrow> string + 'db"
  ev_sql :: "'db \<Rightarrow> bytes \<Rightarrow> string + item list"
  ev_parse :: "u32 \<Rightarrow> bytes \<Rightarrow> string option"
  ev_typed :: "u32 \<Rightarrow> 'db \<Rightarrow> bytes \<Rightarrow> string + batch list"
  ev_page :: "'db \<Rightarrow> bytes \<Rightarrow> string + (batch list \<times> bytes)"
  ev_ingest :: "u32 \<Rightarrow> 'db \<Rightarrow> bytes \<Rightarrow> (string + ImbhReceipt) \<times> 'db"
  ev_flush :: "'db \<Rightarrow> (string + unit) \<times> 'db"
  ev_count :: "'db \<Rightarrow> bytes \<Rightarrow> string + u64"
  ev_admin :: "u32 \<Rightarrow> 'db \<Rightarrow> bytes \<Rightarrow> (string + bytes) \<times> 'db"
  ev_to_ffi :: "batch \<Rightarrow> string option"
  ev_import :: "batch \<Rightarrow> import_outcome"
  ev_call_err :: "u32 \<Rightarrow> bytes \<Rightarrow> goerr option"
  ev_ready_wins :: bool

section \<open>Op codes used here\<close>

definition opSQL :: u32 where "opSQL = 1"
definition opIngestLogs :: u32 where "opIngestLogs = 2"
definition opIngestTraces :: u32 where "opIngestTraces = 3"
definition opIngestMetrics :: u32 where "opIngestMetrics = 4"
definition opFlush :: u32 where "opFlush = 5"
definition opQueryError :: u32 where "opQueryError = 6"
definition opSnapshot :: u32 where "opSnapshot = 26"
definition opSegmentFiles :: u32 where "opSegmentFiles = 28"
definition opExport :: u32 where "opExport = 30"
definition opLogPage :: u32 where "opLogPage = 31"
definition opLogPageMeta :: u32 where "opLogPageMeta = 32"
definition opLogCount :: u32 where "opLogCount = 33"

named_theorems op_defs "the numeric values of the op codes"

lemmas [op_defs] = opSQL_def opIngestLogs_def opIngestTraces_def opIngestMetrics_def opFlush_def
  opQueryError_def opLogPage_def opLogPageMeta_def opLogCount_def opSnapshot_def opSegmentFiles_def opExport_def

section \<open>The out-of-band slots\<close>

definition store_query_error :: "u64 \<Rightarrow> bytes \<Rightarrow> 'db world \<Rightarrow> 'db world" where
  "store_query_error qid msg w = w\<lparr>w_query_errors := (w_query_errors w)(qid \<mapsto> msg)\<rparr>"

definition store_open_error :: "u64 \<Rightarrow> bytes \<Rightarrow> 'db world \<Rightarrow> u64 \<times> 'db world" where
  "store_open_error err_id msg w = (0, if err_id \<noteq> 0 then store_query_error err_id msg w else w)"

definition query_error_handler :: "bytes \<Rightarrow> 'db world \<Rightarrow> bytes \<times> 'db world" where
  "query_error_handler req w =
     (if length req < 8 then ([], w)
      else let qid = get64 req in
        (case w_query_errors w qid of Some e \<Rightarrow> e | None \<Rightarrow> [],
         w\<lparr>w_query_errors := (w_query_errors w)(qid := None)\<rparr>))"

definition store_page_meta :: "u64 \<Rightarrow> bytes \<Rightarrow> 'db world \<Rightarrow> 'db world" where
  "store_page_meta qid meta w = w\<lparr>w_page_meta := (w_page_meta w)(qid \<mapsto> meta)\<rparr>"

definition log_page_meta_handler :: "bytes \<Rightarrow> 'db world \<Rightarrow> bytes \<times> 'db world" where
  "log_page_meta_handler req w =
     (if length req < 8 then ([], w)
      else let qid = get64 req in
        (case w_page_meta w qid of Some e \<Rightarrow> e | None \<Rightarrow> [],
         w\<lparr>w_page_meta := (w_page_meta w)(qid := None)\<rparr>))"

section \<open>The slots as an interface\<close>

text \<open>
  Both out-of-band channels promise the same: a message is filed under an id, and taking it returns
  the last one filed under that id, once, without disturbing the other ids. The empty message stands
  for none.
\<close>

locale slots =
  fixes put :: "u64 \<Rightarrow> bytes \<Rightarrow> 'w \<Rightarrow> 'w"
    and take :: "u64 \<Rightarrow> 'w \<Rightarrow> bytes \<times> 'w"
  assumes take_put_same: "take i (put i m w) = (m, snd (take i w))"
    and take_put_other: "i \<noteq> j \<Longrightarrow> take j (put i m w) = (fst (take j w), put i m (snd (take j w)))"
    and take_twice: "take i (snd (take i w)) = ([], snd (take i w))"
begin

definition put_all :: "(u64 \<times> bytes) list \<Rightarrow> 'w \<Rightarrow> 'w" where
  "put_all ms w = fold (\<lambda>(i, m). put i m) ms w"

lemma take_put_all:
  "fst (take j (put_all ms w)) =
     (case map_of (rev ms) j of Some m \<Rightarrow> m | None \<Rightarrow> fst (take j w))"
proof (induction ms arbitrary: w)
  case Nil
  then show ?case by (simp add: put_all_def)
next
  case (Cons im ms)
  obtain i m where im: "im = (i, m)" by (cases im)
  have "fst (take j (put_all ms (put i m w))) =
      (case map_of (rev ms) j of Some m \<Rightarrow> m | None \<Rightarrow> fst (take j (put i m w)))"
    by (rule Cons.IH)
  moreover have "fst (take j (put i m w)) = (if i = j then m else fst (take j w))"
    using take_put_same take_put_other by (cases "i = j") auto
  ultimately show ?case
    by (auto simp: put_all_def im map_add_def split: option.splits)
qed

lemma taken_once: "fst (take j (snd (take j (put_all ms w)))) = []"
  by (simp add: take_twice)

end

definition take_query_error :: "u64 \<Rightarrow> 'db world \<Rightarrow> bytes \<times> 'db world" where
  "take_query_error i w = query_error_handler (put64 i) w"

definition take_page_meta :: "u64 \<Rightarrow> 'db world \<Rightarrow> bytes \<times> 'db world" where
  "take_page_meta i w = log_page_meta_handler (put64 i) w"

lemma take_query_error_eq:
  "take_query_error i w =
     (case w_query_errors w i of Some e \<Rightarrow> e | None \<Rightarrow> [],
      w\<lparr>w_query_errors := (w_query_errors w)(i := None)\<rparr>)"
  by (simp add: take_query_error_def query_error_handler_def)

lemma take_page_meta_eq:
  "take_page_meta i w =
     (case w_page_meta w i of Some e \<Rightarrow> e | None \<Rightarrow> [],
      w\<lparr>w_page_meta := (w_page_meta w)(i := None)\<rparr>)"
  by (simp add: take_page_meta_def log_page_meta_handler_def)

interpretation error_slots: slots store_query_error take_query_error
  by unfold_locales
    (simp_all add: take_query_error_eq store_query_error_def fun_upd_twist split: option.splits)

interpretation meta_slots: slots store_page_meta take_page_meta
  by unfold_locales
    (simp_all add: take_page_meta_eq store_page_meta_def fun_upd_twist split: option.splits)

section \<open>Database handles\<close>

definition insert_db :: "'db \<Rightarrow> 'db world \<Rightarrow> u64 \<times> 'db world" where
  "insert_db db w =
     (w_db_ctr w, w\<lparr>w_db_ctr := w_db_ctr w + 1, w_dbs := (w_dbs w)(w_db_ctr w \<mapsto> db)\<rparr>)"

definition imbhgo_close :: "u64 \<Rightarrow> 'db world \<Rightarrow> 'db world" where
  "imbhgo_close i w = w\<lparr>w_dbs := (w_dbs w)(i := None)\<rparr>"

text \<open>
  The text of Rust's \<open>Utf8Error\<close>: how far the bytes are valid, and the length of the offending sequence,
  absent when the input ends inside a sequence that could still become valid.
\<close>

function valid_up_to :: "bytes \<Rightarrow> nat" where
  "valid_up_to s = (if utf8_len s = 0 then 0 else utf8_len s + valid_up_to (drop (utf8_len s) s))"
  by pat_completeness auto
termination
proof (relation "measure length")
  fix s :: bytes
  assume "utf8_len s \<noteq> 0"
  then show "(drop (utf8_len s) s, s) \<in> measure length" by (cases s) auto
qed simp

declare valid_up_to.simps [simp del]

definition second_ok :: "nat \<Rightarrow> char \<Rightarrow> bool" where
  "second_ok n b =
     (if n = 224 then between 160 191 b
      else if n = 237 then between 128 159 b
      else if n = 240 then between 144 191 b
      else if n = 244 then between 128 143 b
      else between 128 191 b)"

definition error_len :: "bytes \<Rightarrow> nat option" where
  "error_len s =
     (case s of
        [] \<Rightarrow> None
      | a # r \<Rightarrow>
          if \<not> between 194 244 a then Some 1
          else (case r of
            [] \<Rightarrow> None
          | b # r' \<Rightarrow>
              if between 194 223 a \<or> \<not> second_ok (byte a) b then Some 1
              else (case r' of
                [] \<Rightarrow> None
              | c # r'' \<Rightarrow>
                  if between 224 239 a \<or> \<not> between 128 191 c then Some 2
                  else (case r'' of [] \<Rightarrow> None | _ \<Rightarrow> Some 3))))"

definition utf8_error :: "bytes \<Rightarrow> string" where
  "utf8_error s =
     (let i = itoa (valid_up_to s)
      in case error_len (drop (valid_up_to s) s) of
           Some n \<Rightarrow> ''invalid utf-8 sequence of '' @ itoa n @ '' bytes from index '' @ i
         | None \<Rightarrow> ''incomplete utf-8 byte sequence from index '' @ i)"

text \<open>
  The four \<open>imbhgo_open*\<close> entry points. The two that take a path check that it is UTF-8 first; the
  parser's message is part of the engine's reply for the options form.
\<close>

definition path_utf8 :: "bytes \<Rightarrow> string option" where
  "path_utf8 p = (if utf8_valid p then None else Some (''path is not valid UTF-8: '' @ utf8_error p))"

fun path_check :: "open_request \<Rightarrow> string option" where
  "path_check (OpenPath p) = path_utf8 p"
| "path_check (OpenReadOnlyPath p) = path_utf8 p"
| "path_check _ = None"

definition imbhgo_open :: "'db env \<Rightarrow> open_request \<Rightarrow> u64 \<Rightarrow> 'db world \<Rightarrow> u64 \<times> 'db world" where
  "imbhgo_open ev rq err_id w =
     (case path_check rq of
        Some e \<Rightarrow> store_open_error err_id e w
      | None \<Rightarrow>
          (case ev_open ev rq of
             Inr db \<Rightarrow> insert_db db w
           | Inl e \<Rightarrow> store_open_error err_id e w))"

section \<open>Exported batches\<close>

definition export_batch :: "'db env \<Rightarrow> batch \<Rightarrow> 'db world \<Rightarrow> string + (ptr \<times> 'db world)" where
  "export_batch ev b w =
     (case ev_to_ffi ev b of
        Some e \<Rightarrow> Inl e
      | None \<Rightarrow>
          let p = w_next_ptr w in
          Inr (p, w\<lparr>w_next_ptr := Suc p, w_shells := (w_shells w)(p \<mapsto> b),
                     w_owner := (w_owner w)(p \<mapsto> RustOwned),
                     w_live_batches := w_live_batches w + 1\<rparr>))"

text \<open>
  \<open>imbhgo_shell_free\<close> forgets the two FFI structs, so buffers that still belong to them are lost;
  \<open>imbhgo_batch_release\<close> drops the structs, which releases them. Either call on a shell that is not
  allocated is a double free.
\<close>

definition shell_free :: "ptr \<Rightarrow> 'db world \<Rightarrow> 'db world" where
  "shell_free p w =
     (if p = 0 then w
      else if w_shells w p = None then w\<lparr>w_faults := Suc (w_faults w)\<rparr>
      else w\<lparr>w_shells := (w_shells w)(p := None), w_live_batches := w_live_batches w - 1,
             w_owner := (if w_owner w p = Some RustOwned then (w_owner w)(p \<mapsto> Leaked)
                         else w_owner w)\<rparr>)"

definition batch_release :: "ptr \<Rightarrow> 'db world \<Rightarrow> 'db world" where
  "batch_release p w =
     (if p = 0 then w
      else if w_shells w p = None then w\<lparr>w_faults := Suc (w_faults w)\<rparr>
      else w\<lparr>w_shells := (w_shells w)(p := None), w_live_batches := w_live_batches w - 1,
             w_owner := (if w_owner w p = Some RustOwned then (w_owner w)(p \<mapsto> Released)
                         else w_owner w)\<rparr>)"

text \<open>
  \<open>cdata.ImportCRecordBatch\<close> is a move: on success the record owns the buffers. \<open>rec_release\<close> is the
  record's \<open>Release\<close>; releasing a record twice is a fault.
\<close>

definition import_batch :: "'db env \<Rightarrow> ptr \<Rightarrow> 'db world \<Rightarrow> batch result \<times> 'db world" where
  "import_batch ev p w =
     (case w_shells w p of
        None \<Rightarrow> (Inl (ErrorString ''invalid shell''), w\<lparr>w_faults := Suc (w_faults w)\<rparr>)
      | Some b \<Rightarrow>
          (case ev_import ev b of
             ImportOk \<Rightarrow> (Inr b, w\<lparr>w_owner := (w_owner w)(p \<mapsto> GoOwned)\<rparr>)
           | ImportErr e consumed \<Rightarrow>
               (Inl e, if consumed then w\<lparr>w_owner := (w_owner w)(p \<mapsto> Released)\<rparr> else w)))"

definition rec_release :: "ptr \<Rightarrow> 'db world \<Rightarrow> 'db world" where
  "rec_release p w =
     (if w_owner w p = Some GoOwned then w\<lparr>w_owner := (w_owner w)(p \<mapsto> Released)\<rparr>
      else w\<lparr>w_faults := Suc (w_faults w)\<rparr>)"

section \<open>The stream handlers\<close>

text \<open>What a handler does up to its first batch: it reports an error, or has items to send.\<close>

definition sql_stream_start :: "'db env \<Rightarrow> bytes \<Rightarrow> 'db world \<Rightarrow> 'db world \<times> task" where
  "sql_stream_start ev req w =
     (case split_stream_req req of
        None \<Rightarrow> (w, Done)
      | Some (db_id, qid, payload) \<Rightarrow>
          if \<not> utf8_valid payload then (store_query_error qid ''invalid UTF-8 in SQL'' w, Done)
          else (case w_dbs w db_id of
                  None \<Rightarrow> (store_query_error qid ''unknown db handle'' w, Done)
                | Some db \<Rightarrow>
                    (case ev_sql ev db payload of
                       Inl e \<Rightarrow> (store_query_error qid e w, Done)
                     | Inr items \<Rightarrow> (w, Sending qid items))))"

definition typed_stream_start :: "'db env \<Rightarrow> u32 \<Rightarrow> bytes \<Rightarrow> 'db world \<Rightarrow> 'db world \<times> task" where
  "typed_stream_start ev op req w =
     (case split_stream_req req of
        None \<Rightarrow> (w, Done)
      | Some (db_id, qid, payload) \<Rightarrow>
          (case ev_parse ev op payload of
             Some e \<Rightarrow> (store_query_error qid e w, Done)
           | None \<Rightarrow>
               (case w_dbs w db_id of
                  None \<Rightarrow> (store_query_error qid ''unknown db handle'' w, Done)
                | Some db \<Rightarrow>
                    (case ev_typed ev op db payload of
                       Inl e \<Rightarrow> (store_query_error qid e w, Done)
                     | Inr bs \<Rightarrow> (w, Sending qid (map Item bs))))))"

definition log_page_start :: "'db env \<Rightarrow> bytes \<Rightarrow> 'db world \<Rightarrow> 'db world \<times> task" where
  "log_page_start ev req w =
     (case split_stream_req req of
        None \<Rightarrow> (w, Done)
      | Some (db_id, qid, payload) \<Rightarrow>
          (case ev_parse ev opLogPage payload of
             Some e \<Rightarrow> (store_query_error qid e w, Done)
           | None \<Rightarrow>
               (case w_dbs w db_id of
                  None \<Rightarrow> (store_query_error qid ''unknown db handle'' w, Done)
                | Some db \<Rightarrow>
                    (case ev_page ev db payload of
                       Inl e \<Rightarrow> (store_query_error qid e w, Done)
                     | Inr (bs, meta) \<Rightarrow> (store_page_meta qid meta w, Sending qid (map Item bs))))))"

definition start_handler :: "'db env \<Rightarrow> u32 \<Rightarrow> bytes \<Rightarrow> 'db world \<Rightarrow> 'db world \<times> task" where
  "start_handler ev op req w =
     (if op = opSQL then sql_stream_start ev req w
      else if op = opLogPage then log_page_start ev req w
      else typed_stream_start ev op req w)"

text \<open>
  One step of a handler: start it, or send its next item. A send to a dropped receiver fails; the
  payload's own drop then releases the batch and the handler returns without storing an error.
\<close>

definition put_stream :: "nat \<Rightarrow> stream \<Rightarrow> 'db world \<Rightarrow> 'db world" where
  "put_stream h st w = w\<lparr>w_streams := (w_streams w)(h \<mapsto> st)\<rparr>"

definition producer_step :: "'db env \<Rightarrow> nat \<Rightarrow> 'db world \<Rightarrow> 'db world" where
  "producer_step ev h w =
     (case w_streams w h of
        None \<Rightarrow> w
      | Some st \<Rightarrow>
          (case st_task st of
             Done \<Rightarrow> w
           | Start op req \<Rightarrow>
               (case start_handler ev op req w of (w', t) \<Rightarrow> put_stream h (st\<lparr>st_task := t\<rparr>) w')
           | Sending qid [] \<Rightarrow> put_stream h (st\<lparr>st_task := Done\<rparr>) w
           | Sending qid (ItemErr e # _) \<Rightarrow>
               put_stream h (st\<lparr>st_task := Done\<rparr>) (store_query_error qid e w)
           | Sending qid (Item b # rest) \<Rightarrow>
               (case export_batch ev b w of
                  Inl e \<Rightarrow> put_stream h (st\<lparr>st_task := Done\<rparr>) (store_query_error qid e w)
                | Inr (p, w') \<Rightarrow>
                    if st_open st
                    then put_stream h (st\<lparr>st_task := Sending qid rest, st_buf := st_buf st @ [p]\<rparr>) w'
                    else put_stream h (st\<lparr>st_task := Done\<rparr>) (batch_release p w'))))"

section \<open>The byte handlers\<close>

definition with_db ::
  "bytes \<Rightarrow> 'db world \<Rightarrow> (u64 \<Rightarrow> bytes \<Rightarrow> 'db \<Rightarrow> (string + bytes) \<times> 'db) \<Rightarrow> (string + bytes) \<times> 'db world" where
  "with_db req w f =
     (case split_req req of
        None \<Rightarrow> (Inl ''imbhgo: short request'', w)
      | Some (i, body) \<Rightarrow>
          (case w_dbs w i of
             None \<Rightarrow> (Inl ''imbhgo: unknown db handle'', w)
           | Some db \<Rightarrow> (case f i body db of (r, db') \<Rightarrow> (r, w\<lparr>w_dbs := (w_dbs w)(i \<mapsto> db')\<rparr>))))"

definition ingest_handler :: "'db env \<Rightarrow> u32 \<Rightarrow> bytes \<Rightarrow> 'db world \<Rightarrow> (string + bytes) \<times> 'db world" where
  "ingest_handler ev op req w =
     with_db req w (\<lambda>_ body db.
       case ev_ingest ev op db body of (r, db') \<Rightarrow> (map_sum id encode_receipt r, db'))"

definition flush_handler :: "'db env \<Rightarrow> bytes \<Rightarrow> 'db world \<Rightarrow> (string + bytes) \<times> 'db world" where
  "flush_handler ev req w =
     with_db req w (\<lambda>_ _ db. case ev_flush ev db of (r, db') \<Rightarrow> (map_sum id (\<lambda>_. []) r, db'))"

definition log_count_handler :: "'db env \<Rightarrow> bytes \<Rightarrow> 'db world \<Rightarrow> (string + bytes) \<times> 'db world" where
  "log_count_handler ev req w =
     (case split_req req of
        None \<Rightarrow> (Inl ''imbhgo: short request'', w)
      | Some (i, body) \<Rightarrow>
          (case ev_parse ev opLogCount body of
             Some e \<Rightarrow> (Inl e, w)
           | None \<Rightarrow> with_db req w (\<lambda>_ body db. (map_sum id put64 (ev_count ev db body), db))))"

text \<open>The ops with arguments read and check them before they look the database up.\<close>

definition reads_args :: "u32 \<Rightarrow> bool" where
  "reads_args op \<longleftrightarrow> op = opSnapshot \<or> op = opSegmentFiles \<or> op = opExport"

definition admin_handler :: "'db env \<Rightarrow> u32 \<Rightarrow> bytes \<Rightarrow> 'db world \<Rightarrow> (string + bytes) \<times> 'db world" where
  "admin_handler ev op req w =
     (case split_req req of
        None \<Rightarrow> (Inl ''imbhgo: short request'', w)
      | Some (i, body) \<Rightarrow>
          (case (if reads_args op then ev_parse ev op body else None) of
             Some e \<Rightarrow> (Inl e, w)
           | None \<Rightarrow> with_db req w (\<lambda>_ body db. ev_admin ev op db body)))"

definition byte_handler :: "'db env \<Rightarrow> u32 \<Rightarrow> bytes \<Rightarrow> 'db world \<Rightarrow> (string + bytes) \<times> 'db world" where
  "byte_handler ev op req w =
     (if op = opQueryError then (case query_error_handler req w of (b, w') \<Rightarrow> (Inr b, w'))
      else if op = opLogPageMeta then (case log_page_meta_handler req w of (b, w') \<Rightarrow> (Inr b, w'))
      else if op = opIngestLogs \<or> op = opIngestTraces \<or> op = opIngestMetrics
        then ingest_handler ev op req w
      else if op = opFlush then flush_handler ev req w
      else if op = opLogCount then log_count_handler ev req w
      else admin_handler ev op req w)"

section \<open>The transport\<close>

definition sable_call :: "'db env \<Rightarrow> u32 \<Rightarrow> bytes \<Rightarrow> 'db world \<Rightarrow> bytes result \<times> 'db world" where
  "sable_call ev op req w =
     (case ev_call_err ev op req of
        Some e \<Rightarrow> (Inl e, w)
      | None \<Rightarrow> (case byte_handler ev op req w of (r, w') \<Rightarrow> (map_sum ErrorString id r, w')))"

definition sable_call_ctx ::
  "'db env \<Rightarrow> nat \<Rightarrow> u32 \<Rightarrow> bytes \<Rightarrow> 'db world \<Rightarrow> bytes result \<times> 'db world" where
  "sable_call_ctx ev c op req w =
     (case w_ctx w c of Some e \<Rightarrow> (Inl e, w) | None \<Rightarrow> sable_call ev op req w)"

definition admits :: "'db world \<Rightarrow> bool" where
  "admits w \<longleftrightarrow> w_max_in_flight w = 0 \<or> w_in_flight w < w_max_in_flight w"

definition reject :: "'db world \<Rightarrow> 'db world" where
  "reject w = w\<lparr>w_rejected := Suc (w_rejected w)\<rparr>"

definition sable_try_call :: "'db env \<Rightarrow> u32 \<Rightarrow> bytes \<Rightarrow> 'db world \<Rightarrow> bytes result \<times> 'db world" where
  "sable_try_call ev op req w =
     (if admits w then sable_call ev op req w else (Inl ErrBackpressure, reject w))"

definition sable_open_stream :: "u32 \<Rightarrow> bytes \<Rightarrow> 'db world \<Rightarrow> nat result \<times> 'db world" where
  "sable_open_stream op req w =
     (if admits w
      then (Inr (w_next_stream w),
            w\<lparr>w_next_stream := Suc (w_next_stream w), w_in_flight := Suc (w_in_flight w),
              w_streams := (w_streams w)(w_next_stream w \<mapsto>
                \<lparr>st_task = Start op req, st_buf = [], st_open = True\<rparr>)\<rparr>)
      else (Inl ErrBackpressure, reject w))"

definition sable_close :: "nat \<Rightarrow> 'db world \<Rightarrow> 'db world" where
  "sable_close h w =
     (case w_streams w h of
        None \<Rightarrow> w
      | Some st \<Rightarrow>
          if st_open st
          then put_stream h (st\<lparr>st_buf := [], st_open := False\<rparr>)
                 ((fold batch_release (st_buf st) w)\<lparr>w_in_flight := w_in_flight w - 1\<rparr>)
          else w)"

text \<open>
  \<open>NextCtx\<close>. The wait is over when the context is done, a batch is queued, or the handler has finished;
  until then the handler runs. Whether a queued batch or a context that is already done wins is left
  open (\<open>ev_ready_wins\<close>).
\<close>

definition ctx_err :: "nat option \<Rightarrow> 'db world \<Rightarrow> goerr option" where
  "ctx_err c w = (case c of None \<Rightarrow> None | Some i \<Rightarrow> w_ctx w i)"

fun task_phase :: "task \<Rightarrow> nat" where
  "task_phase (Start _ _) = 2"
| "task_phase (Sending _ _) = 1"
| "task_phase Done = 0"

fun task_items :: "task \<Rightarrow> item list" where
  "task_items (Sending _ is) = is"
| "task_items _ = []"

definition phase_of :: "nat \<Rightarrow> 'db world \<Rightarrow> nat" where
  "phase_of h w = (case w_streams w h of None \<Rightarrow> 0 | Some st \<Rightarrow> task_phase (st_task st))"

definition items_of :: "nat \<Rightarrow> 'db world \<Rightarrow> nat" where
  "items_of h w = (case w_streams w h of None \<Rightarrow> 0 | Some st \<Rightarrow> length (task_items (st_task st)))"

lemma start_handler_phase:
  "start_handler ev op req w = (w', t) \<Longrightarrow> task_phase t < 2"
  by (auto simp: start_handler_def sql_stream_start_def typed_stream_start_def log_page_start_def
      split: if_splits option.splits sum.splits prod.splits)

lemma producer_step_decreases:
  assumes "w_streams w h = Some st" "st_task st \<noteq> Done"
  shows "phase_of h (producer_step ev h w) < phase_of h w \<or>
    phase_of h (producer_step ev h w) = phase_of h w \<and>
    items_of h (producer_step ev h w) < items_of h w"
proof (cases "st_task st")
  case (Start op req)
  obtain w' t where s: "start_handler ev op req w = (w', t)" by (cases "start_handler ev op req w")
  from start_handler_phase [OF this] assms Start s show ?thesis
    by (simp add: producer_step_def put_stream_def phase_of_def)
next
  case (Sending qid "is")
  with assms show ?thesis
    by (auto simp: producer_step_def put_stream_def phase_of_def items_of_def
        split: list.splits item.splits sum.splits prod.splits)
qed (use assms in simp)

function sable_next :: "'db env \<Rightarrow> nat \<Rightarrow> nat option \<Rightarrow> 'db world \<Rightarrow> ptr option \<times> 'db world" where
  "sable_next ev h c w =
     (case w_streams w h of
        None \<Rightarrow> (None, w)
      | Some st \<Rightarrow>
          if \<not> st_open st then (None, w)
          else if ctx_err c w \<noteq> None \<and> \<not> (ev_ready_wins ev \<and> st_buf st \<noteq> []) then (None, w)
          else (case st_buf st of
                  p # ps \<Rightarrow> (Some p, put_stream h (st\<lparr>st_buf := ps\<rparr>) w)
                | [] \<Rightarrow> if st_task st = Done then (None, w)
                        else sable_next ev h c (producer_step ev h w)))"
  by pat_completeness auto
termination
  by (relation "measures [\<lambda>(ev, h, c, w). phase_of h w, \<lambda>(ev, h, c, w). items_of h w]")
    (use producer_step_decreases in auto)

declare sable_next.simps [simp del]

end
