(* ===== verification/Rows.thy ===== *)
theory Rows
  imports Runtime
begin

text \<open>
  \<open>db.go\<close>: opening and closing a database, and the streaming cursor \<open>Rows\<close>. Every function takes the
  process state and returns it updated; a Go \<open>error\<close> that may be \<open>nil\<close> is a \<^typ>\<open>goerr option\<close>. The
  environment between two calls is a list of events: a handler advances, a context ends.
\<close>

section \<open>Database handles\<close>

record DB =
  db_id :: u64

text \<open>\<open>queryCtr.Add(1)\<close> returns the new value.\<close>

definition queryCtr_Add :: "'db world \<Rightarrow> u64 \<times> 'db world" where
  "queryCtr_Add w = (w_query_ctr w + 1, w\<lparr>w_query_ctr := w_query_ctr w + 1\<rparr>)"

definition takeStoredError :: "'db env \<Rightarrow> u64 \<Rightarrow> 'db world \<Rightarrow> string result \<times> 'db world" where
  "takeStoredError ev i w =
     (case sable_call ev opQueryError (put64 i) w of
        (Inl e, w') \<Rightarrow> (Inl e, w')
      | (Inr resp, w') \<Rightarrow> (Inr resp, w'))"

definition openFailure :: "'db env \<Rightarrow> string \<Rightarrow> u64 \<Rightarrow> 'db world \<Rightarrow> goerr \<times> 'db world" where
  "openFailure ev what errID w =
     (case takeStoredError ev errID w of
        (Inr cause, w') \<Rightarrow>
          (if cause \<noteq> [] then ErrorString (''imbhgo: '' @ what @ '': '' @ cause)
           else ErrorString (''imbhgo: '' @ what @ '' failed''), w')
      | (Inl _, w') \<Rightarrow> (ErrorString (''imbhgo: '' @ what @ '' failed''), w'))"

text \<open>The body the open functions share: take an error id, call the entry point, turn 0 into an error.\<close>

definition open_handle ::
  "'db env \<Rightarrow> open_request \<Rightarrow> string \<Rightarrow> 'db world \<Rightarrow> DB result \<times> 'db world" where
  "open_handle ev rq what w =
     (case queryCtr_Add w of (errID, w1) \<Rightarrow>
      (case imbhgo_open ev rq errID w1 of (i, w2) \<Rightarrow>
         if i = 0 then (case openFailure ev what errID w2 of (e, w3) \<Rightarrow> (Inl e, w3))
         else (Inr \<lparr>db_id = i\<rparr>, w2)))"

definition OpenInMemory :: "'db env \<Rightarrow> 'db world \<Rightarrow> DB result \<times> 'db world" where
  "OpenInMemory ev = open_handle ev OpenMemory ''open in-memory database''"

definition Open :: "'db env \<Rightarrow> string \<Rightarrow> 'db world \<Rightarrow> DB result \<times> 'db world" where
  "Open ev path = open_handle ev (OpenPath path) (''open database at '' @ path)"

definition OpenReadOnly :: "'db env \<Rightarrow> string \<Rightarrow> 'db world \<Rightarrow> DB result \<times> 'db world" where
  "OpenReadOnly ev path =
     open_handle ev (OpenReadOnlyPath path) (''open read-only database at '' @ path)"

definition DB_Close :: "DB \<Rightarrow> 'db world \<Rightarrow> 'db world" where
  "DB_Close db w = imbhgo_close (db_id db) w"

section \<open>The cursor\<close>

record rows =
  r_s :: nat
  r_db :: DB
  r_queryID :: u64
  r_ctx :: "nat option"
  r_ended :: bool
  r_err :: "goerr option"

definition openStream ::
  "DB \<Rightarrow> nat option \<Rightarrow> u32 \<Rightarrow> bytes \<Rightarrow> 'db world \<Rightarrow> rows result \<times> 'db world" where
  "openStream db ctx op payload w =
     (case queryCtr_Add w of (qid, w1) \<Rightarrow>
      (case sable_open_stream op (stream_frame (db_id db) qid payload) w1 of
         (Inl e, w2) \<Rightarrow> (Inl e, w2)
       | (Inr s, w2) \<Rightarrow>
           (Inr \<lparr>r_s = s, r_db = db, r_queryID = qid, r_ctx = ctx, r_ended = False, r_err = None\<rparr>, w2)))"

definition Query :: "DB \<Rightarrow> nat option \<Rightarrow> string \<Rightarrow> 'db world \<Rightarrow> rows result \<times> 'db world" where
  "Query db ctx sql = openStream db ctx opSQL sql"

definition fetchQueryError :: "'db env \<Rightarrow> rows \<Rightarrow> 'db world \<Rightarrow> goerr option \<times> 'db world" where
  "fetchQueryError ev r w =
     (case takeStoredError ev (r_queryID r) w of
        (Inl e, w') \<Rightarrow> (Some e, w')
      | (Inr msg, w') \<Rightarrow>
          (if msg \<noteq> [] then Some (ErrorString (''imbhgo: query failed: '' @ msg)) else None, w'))"

definition Rows_Close :: "'db env \<Rightarrow> rows \<Rightarrow> 'db world \<Rightarrow> rows \<times> 'db world" where
  "Rows_Close ev r w =
     (let w1 = sable_close (r_s r) w in
      if \<not> r_ended r
      then (r\<lparr>r_ended := True\<rparr>, snd (takeStoredError ev (r_queryID r) w1))
      else (r, w1))"

definition finish ::
  "'db env \<Rightarrow> goerr option \<Rightarrow> rows \<Rightarrow> 'db world \<Rightarrow> goerr option \<times> rows \<times> 'db world" where
  "finish ev importErr r w =
     (case fetchQueryError ev r w of (stored, w1) \<Rightarrow>
      (let e = (case importErr of
                  Some ie \<Rightarrow> Some ie
                | None \<Rightarrow> (case ctx_err (r_ctx r) w1 of Some ce \<Rightarrow> Some ce | None \<Rightarrow> stored));
           (r', w2) = Rows_Close ev (r\<lparr>r_err := e, r_ended := True\<rparr>) w1
       in (r_err r', r', w2)))"

text \<open>
  \<open>Next\<close> returns the record (its address and contents) or none, and the error. The shell is freed
  whether or not the import succeeded.
\<close>

definition Rows_Next ::
  "'db env \<Rightarrow> rows \<Rightarrow> 'db world \<Rightarrow> ((ptr \<times> batch) option \<times> goerr option) \<times> rows \<times> 'db world" where
  "Rows_Next ev r w =
     (if r_ended r then ((None, r_err r), r, w)
      else case sable_next ev (r_s r) (r_ctx r) w of
             (None, w1) \<Rightarrow> (case finish ev None r w1 of (e, r', w2) \<Rightarrow> ((None, e), r', w2))
           | (Some p, w1) \<Rightarrow>
               (case import_batch ev p w1 of (rec, w2) \<Rightarrow>
                (let w3 = shell_free p w2 in
                 case rec of
                   Inl e \<Rightarrow> (case finish ev (Some e) r w3 of (e', r', w4) \<Rightarrow> ((None, e'), r', w4))
                 | Inr b \<Rightarrow> ((Some (p, b), None), r, w3))))"

definition Rows_Err :: "rows \<Rightarrow> goerr option" where
  "Rows_Err r = r_err r"

section \<open>The environment between calls\<close>

datatype event = Produce nat | Cancel nat goerr

text \<open>The first cancellation of a context is the one that counts.\<close>

fun env_step :: "'db env \<Rightarrow> event \<Rightarrow> 'db world \<Rightarrow> 'db world" where
  "env_step ev (Produce h) w = producer_step ev h w"
| "env_step ev (Cancel c e) w =
     (if w_ctx w c = None then w\<lparr>w_ctx := (w_ctx w)(c := Some e)\<rparr> else w)"

definition env_run :: "'db env \<Rightarrow> event list \<Rightarrow> 'db world \<Rightarrow> 'db world" where
  "env_run ev es w = fold (env_step ev) es w"

section \<open>A small engine for the examples\<close>

text \<open>
  The witnesses run the model against this environment: one database, SQL texts that succeed with two
  batches, fail to plan, or fail after the first batch.
\<close>

definition demo_batch :: "string list \<Rightarrow> batch" where
  "demo_batch xs = \<lparr>b_fields = [(''name'', AString (map (Pair True) xs))], b_rows = length xs\<rparr>"

definition demo_env :: "nat env" where
  "demo_env = \<lparr>
     ev_open = (\<lambda>rq. case rq of OpenPath p \<Rightarrow> if p = ''/nope'' then Inl ''no such directory'' else Inr 0
                | _ \<Rightarrow> Inr 0),
     ev_sql = (\<lambda>db q. if q = ''bad'' then Inl ''parse error''
                else if q = ''mid'' then Inr [Item (demo_batch [''a'']), ItemErr ''disk'']
                else Inr [Item (demo_batch [''a'', ''b'']), Item (demo_batch [''c''])]),
     ev_parse = (\<lambda>op q. None),
     ev_typed = (\<lambda>op db q. Inr [demo_batch [''a'', ''b''], demo_batch [''c'']]),
     ev_page = (\<lambda>db q. Inr ([demo_batch [''a'']], ''{}'')),
     ev_ingest = (\<lambda>op db b. (Inr \<lparr>ir_accepted = of_nat (length b), ir_rejected = 0, ir_lsn = Some 7,
                  ir_durable = True, ir_queued = False\<rparr>, Suc db)),
     ev_flush = (\<lambda>db. (Inr (), db)),
     ev_count = (\<lambda>db b. Inr (of_nat db)),
     ev_admin = (\<lambda>op db b. (Inr ''{}'', db)),
     ev_to_ffi = (\<lambda>b. None),
     ev_import = (\<lambda>b. ImportOk),
     ev_call_err = (\<lambda>op req. None),
     ev_ready_wins = False\<rparr>"

definition init_world :: "'db world" where
  "init_world = \<lparr>w_query_ctr = 0, w_dbs = Map.empty, w_db_ctr = 1, w_query_errors = Map.empty,
     w_page_meta = Map.empty, w_live_batches = 0, w_shells = Map.empty, w_owner = Map.empty,
     w_next_ptr = 1, w_streams = Map.empty, w_next_stream = 0, w_ctx = (\<lambda>_. None),
     w_in_flight = 0, w_max_in_flight = 0, w_rejected = 0, w_faults = 0\<rparr>"

definition demo_db_world :: "nat world" where
  "demo_db_world = snd (OpenInMemory demo_env init_world)"

definition demo_cursor :: "string \<Rightarrow> rows \<times> nat world" where
  "demo_cursor q =
     (case Query \<lparr>db_id = 1\<rparr> (Some 0) q demo_db_world of
        (Inr r, w) \<Rightarrow> (r, w)
      | (Inl e, w) \<Rightarrow> (\<lparr>r_s = 0, r_db = \<lparr>db_id = 0\<rparr>, r_queryID = 0, r_ctx = None, r_ended = True,
          r_err = None\<rparr>, w))"

end
