(* ===== verification/Ownership.thy ===== *)
theory Ownership
  imports Rows
begin

text \<open>
  The ownership discipline of exported batches. \<open>winv\<close> is the invariant of the process state between
  two operations: every allocated shell sits in the queue of exactly one open stream and its buffers
  are still the engine's, the live counter is the number of allocated shells, the in-flight gauge is
  the number of open streams, and nothing was ever freed twice. Each operation of the transport and of
  the cursor preserves it.
\<close>

section \<open>The invariant\<close>

definition buf_of :: "nat \<Rightarrow> 'db world \<Rightarrow> ptr list" where
  "buf_of h w = (case w_streams w h of None \<Rightarrow> [] | Some st \<Rightarrow> st_buf st)"

definition opened :: "nat \<Rightarrow> 'db world \<Rightarrow> bool" where
  "opened h w \<longleftrightarrow> (\<exists>st. w_streams w h = Some st \<and> st_open st)"

definition shells_inv :: "'db world \<Rightarrow> bool" where
  "shells_inv w \<longleftrightarrow> 0 < w_next_ptr w \<and> finite (dom (w_shells w)) \<and>
     w_live_batches w = int (card (dom (w_shells w))) \<and>
     (\<forall>p b. w_shells w p = Some b \<longrightarrow> 0 < p \<and> p < w_next_ptr w \<and> w_owner w p = Some RustOwned) \<and>
     (\<forall>p. w_owner w p = Some RustOwned \<longrightarrow> p \<in> dom (w_shells w)) \<and>
     (\<forall>p. w_owner w p = None \<longleftrightarrow> p = 0 \<or> w_next_ptr w \<le> p)"

definition streams_inv :: "'db world \<Rightarrow> bool" where
  "streams_inv w \<longleftrightarrow> (\<forall>h st. w_streams w h = Some st \<longrightarrow> h < w_next_stream w) \<and>
     (\<forall>h. distinct (buf_of h w)) \<and> (\<forall>h. \<not> opened h w \<longrightarrow> buf_of h w = []) \<and>
     (\<forall>h h'. h \<noteq> h' \<longrightarrow> set (buf_of h w) \<inter> set (buf_of h' w) = {}) \<and>
     w_in_flight w = card {h. opened h w}"

definition queued :: "'db world \<Rightarrow> ptr set" where
  "queued w = (\<Union>h. set (buf_of h w))"

definition winv :: "'db world \<Rightarrow> bool" where
  "winv w \<longleftrightarrow> shells_inv w \<and> streams_inv w \<and> dom (w_shells w) = queued w \<and> w_faults w = 0"

lemma opened_finite: "streams_inv w \<Longrightarrow> finite {h. opened h w}"
  by (rule finite_subset [of _ "{..<w_next_stream w}"]) (auto simp: streams_inv_def opened_def)

lemma queued_home:
  assumes "streams_inv w" "p \<in> set (buf_of h w)" "p \<in> set (buf_of h' w)"
  shows "h = h'"
  using assms by (metis IntI emptyE streams_inv_def)

text \<open>The invariant only reads these components.\<close>

definition same_core :: "'db world \<Rightarrow> 'db world \<Rightarrow> bool" where
  "same_core w w' \<longleftrightarrow> w_live_batches w' = w_live_batches w \<and> w_shells w' = w_shells w \<and>
     w_owner w' = w_owner w \<and> w_next_ptr w' = w_next_ptr w \<and> w_streams w' = w_streams w \<and>
     w_next_stream w' = w_next_stream w \<and> w_in_flight w' = w_in_flight w \<and> w_faults w' = w_faults w"

lemma same_core_winv: "same_core w w' \<Longrightarrow> winv w' = winv w"
  by (simp add: same_core_def winv_def shells_inv_def streams_inv_def queued_def buf_of_def opened_def)

lemma same_core_trans: "same_core w w' \<Longrightarrow> same_core w' w'' \<Longrightarrow> same_core w w''"
  by (simp add: same_core_def)

lemma same_core_refl [simp]: "same_core w w"
  by (simp add: same_core_def)

section \<open>What the handlers may change\<close>

text \<open>Starting a handler touches only the two slot maps, and its outcome depends only on the databases.\<close>

lemma start_handler_frame:
  "start_handler ev op req w = (w', t) \<Longrightarrow>
     w' = w\<lparr>w_query_errors := w_query_errors w', w_page_meta := w_page_meta w'\<rparr>"
  by (auto simp: start_handler_def sql_stream_start_def typed_stream_start_def log_page_start_def
      store_query_error_def store_page_meta_def
      split: if_splits option.splits sum.splits prod.splits)

lemma same_core_slots [simp]: "same_core w (w\<lparr>w_query_errors := qe, w_page_meta := pm\<rparr>)"
  by (simp add: same_core_def)

lemma same_core_store [simp]: "same_core w (store_query_error i m w)"
  by (simp add: same_core_def store_query_error_def)

lemma same_core_byte_handler: "byte_handler ev op req w = (r, w') \<Longrightarrow> same_core w w'"
  by (auto simp: byte_handler_def query_error_handler_def log_page_meta_handler_def
      ingest_handler_def flush_handler_def log_count_handler_def admin_handler_def with_db_def
      same_core_def Let_def split: if_splits option.splits prod.splits)

lemma same_core_call: "sable_call ev op req w = (r, w') \<Longrightarrow> same_core w w'"
  by (auto simp: sable_call_def dest: same_core_byte_handler split: option.splits prod.splits)

lemma same_core_take: "takeStoredError ev i w = (r, w') \<Longrightarrow> same_core w w'"
  by (auto simp: takeStoredError_def dest: same_core_call split: prod.splits sum.splits)

lemma same_core_take_snd: "same_core w (snd (takeStoredError ev i w))"
  by (cases "takeStoredError ev i w") (simp add: same_core_take)

lemma same_core_open: "open_handle ev rq what w = (r, w') \<Longrightarrow> same_core w w'"
proof -
  assume "open_handle ev rq what w = (r, w')"
  moreover obtain i w2 where i: "imbhgo_open ev rq (w_query_ctr w + 1)
      (w\<lparr>w_query_ctr := w_query_ctr w + 1\<rparr>) = (i, w2)" by fastforce
  then have "same_core w w2"
    by (auto simp: imbhgo_open_def store_open_error_def insert_db_def store_query_error_def
        same_core_def Let_def split: option.splits sum.splits)
  ultimately show ?thesis using i
    by (auto simp: open_handle_def queryCtr_Add_def openFailure_def
        dest!: same_core_take intro: same_core_trans split: if_splits prod.splits sum.splits)
qed

section \<open>Streams\<close>

lemma buf_of_put [simp]:
  "buf_of h' (put_stream h st w) = (if h' = h then st_buf st else buf_of h' w)"
  by (simp add: buf_of_def put_stream_def)

lemma opened_put [simp]:
  "opened h' (put_stream h st w) = (if h' = h then st_open st else opened h' w)"
  by (simp add: opened_def put_stream_def)

lemma put_stream_fields [simp]:
  "w_live_batches (put_stream h st w) = w_live_batches w"
  "w_shells (put_stream h st w) = w_shells w"
  "w_owner (put_stream h st w) = w_owner w"
  "w_next_ptr (put_stream h st w) = w_next_ptr w"
  "w_faults (put_stream h st w) = w_faults w"
  "w_in_flight (put_stream h st w) = w_in_flight w"
  "w_next_stream (put_stream h st w) = w_next_stream w"
  "w_streams (put_stream h st w) = (w_streams w)(h \<mapsto> st)"
  "w_query_errors (put_stream h st w) = w_query_errors w"
  "w_page_meta (put_stream h st w) = w_page_meta w"
  "w_dbs (put_stream h st w) = w_dbs w"
  "w_ctx (put_stream h st w) = w_ctx w"
  "w_query_ctr (put_stream h st w) = w_query_ctr w"
  "w_max_in_flight (put_stream h st w) = w_max_in_flight w"
  by (simp_all add: put_stream_def)

lemma shells_inv_put [simp]: "shells_inv (put_stream h st w) = shells_inv w"
  by (simp add: shells_inv_def)

lemma queued_put: "queued (put_stream h st w) = set (st_buf st) \<union> (\<Union>h'\<in>-{h}. set (buf_of h' w))"
  by (auto simp: queued_def split: if_splits)

lemma queued_split: "queued w = set (buf_of h w) \<union> (\<Union>h'\<in>-{h}. set (buf_of h' w))"
  by (auto simp: queued_def)

lemma buf_of_Some [simp]: "w_streams w h = Some st \<Longrightarrow> buf_of h w = st_buf st"
  by (simp add: buf_of_def)

lemma opened_Some [simp]: "w_streams w h = Some st \<Longrightarrow> opened h w = st_open st"
  by (simp add: opened_def)

lemma streams_inv_put:
  assumes "streams_inv w" "w_streams w h = Some st0" "st_open st = st_open st0"
    and "distinct (st_buf st)" "\<not> st_open st \<Longrightarrow> st_buf st = []"
    and "set (st_buf st) \<inter> (\<Union>h'\<in>-{h}. set (buf_of h' w)) = {}"
  shows "streams_inv (put_stream h st w)"
proof -
  have "{h'. if h' = h then st_open st else opened h' w} = {h'. opened h' w}"
    using assms(2,3) by auto
  then show ?thesis
    using assms unfolding streams_inv_def by (fastforce split: if_splits)
qed

lemma streams_inv_disjoint:
  assumes "streams_inv w"
  shows "set (buf_of h w) \<inter> (\<Union>h'\<in>-{h}. set (buf_of h' w)) = {}"
  using queued_home [OF assms] by blast

lemma streams_inv_buf:
  assumes "streams_inv w"
  shows "distinct (buf_of h w)" "\<not> opened h w \<Longrightarrow> buf_of h w = []"
  using assms by (simp_all add: streams_inv_def)

lemma winv_task:
  assumes "winv w" "w_streams w h = Some st"
  shows "winv (put_stream h (st\<lparr>st_task := t\<rparr>) w)"
proof -
  have "streams_inv (put_stream h (st\<lparr>st_task := t\<rparr>) w)"
    by (rule streams_inv_put [of _ _ st])
      (use assms streams_inv_disjoint [of w h] streams_inv_buf [of w h] in \<open>simp_all add: winv_def\<close>)
  then show ?thesis using assms by (simp add: winv_def queued_put queued_split [of w h])
qed

section \<open>Shells\<close>

lemma shells_inv_shell: "shells_inv w \<Longrightarrow> w_shells w p = Some b \<Longrightarrow>
    0 < p \<and> p < w_next_ptr w \<and> w_owner w p = Some RustOwned"
  by (simp add: shells_inv_def)

lemma export_batch_cases:
  assumes "export_batch ev b w = Inr (p, w')"
  shows "p = w_next_ptr w" and "ev_to_ffi ev b = None"
    and "w' = w\<lparr>w_next_ptr := Suc p, w_shells := (w_shells w)(p \<mapsto> b),
      w_owner := (w_owner w)(p \<mapsto> RustOwned), w_live_batches := w_live_batches w + 1\<rparr>"
  using assms by (auto simp: export_batch_def Let_def split: option.splits)

lemma shells_inv_fresh: "shells_inv w \<Longrightarrow> w_shells w (w_next_ptr w) = None"
  by (metis less_irrefl not_Some_eq shells_inv_shell)

lemma shells_inv_export:
  assumes "shells_inv w" "export_batch ev b w = Inr (p, w')"
  shows "shells_inv w'" "dom (w_shells w') = insert p (dom (w_shells w))" "p \<notin> dom (w_shells w)"
proof -
  note e = export_batch_cases [OF assms(2)]
  show "p \<notin> dom (w_shells w)" using shells_inv_fresh [OF assms(1)] e(1) by auto
  then show "shells_inv w'" using assms(1)
    by (auto simp: e(3) e(1) shells_inv_def)
  show "dom (w_shells w') = insert p (dom (w_shells w))" by (simp add: e(3))
qed

lemma batch_release_shells:
  assumes "shells_inv w" "w_shells w p = Some b"
  shows "shells_inv (batch_release p w)" "dom (w_shells (batch_release p w)) = dom (w_shells w) - {p}"
    "w_streams (batch_release p w) = w_streams w" "w_next_stream (batch_release p w) = w_next_stream w"
    "w_in_flight (batch_release p w) = w_in_flight w" "w_faults (batch_release p w) = w_faults w"
    "w_next_ptr (batch_release p w) = w_next_ptr w"
    "w_owner (batch_release p w) = (w_owner w)(p \<mapsto> Released)"
    "w_shells (batch_release p w) = (w_shells w)(p := None)"
proof -
  note s = shells_inv_shell [OF assms]
  have card: "int (card (dom (w_shells w) - {p})) = int (card (dom (w_shells w))) - 1"
    using assms by (simp add: shells_inv_def card_Diff_singleton domI int_ops(6) card_gt_0_iff)
      (metis One_nat_def Suc_leI card_gt_0_iff domI empty_iff of_nat_1 of_nat_diff)
  have eq: "batch_release p w = w\<lparr>w_shells := (w_shells w)(p := None),
      w_live_batches := w_live_batches w - 1, w_owner := (w_owner w)(p \<mapsto> Released)\<rparr>"
    using s assms(2) by (simp add: batch_release_def)
  show "shells_inv (batch_release p w)"
    using assms(1) s card by (auto simp: eq shells_inv_def)
qed (use shells_inv_shell [OF assms] assms(2) in \<open>simp_all add: batch_release_def\<close>)

section \<open>The producer\<close>

lemma same_core_start: "start_handler ev op req w = (w', t) \<Longrightarrow> same_core w w'"
  by (drule start_handler_frame) (metis same_core_slots)

lemma winv_store [simp]: "winv (store_query_error i m w) = winv w"
  by (rule same_core_winv) simp

lemma store_streams [simp]: "w_streams (store_query_error i m w) = w_streams w"
  by (simp add: store_query_error_def)

lemma streams_inv_cong:
  "w_streams w' = w_streams w \<Longrightarrow> w_next_stream w' = w_next_stream w \<Longrightarrow>
     w_in_flight w' = w_in_flight w \<Longrightarrow> streams_inv w' = streams_inv w"
  by (simp add: streams_inv_def buf_of_def opened_def)

lemma queued_cong: "w_streams w' = w_streams w \<Longrightarrow> queued w' = queued w"
  by (simp add: queued_def buf_of_def)

lemma winv_enqueue:
  assumes inv: "winv w" and h: "w_streams w h = Some st" "st_open st"
    and e: "export_batch ev b w = Inr (p, w')"
  shows "winv (put_stream h (st\<lparr>st_task := t, st_buf := st_buf st @ [p]\<rparr>) w')" (is "winv (put_stream h ?st w')")
proof -
  have s: "shells_inv w" "streams_inv w" "dom (w_shells w) = queued w" "w_faults w = 0"
    using inv by (simp_all add: winv_def)
  note x = shells_inv_export [OF s(1) e] and c = export_batch_cases [OF e]
  have st: "w_streams w' = w_streams w" "w_next_stream w' = w_next_stream w"
    "w_in_flight w' = w_in_flight w" "w_faults w' = w_faults w" by (simp_all add: c(3))
  have s': "streams_inv w'" using s(2) streams_inv_cong [OF st(1-3)] by simp
  have buf: "buf_of k w' = buf_of k w" for k using st by (simp add: buf_of_def)
  have fresh: "p \<notin> set (buf_of k w)" for k using x(3) s(3) by (auto simp: queued_def)
  have "streams_inv (put_stream h ?st w')"
  proof (rule streams_inv_put [OF s'])
    show "w_streams w' h = Some st" using h st by simp
    show "distinct (st_buf ?st)" using streams_inv_buf(1) [OF s(2), of h] fresh [of h] h by simp
    show "set (st_buf ?st) \<inter> (\<Union>k\<in>-{h}. set (buf_of k w')) = {}"
      using streams_inv_disjoint [OF s(2), of h] fresh h by (auto simp: buf)
  qed (use h in simp_all)
  moreover have "dom (w_shells w') = queued (put_stream h ?st w')"
    using x(2) s(3) h by (auto simp: queued_put buf queued_split [of w h])
  ultimately show ?thesis using x(1) s(4) st by (simp add: winv_def)
qed

lemma winv_discard:
  assumes inv: "winv w" and e: "export_batch ev b w = Inr (p, w')"
  shows "winv (batch_release p w')" "w_streams (batch_release p w') = w_streams w"
proof -
  have s: "shells_inv w" "streams_inv w" "dom (w_shells w) = queued w" "w_faults w = 0"
    using inv by (simp_all add: winv_def)
  note x = shells_inv_export [OF s(1) e] and c = export_batch_cases [OF e]
  have "w_shells w' p = Some b" by (simp add: c(3))
  note r = batch_release_shells [OF x(1) this]
  show st: "w_streams (batch_release p w') = w_streams w" using r(3) by (simp add: c(3))
  have "streams_inv (batch_release p w')"
    using s(2) streams_inv_cong [of "batch_release p w'" w] r c(3) by simp
  moreover have "dom (w_shells (batch_release p w')) = queued (batch_release p w')"
    using r(2) x s(3) queued_cong [OF st] by auto
  ultimately show "winv (batch_release p w')" using r(1,6) s(4) c(3) by (simp add: winv_def)
qed

lemma winv_producer: "winv w \<Longrightarrow> winv (producer_step ev h w)"
proof (cases "w_streams w h")
  case (Some st)
  assume inv: "winv w"
  show ?thesis
  proof (cases "st_task st")
    case (Start op req)
    obtain w' t where s: "start_handler ev op req w = (w', t)" by fastforce
    have "winv w'" using inv same_core_winv [OF same_core_start [OF s]] by simp
    moreover have "w_streams w' h = Some st"
      using Some same_core_start [OF s] by (simp add: same_core_def)
    ultimately show ?thesis using Some Start s by (simp add: producer_step_def winv_task)
  next
    case (Sending qid "is")
    show ?thesis
    proof (cases "is")
      case Nil
      with Some Sending inv show ?thesis by (simp add: producer_step_def winv_task)
    next
      case (Cons i r)
      show ?thesis
      proof (cases i)
        case (ItemErr e)
        with Some Sending Cons inv show ?thesis by (simp add: producer_step_def winv_task)
      next
        case (Item b)
        show ?thesis
        proof (cases "export_batch ev b w")
          case (Inl e)
          with Some Sending Cons Item inv show ?thesis by (simp add: producer_step_def winv_task)
        next
          case (Inr pw)
          obtain p w' where pw: "pw = (p, w')" by fastforce
          with Inr have e: "export_batch ev b w = Inr (p, w')" by simp
          show ?thesis
          proof (cases "st_open st")
            case True
            with winv_enqueue [OF inv Some True e] Some Sending Cons Item e show ?thesis
              by (simp add: producer_step_def)
          next
            case False
            have "winv (put_stream h (st\<lparr>st_task := Done\<rparr>) (batch_release p w'))"
              by (rule winv_task) (simp_all add: winv_discard [OF inv e] Some)
            with Some Sending Cons Item e False show ?thesis by (simp add: producer_step_def)
          qed
        qed
      qed
    qed
  qed (use inv Some in \<open>simp add: producer_step_def\<close>)
qed (simp add: producer_step_def)

section \<open>Closing a stream releases what is queued\<close>

lemma release_all:
  assumes "shells_inv w" "distinct ps" "set ps \<subseteq> dom (w_shells w)"
  defines "w' \<equiv> fold batch_release ps w"
  shows "shells_inv w'" "dom (w_shells w') = dom (w_shells w) - set ps"
    "w_streams w' = w_streams w" "w_next_stream w' = w_next_stream w"
    "w_in_flight w' = w_in_flight w" "w_faults w' = w_faults w" "w_next_ptr w' = w_next_ptr w"
    "w_owner w' p = (if p \<in> set ps then Some Released else w_owner w p)"
    "w_shells w' p = (if p \<in> set ps then None else w_shells w p)"
proof -
  have "shells_inv w' \<and> dom (w_shells w') = dom (w_shells w) - set ps \<and>
    w_streams w' = w_streams w \<and> w_next_stream w' = w_next_stream w \<and>
    w_in_flight w' = w_in_flight w \<and> w_faults w' = w_faults w \<and> w_next_ptr w' = w_next_ptr w \<and>
    w_owner w' p = (if p \<in> set ps then Some Released else w_owner w p) \<and>
    w_shells w' p = (if p \<in> set ps then None else w_shells w p)"
    using assms(1-3) unfolding w'_def
  proof (induction ps arbitrary: w)
    case (Cons q ps)
    then obtain b where b: "w_shells w q = Some b" by auto
    note r = batch_release_shells [OF Cons.prems(1) b]
    have "set ps \<subseteq> dom (w_shells (batch_release q w))" using Cons.prems r(2) by auto
    moreover have "distinct ps" using Cons.prems(2) by simp
    ultimately show ?case
      using Cons.IH [OF r(1), unfolded r(2)] Cons.prems(2) r(2) by (auto simp: r(3-9))
  qed simp
  then show "shells_inv w'" "dom (w_shells w') = dom (w_shells w) - set ps"
    "w_streams w' = w_streams w" "w_next_stream w' = w_next_stream w"
    "w_in_flight w' = w_in_flight w" "w_faults w' = w_faults w" "w_next_ptr w' = w_next_ptr w"
    "w_owner w' p = (if p \<in> set ps then Some Released else w_owner w p)"
    "w_shells w' p = (if p \<in> set ps then None else w_shells w p)" by simp_all
qed

lemma sable_close_closed:
  "w_streams w h = None \<or> (\<exists>st. w_streams w h = Some st \<and> \<not> st_open st) \<Longrightarrow> sable_close h w = w"
  by (auto simp: sable_close_def)

lemma winv_close:
  assumes "winv w"
  shows "winv (sable_close h w)"
proof (cases "opened h w")
  case False
  then show ?thesis using assms sable_close_closed [of w h]
    by (cases "w_streams w h") (auto simp: opened_def)
next
  case True
  then obtain st where h: "w_streams w h = Some st" "st_open st" by (auto simp: opened_def)
  have s: "shells_inv w" "streams_inv w" "dom (w_shells w) = queued w" "w_faults w = 0"
    using assms by (simp_all add: winv_def)
  have "set (buf_of h w) \<subseteq> queued w" by (auto simp: queued_def)
  then have sub: "set (st_buf st) \<subseteq> dom (w_shells w)" using s(3) h by simp
  have dis: "distinct (st_buf st)" using streams_inv_buf(1) [OF s(2), of h] h by simp
  define v where "v = fold batch_release (st_buf st) w"
  note r = release_all [OF s(1) dis sub, folded v_def]
  let ?w = "put_stream h (st\<lparr>st_buf := [], st_open := False\<rparr>) (v\<lparr>w_in_flight := w_in_flight v - 1\<rparr>)"
  have eq: "sable_close h w = ?w" using h r(5) by (simp add: sable_close_def v_def)
  have buf: "buf_of k ?w = (if k = h then [] else buf_of k w)" for k
    by (simp add: buf_of_def r(3))
  have op: "{k. opened k ?w} = {k. opened k w} - {h}"
    by (auto simp: opened_def r(3) split: if_splits)
  have "card {k. opened k ?w} = w_in_flight w - 1"
    unfolding op using opened_finite [OF s(2)] True s(2) by (simp add: streams_inv_def)
  moreover have "\<not> opened k ?w \<Longrightarrow> buf_of k ?w = []" for k
    using op s(2) unfolding buf streams_inv_def by (auto split: if_splits)
  moreover have "k < w_next_stream ?w" if "w_streams ?w k = Some st'" for k st'
    using that s(2) h r(3,4) by (auto simp: streams_inv_def split: if_splits)
  ultimately have "streams_inv ?w"
    using s(2) r(5) unfolding streams_inv_def buf by auto
  moreover have "shells_inv ?w" using r(1) by (simp add: shells_inv_def)
  moreover have "queued ?w = (\<Union>k\<in>-{h}. set (buf_of k w))"
    unfolding queued_def buf by (auto split: if_splits)
  then have "dom (w_shells ?w) = queued ?w"
    using r(2) s(3) streams_inv_disjoint [OF s(2), of h] h queued_split [of w h] by auto
  ultimately show ?thesis using r(6) s(4) by (simp add: winv_def eq)
qed

section \<open>Receiving and importing\<close>

text \<open>Between the receive and the import one shell belongs to no queue.\<close>

definition winv_held :: "ptr \<Rightarrow> 'db world \<Rightarrow> bool" where
  "winv_held p w \<longleftrightarrow> shells_inv w \<and> streams_inv w \<and> dom (w_shells w) = insert p (queued w) \<and>
     p \<notin> queued w \<and> w_faults w = 0"

lemma winv_pop:
  assumes "winv w" "w_streams w h = Some st" "st_buf st = p # ps" "st_open st"
  shows "winv_held p (put_stream h (st\<lparr>st_buf := ps\<rparr>) w)"
proof -
  have s: "shells_inv w" "streams_inv w" "dom (w_shells w) = queued w" "w_faults w = 0"
    using assms(1) by (simp_all add: winv_def)
  note d = streams_inv_disjoint [OF s(2), of h] streams_inv_buf(1) [OF s(2), of h]
  have "streams_inv (put_stream h (st\<lparr>st_buf := ps\<rparr>) w)"
    by (rule streams_inv_put [OF s(2) assms(2)]) (use d assms in auto)
  then show ?thesis using s d assms
    by (auto simp: winv_held_def queued_put queued_split [of w h])
qed

lemma sable_next_winv:
  assumes "winv w" "sable_next ev h c w = (r, w')"
  shows "case r of None \<Rightarrow> winv w' | Some p \<Rightarrow> winv_held p w'"
  using assms
proof (induction ev h c w rule: sable_next.induct)
  case (1 ev h c w)
  show ?case
  proof (cases "w_streams w h")
    case None
    with 1(2,3) show ?thesis by (auto simp: sable_next.simps)
  next
    case (Some st)
    show ?thesis
    proof (cases "\<not> st_open st \<or> ctx_err c w \<noteq> None \<and> \<not> (ev_ready_wins ev \<and> st_buf st \<noteq> [])")
      case True
      with Some 1(2,3) show ?thesis by (auto simp: sable_next.simps split: if_splits)
    next
      case go: False
      show ?thesis
      proof (cases "st_buf st")
        case (Cons p ps)
        with Some go 1(2,3) winv_pop [OF 1(2) Some Cons] show ?thesis
          by (auto simp: sable_next.simps [of ev h c w] split: if_splits)
      next
        case Nil
        show ?thesis
        proof (cases "st_task st = Done")
          case True
          with Some go Nil 1(2,3) show ?thesis
            by (auto simp: sable_next.simps [of ev h c w] split: if_splits)
        next
          case False
          have "sable_next ev h c (producer_step ev h w) = (r, w')"
            using 1(3) Some go Nil False by (subst (asm) sable_next.simps) (auto split: if_splits)
          from 1(1) [OF Some _ _ Nil False winv_producer [OF 1(2)] this] go
          show ?thesis by auto
        qed
      qed
    qed
  qed
qed

section \<open>Who owns the buffers\<close>

text \<open>
  \<open>own_step X\<close>: buffers that Go owns, or that were released or lost, keep that status, and only those
  in \<open>X\<close> become Go's. \<open>leak_free\<close>: no buffers
  were lost.
\<close>

definition own_step :: "ptr set \<Rightarrow> 'db world \<Rightarrow> 'db world \<Rightarrow> bool" where
  "own_step X w w' \<longleftrightarrow>
     (\<forall>p. w_owner w p \<noteq> None \<and> w_owner w p \<noteq> Some RustOwned \<longrightarrow> w_owner w' p = w_owner w p) \<and>
     (\<forall>p. w_owner w' p = Some GoOwned \<longrightarrow> w_owner w p = Some GoOwned \<or> p \<in> X)"

definition leak_free :: "'db world \<Rightarrow> bool" where
  "leak_free w \<longleftrightarrow> (\<forall>p. w_owner w p \<noteq> Some Leaked)"

definition own_ok :: "ptr set \<Rightarrow> 'db world \<Rightarrow> 'db world \<Rightarrow> bool" where
  "own_ok X w w' \<longleftrightarrow> own_step X w w' \<and> (leak_free w \<longrightarrow> leak_free w')"

lemma own_step_keep:
  assumes "own_step X w w'" "w_owner w p = Some GoOwned"
  shows "w_owner w' p = Some GoOwned"
  using assms(1) [unfolded own_step_def, THEN conjunct1, rule_format, of p] assms(2) by simp

lemma own_step_fixed:
  assumes "own_step X w w'" "w_owner w p = Some o'" "o' \<noteq> RustOwned"
  shows "w_owner w' p = Some o'"
  using assms(1) [unfolded own_step_def, THEN conjunct1, rule_format, of p] assms(2,3) by simp

lemma own_step_back:
  assumes "own_step X w w'" "w_owner w' p = Some GoOwned"
  shows "w_owner w p = Some GoOwned \<or> p \<in> X"
  using assms(1) [unfolded own_step_def, THEN conjunct2, rule_format, OF assms(2)] .

lemma own_ok_refl [simp]: "own_ok X w w"
  by (simp add: own_ok_def own_step_def)

lemma own_step_trans: "own_step X w w' \<Longrightarrow> own_step X w' w'' \<Longrightarrow> own_step X w w''"
  unfolding own_step_def by metis

lemma own_ok_trans: "own_ok X w w' \<Longrightarrow> own_ok X w' w'' \<Longrightarrow> own_ok X w w''"
  unfolding own_ok_def own_step_def by metis

lemma own_ok_same: "w_owner w' = w_owner w \<Longrightarrow> own_ok X w w'"
  by (simp add: own_ok_def own_step_def leak_free_def)

lemma own_ok_core: "same_core w w' \<Longrightarrow> own_ok X w w'"
  by (rule own_ok_same) (simp add: same_core_def)

lemma own_ok_upd:
  assumes "\<And>p. w_owner w' p = w_owner w p \<or>
     ((w_owner w p = None \<or> w_owner w p = Some RustOwned) \<and> w_owner w' p \<noteq> Some Leaked \<and>
      (w_owner w' p = Some GoOwned \<longrightarrow> p \<in> X))"
  shows "own_ok X w w'"
  using assms unfolding own_ok_def own_step_def leak_free_def by metis

lemma store_owner [simp]: "w_owner (store_query_error i m w) = w_owner w"
  by (simp add: store_query_error_def)

lemma own_ok_producer:
  assumes "winv w"
  shows "own_ok X w (producer_step ev h w)"
proof -
  have fresh: "w_owner w (w_next_ptr w) = None"
    using assms by (simp add: winv_def shells_inv_def)
  have start: "w_owner w' = w_owner w" if "start_handler ev op req w = (w', t)" for op req w' t
    using same_core_start [OF that] by (simp add: same_core_def)
  show ?thesis
    by (rule own_ok_upd)
      (auto simp: producer_step_def fresh start batch_release_def export_batch_def Let_def
        split: option.splits task.splits list.splits item.splits sum.splits prod.splits)
qed

lemma own_ok_close:
  assumes "winv w"
  shows "own_ok X w (sable_close h w)"
proof (cases "opened h w")
  case True
  then obtain st where h: "w_streams w h = Some st" "st_open st" by (auto simp: opened_def)
  have s: "shells_inv w" "streams_inv w" "dom (w_shells w) = queued w"
    using assms by (simp_all add: winv_def)
  have "set (buf_of h w) \<subseteq> queued w" by (auto simp: queued_def)
  then have sub: "set (st_buf st) \<subseteq> dom (w_shells w)" using s(3) h by simp
  have dis: "distinct (st_buf st)" using streams_inv_buf(1) [OF s(2), of h] h by simp
  have "w_owner w p = Some RustOwned" if "p \<in> set (st_buf st)" for p
    using sub that shells_inv_shell [OF s(1), of p] by auto
  then show ?thesis
    by (intro own_ok_upd) (simp add: sable_close_def h release_all(8) [OF s(1) dis sub])
next
  case False
  then have "sable_close h w = w" by (intro sable_close_closed) (auto simp: opened_def)
  then show ?thesis by simp
qed

lemma own_ok_next:
  assumes "winv w" "sable_next ev h c w = (r, w')"
  shows "own_ok X w w'"
  using assms
proof (induction ev h c w rule: sable_next.induct)
  case (1 ev h c w)
  show ?case
  proof (cases "\<exists>st. w_streams w h = Some st \<and> st_open st \<and>
      (ctx_err c w = None \<or> ev_ready_wins ev \<and> st_buf st \<noteq> []) \<and> st_buf st = [] \<and> st_task st \<noteq> Done")
    case False
    with 1(3) show ?thesis
      by (auto simp: sable_next.simps [of ev h c w] intro!: own_ok_same
          split: option.splits if_splits list.splits)
  next
    case True
    then obtain st where st: "w_streams w h = Some st" "st_open st" "st_buf st = []" "st_task st \<noteq> Done"
      "ctx_err c w = None" by auto
    have "sable_next ev h c (producer_step ev h w) = (r, w')"
      using 1(3) st by (simp add: sable_next.simps [of ev h c w])
    from 1(1) [OF st(1) _ _ st(3,4) winv_producer [OF 1(2)] this] st
    have "own_ok X (producer_step ev h w) w'" by simp
    with own_ok_producer [OF 1(2)] show ?thesis by (rule own_ok_trans)
  qed
qed

section \<open>Import, then free the shell\<close>

lemma import_free:
  assumes held: "winv_held p w" and imp: "import_batch ev p w = (rec, w1)"
  shows "winv (shell_free p w1)"
    and "(\<And>b. rec = Inr b \<Longrightarrow> p \<in> X) \<Longrightarrow> own_step X w (shell_free p w1)"
    and "\<And>b. rec = Inr b \<Longrightarrow> w_owner (shell_free p w1) p = Some GoOwned \<and> w_shells w p = Some b \<and>
      (p \<in> X \<longrightarrow> own_ok X w (shell_free p w1))"
    and "\<And>e. rec = Inl e \<Longrightarrow> (\<And>b e. ev_import ev b \<noteq> ImportErr e False) \<Longrightarrow> own_ok X w (shell_free p w1)"
proof -
  have s: "shells_inv w" "streams_inv w" "dom (w_shells w) = insert p (queued w)"
    "p \<notin> queued w" "w_faults w = 0" using held by (simp_all add: winv_held_def)
  then obtain b where b: "w_shells w p = Some b" by auto
  note o = shells_inv_shell [OF s(1) b]
  have "\<exists>own. shell_free p w1 = w\<lparr>w_shells := (w_shells w)(p := None),
      w_live_batches := w_live_batches w - 1, w_owner := (w_owner w)(p \<mapsto> own)\<rparr> \<and>
      (own = GoOwned \<longleftrightarrow> rec = Inr b) \<and> (\<exists>e. rec = Inl e \<or> rec = Inr b) \<and> own \<noteq> RustOwned \<and>
      (own = Leaked \<longrightarrow> (\<exists>e. ev_import ev b = ImportErr e False))"
  proof (cases "ev_import ev b")
    case ImportOk
    then show ?thesis using imp b o
      by (intro exI [of _ GoOwned]) (auto simp: import_batch_def shell_free_def)
  next
    case (ImportErr e c)
    then show ?thesis using imp b o
      by (intro exI [of _ "if c then Released else Leaked"])
        (auto simp: import_batch_def shell_free_def)
  qed
  then obtain own where eq: "shell_free p w1 = w\<lparr>w_shells := (w_shells w)(p := None),
      w_live_batches := w_live_batches w - 1, w_owner := (w_owner w)(p \<mapsto> own)\<rparr>"
    and own: "own = GoOwned \<longleftrightarrow> rec = Inr b" "\<exists>e. rec = Inl e \<or> rec = Inr b" "own \<noteq> RustOwned"
      "own = Leaked \<Longrightarrow> \<exists>e. ev_import ev b = ImportErr e False" by metis
  have card: "int (card (dom (w_shells w) - {p})) = int (card (dom (w_shells w))) - 1"
    using s(1) b by (simp add: shells_inv_def card_Diff_singleton domI int_ops(6) card_gt_0_iff)
      (metis One_nat_def Suc_leI card_gt_0_iff domI empty_iff of_nat_1 of_nat_diff)
  have "shells_inv (shell_free p w1)" using s(1) o card own(3) by (auto simp: eq shells_inv_def)
  moreover have "streams_inv (shell_free p w1) = streams_inv w"
    by (rule streams_inv_cong) (simp_all add: eq)
  moreover have "queued (shell_free p w1) = queued w" by (rule queued_cong) (simp add: eq)
  ultimately show "winv (shell_free p w1)" using s by (auto simp: winv_def eq)
  show "own_step X w (shell_free p w1)" if "\<And>b. rec = Inr b \<Longrightarrow> p \<in> X"
    using o own(1) that by (auto simp: own_step_def eq split: if_splits)
  show "w_owner (shell_free p w1) p = Some GoOwned \<and> w_shells w p = Some b' \<and>
      (p \<in> X \<longrightarrow> own_ok X w (shell_free p w1))" if "rec = Inr b'" for b'
    using own that b o by (auto simp: eq intro!: own_ok_upd split: if_splits)
  show "own_ok X w (shell_free p w1)"
    if "rec = Inl e" "\<And>b e. ev_import ev b \<noteq> ImportErr e False" for e
    using own that b o by (intro own_ok_upd) (auto simp: eq)
qed

section \<open>The cursor operations\<close>

text \<open>\<open>clean_imports\<close>: a failing import always releases the buffers it was given.\<close>

definition clean_imports :: "'db env \<Rightarrow> bool" where
  "clean_imports ev \<longleftrightarrow> (\<forall>b e. ev_import ev b \<noteq> ImportErr e False)"

text \<open>The contract every operation of the transport and of the cursor meets.\<close>

definition safe_step :: "'db env \<Rightarrow> ptr set \<Rightarrow> 'db world \<Rightarrow> 'db world \<Rightarrow> bool" where
  "safe_step ev X w w' \<longleftrightarrow> winv w' \<and> own_step X w w' \<and> (clean_imports ev \<longrightarrow> own_ok X w w')"

lemma safe_stepI: "winv w' \<Longrightarrow> own_ok X w w' \<Longrightarrow> safe_step ev X w w'"
  by (simp add: safe_step_def own_ok_def)

lemma safe_step_trans: "safe_step ev X w w' \<Longrightarrow> safe_step ev X w' w'' \<Longrightarrow> safe_step ev X w w''"
  unfolding safe_step_def own_step_def by (metis own_ok_trans)

lemma safe_core: "winv w \<Longrightarrow> same_core w w' \<Longrightarrow> safe_step ev X w w'"
  by (simp add: safe_stepI same_core_winv own_ok_core)

lemma safe_close: "winv w \<Longrightarrow> safe_step ev X w (sable_close h w)"
  by (simp add: safe_stepI winv_close own_ok_close)

lemma safe_producer: "winv w \<Longrightarrow> safe_step ev X w (producer_step ev' h w)"
  by (simp add: safe_stepI winv_producer own_ok_producer)

lemma safe_Rows_Close: "winv w \<Longrightarrow> safe_step ev X w (snd (Rows_Close ev' r w))"
proof -
  assume inv: "winv w"
  have c: "winv (sable_close (r_s r) w)" using inv by (rule winv_close)
  have "safe_step ev X (sable_close (r_s r) w)
      (snd (takeStoredError ev' (r_queryID r) (sable_close (r_s r) w)))"
    by (rule safe_core [OF c same_core_take_snd])
  with safe_close [OF inv] show ?thesis
    by (auto simp: Rows_Close_def Let_def intro: safe_step_trans)
qed

lemma same_core_fetch: "fetchQueryError ev r w = (x, w') \<Longrightarrow> same_core w w'"
  by (auto simp: fetchQueryError_def dest: same_core_take split: prod.splits sum.splits if_splits)

lemma safe_finish:
  assumes "winv w" "finish ev' e r w = (x, r', w')"
  shows "safe_step ev X w w'"
proof -
  obtain s w1 where f: "fetchQueryError ev' r w = (s, w1)" by fastforce
  have 1: "safe_step ev X w w1" by (rule safe_core [OF assms(1) same_core_fetch [OF f]])
  then have "winv w1" by (simp add: safe_step_def)
  moreover have "\<exists>r0. w' = snd (Rows_Close ev' r0 w1)"
    using assms(2) by (auto simp: finish_def f Let_def split: prod.splits) (metis snd_conv)
  ultimately have "safe_step ev X w1 w'" using safe_Rows_Close by blast
  with 1 show ?thesis by (rule safe_step_trans)
qed

lemma safe_Rows_Next:
  assumes "winv w" "Rows_Next ev r w = ((rec, e), r', w')" "\<And>p b. rec = Some (p, b) \<Longrightarrow> p \<in> X"
  shows "safe_step ev X w w' \<and> (\<forall>p b. rec = Some (p, b) \<longrightarrow> w_owner w' p = Some GoOwned)"
proof (cases "r_ended r")
  case True
  with assms show ?thesis by (auto simp: Rows_Next_def safe_stepI)
next
  case run: False
  obtain pp w1 where n: "sable_next ev (r_s r) (r_ctx r) w = (pp, w1)" by fastforce
  note nw = sable_next_winv [OF assms(1) n] and no = own_ok_next [OF assms(1) n]
  show ?thesis
  proof (cases pp)
    case None
    with nw no have 1: "safe_step ev X w w1" "winv w1" by (simp_all add: safe_stepI)
    with assms(2) run n None safe_finish [OF 1(2), of ev None r _ _ _ ev] show ?thesis
      by (auto simp: Rows_Next_def split: prod.splits intro: safe_step_trans)
  next
    case (Some p)
    with nw have h: "winv_held p w1" by simp
    obtain rc w2 where i: "import_batch ev p w1 = (rc, w2)" by fastforce
    note f = import_free [OF h i]
    have 1: "safe_step ev X w (shell_free p w2)"
    proof (cases rc)
      case (Inl x)
      have "own_step X w1 (shell_free p w2)" using f(2) Inl by blast
      moreover have "own_step X w w1" using no by (simp add: own_ok_def)
      ultimately have "own_step X w (shell_free p w2)" by (rule own_step_trans [rotated])
      moreover have "own_ok X w (shell_free p w2)" if "clean_imports ev"
      proof (rule own_ok_trans [OF no])
        show "own_ok X w1 (shell_free p w2)"
          by (rule f(4) [OF Inl]) (use that in \<open>simp add: clean_imports_def\<close>)
      qed
      ultimately show ?thesis using f(1) by (simp add: safe_step_def)
    next
      case (Inr b)
      have "p \<in> X"
        using assms(2,3) run n Some i Inr by (auto simp: Rows_Next_def Let_def)
      with f(3) [OF Inr] no have "own_ok X w (shell_free p w2)" by (auto intro: own_ok_trans)
      with f(1) show ?thesis by (rule safe_stepI)
    qed
    show ?thesis
    proof (cases rc)
      case (Inl x)
      with assms(2) run n Some i safe_finish [OF f(1), of ev "Some x" r _ _ _ ev] 1 show ?thesis
        by (auto simp: Rows_Next_def Let_def split: prod.splits intro: safe_step_trans)
    next
      case (Inr b)
      with assms(2) run n Some i 1 f(3) [of b] show ?thesis
        by (auto simp: Rows_Next_def Let_def split: prod.splits)
    qed
  qed
qed

lemma safe_release:
  assumes "winv w" "w_owner w p = Some GoOwned"
  shows "winv (rec_release p w)" "w_owner (rec_release p w) = (w_owner w)(p \<mapsto> Released)"
    "leak_free w \<Longrightarrow> leak_free (rec_release p w)"
proof -
  have p: "p < w_next_ptr w" "0 < p" using assms by (metis not_le not_gr_zero option.distinct(1) shells_inv_def winv_def)+
  have "w_shells w p = None"
    using assms shells_inv_shell [of w p] by (cases "w_shells w p") (auto simp: winv_def)
  then have "shells_inv (rec_release p w)"
    using assms p by (auto simp: rec_release_def winv_def shells_inv_def)
  moreover have "streams_inv (rec_release p w) = streams_inv w"
    by (rule streams_inv_cong) (simp_all add: rec_release_def)
  moreover have "queued (rec_release p w) = queued w"
    by (rule queued_cong) (simp add: rec_release_def)
  ultimately show "winv (rec_release p w)" using assms by (simp add: winv_def rec_release_def)
qed (use assms in \<open>auto simp: rec_release_def leak_free_def\<close>)

lemma safe_open_stream:
  assumes "winv w" "sable_open_stream op req w = (r, w')"
  shows "safe_step ev X w w'"
proof (cases "admits w")
  case False
  with assms show ?thesis
    by (intro safe_core) (auto simp: sable_open_stream_def reject_def same_core_def)
next
  case True
  define h where "h = w_next_stream w"
  have w': "w' = w\<lparr>w_next_stream := Suc h, w_in_flight := Suc (w_in_flight w),
      w_streams := (w_streams w)(h \<mapsto> \<lparr>st_task = Start op req, st_buf = [], st_open = True\<rparr>)\<rparr>"
    using assms(2) True by (simp add: sable_open_stream_def h_def)
  have s: "streams_inv w" "shells_inv w" "dom (w_shells w) = queued w" "w_faults w = 0"
    using assms(1) by (simp_all add: winv_def)
  then have no: "w_streams w h = None" by (auto simp: streams_inv_def h_def)
  then have nb: "buf_of h w = []" "\<not> opened h w" by (simp_all add: buf_of_def opened_def)
  have buf: "buf_of k w' = buf_of k w" for k using no by (simp add: w' buf_of_def)
  have op: "opened k w' \<longleftrightarrow> k = h \<or> opened k w" for k by (auto simp: w' opened_def)
  have "{k. opened k w'} = insert h {k. opened k w}" by (auto simp: op)
  then have "card {k. opened k w'} = Suc (w_in_flight w)"
    using opened_finite [OF s(1)] nb s(1) by (simp add: streams_inv_def)
  moreover have "k < w_next_stream w'" if "w_streams w' k = Some st" for k st
    using that s(1) by (auto simp: w' streams_inv_def h_def split: if_splits intro: less_SucI)
  ultimately have "streams_inv w'"
    using s(1) nb unfolding streams_inv_def buf op by (auto simp: w')
  moreover have "shells_inv w'" using s(2) by (simp add: w' shells_inv_def)
  moreover have "queued w' = queued w" by (simp add: queued_def buf)
  ultimately have "winv w'" using s by (simp add: winv_def w')
  then show ?thesis by (intro safe_stepI own_ok_same) (simp_all add: w')
qed

lemma opened_producer: "opened h' (producer_step ev h w) = opened h' w"
proof -
  have start: "w_streams w' = w_streams w" if "start_handler ev op req w = (w', t)" for op req w' t
    using same_core_start [OF that] by (simp add: same_core_def)
  show ?thesis
    by (auto simp: producer_step_def opened_def start batch_release_def export_batch_def Let_def
        split: option.splits task.splits list.splits item.splits sum.splits prod.splits)
qed

lemma opened_cong: "w_streams w' = w_streams w \<Longrightarrow> opened h w' = opened h w"
  by (simp add: opened_def)

lemma opened_core: "same_core w w' \<Longrightarrow> opened h w' = opened h w"
  by (rule opened_cong) (simp add: same_core_def)


end
