(* ===== verification/System.thy ===== *)
theory System
  imports Ownership
begin

text \<open>
  The whole process as a transition system: clients open and close databases, send byte calls, open
  cursors, pull batches, release records and set the in-flight cap, while the handlers advance and
  contexts end in any order. The invariant over its reachable states carries the leak and double-free
  guarantees of \<open>db.go\<close> and \<open>ingest.go\<close>.
\<close>

section \<open>States and steps\<close>

text \<open>\<open>s_rows\<close>: every cursor returned so far; \<open>s_held\<close>: the records the clients own.\<close>

record 'db sys =
  s_w :: "'db world"
  s_rows :: "rows list"
  s_held :: "ptr list"

definition init_sys :: "'db sys" where
  "init_sys = \<lparr>s_w = init_world, s_rows = [], s_held = []\<rparr>"

definition SetMaxInFlight :: "nat \<Rightarrow> 'db world \<Rightarrow> 'db world" where
  "SetMaxInFlight n w = w\<lparr>w_max_in_flight := n\<rparr>"

inductive step :: "'db env \<Rightarrow> 'db sys \<Rightarrow> 'db sys \<Rightarrow> bool" for ev where
  Env: "step ev s (s\<lparr>s_w := env_step ev e (s_w s)\<rparr>)"
| OpenDb: "open_handle ev rq what (s_w s) = (r, w') \<Longrightarrow> step ev s (s\<lparr>s_w := w'\<rparr>)"
| CloseDb: "step ev s (s\<lparr>s_w := DB_Close db (s_w s)\<rparr>)"
| Call: "sable_call ev op req (s_w s) = (r, w') \<Longrightarrow> step ev s (s\<lparr>s_w := w'\<rparr>)"
| TryCall: "sable_try_call ev op req (s_w s) = (r, w') \<Longrightarrow> step ev s (s\<lparr>s_w := w'\<rparr>)"
| SetCap: "step ev s (s\<lparr>s_w := SetMaxInFlight n (s_w s)\<rparr>)"
| OpenCursor: "openStream db ctx op payload (s_w s) = (Inr r, w') \<Longrightarrow>
    step ev s (s\<lparr>s_w := w', s_rows := s_rows s @ [r]\<rparr>)"
| Refused: "openStream db ctx op payload (s_w s) = (Inl e, w') \<Longrightarrow> step ev s (s\<lparr>s_w := w'\<rparr>)"
| NextRow: "i < length (s_rows s) \<Longrightarrow>
    Rows_Next ev (s_rows s ! i) (s_w s) = ((Some (p, b), e), r', w') \<Longrightarrow>
    step ev s (s\<lparr>s_w := w', s_rows := (s_rows s)[i := r'], s_held := p # s_held s\<rparr>)"
| NextEnd: "i < length (s_rows s) \<Longrightarrow>
    Rows_Next ev (s_rows s ! i) (s_w s) = ((None, e), r', w') \<Longrightarrow>
    step ev s (s\<lparr>s_w := w', s_rows := (s_rows s)[i := r']\<rparr>)"
| CloseCursor: "i < length (s_rows s) \<Longrightarrow> Rows_Close ev (s_rows s ! i) (s_w s) = (r', w') \<Longrightarrow>
    step ev s (s\<lparr>s_w := w', s_rows := (s_rows s)[i := r']\<rparr>)"
| ReleaseRecord: "p \<in> set (s_held s) \<Longrightarrow>
    step ev s (s\<lparr>s_w := rec_release p (s_w s), s_held := remove1 p (s_held s)\<rparr>)"

inductive reachable :: "'db env \<Rightarrow> 'db sys \<Rightarrow> bool" for ev where
  init: "reachable ev init_sys"
| steps: "reachable ev s \<Longrightarrow> step ev s s' \<Longrightarrow> reachable ev s'"

section \<open>The invariant\<close>

text \<open>An open stream belongs to exactly one cursor that has not ended; the held records are Go's.\<close>

definition cursors_inv :: "'db world \<Rightarrow> rows list \<Rightarrow> bool" where
  "cursors_inv w rs \<longleftrightarrow> distinct (map r_s rs) \<and> (\<forall>r\<in>set rs. r_s r < w_next_stream w) \<and>
     {h. opened h w} = r_s ` {r \<in> set rs. \<not> r_ended r}"

definition held_inv :: "'db world \<Rightarrow> ptr list \<Rightarrow> bool" where
  "held_inv w ps \<longleftrightarrow> distinct ps \<and> {p. w_owner w p = Some GoOwned} = set ps"

definition sinv :: "'db sys \<Rightarrow> bool" where
  "sinv s \<longleftrightarrow> winv (s_w s) \<and> cursors_inv (s_w s) (s_rows s) \<and> held_inv (s_w s) (s_held s)"

lemma init_sinv: "sinv init_sys"
  by (simp add: sinv_def init_sys_def init_world_def winv_def shells_inv_def streams_inv_def
      queued_def buf_of_def opened_def cursors_inv_def held_inv_def) auto

section \<open>What each operation does to the set of open streams\<close>

lemma next_stream_producer: "w_next_stream (producer_step ev h w) = w_next_stream w"
proof -
  have start: "w_next_stream w' = w_next_stream w" if "start_handler ev op req w = (w', t)" for op req w' t
    using same_core_start [OF that] by (simp add: same_core_def)
  show ?thesis
    by (auto simp: producer_step_def start batch_release_def export_batch_def Let_def store_query_error_def
        split: option.splits task.splits list.splits item.splits sum.splits prod.splits)
qed

definition same_streams :: "'db world \<Rightarrow> 'db world \<Rightarrow> bool" where
  "same_streams w w' \<longleftrightarrow> w_next_stream w' = w_next_stream w \<and> (\<forall>h. opened h w' = opened h w)"

lemma same_streams_core: "same_core w w' \<Longrightarrow> same_streams w w'"
  by (simp add: same_streams_def opened_core) (simp add: same_core_def)

lemma same_streams_trans: "same_streams w w' \<Longrightarrow> same_streams w' w'' \<Longrightarrow> same_streams w w''"
  by (simp add: same_streams_def)

lemma same_streams_producer: "same_streams w (producer_step ev h w)"
  by (simp add: same_streams_def opened_producer next_stream_producer)

lemma same_streams_next: "sable_next ev h c w = (r, w') \<Longrightarrow> same_streams w w'"
proof (induction ev h c w rule: sable_next.induct)
  case (1 ev h c w)
  show ?case
  proof (cases "\<exists>st. w_streams w h = Some st \<and> st_open st \<and> ctx_err c w = None \<and> st_buf st = [] \<and>
      st_task st \<noteq> Done")
    case False
    with 1(2) show ?thesis
      by (auto simp: sable_next.simps [of ev h c w] same_streams_def opened_def
          split: option.splits if_splits list.splits)
  next
    case True
    then obtain st where st: "w_streams w h = Some st" "st_open st" "st_buf st = []" "st_task st \<noteq> Done"
      "ctx_err c w = None" by auto
    have "sable_next ev h c (producer_step ev h w) = (r, w')"
      using 1(2) st by (simp add: sable_next.simps [of ev h c w])
    from 1(1) [OF st(1) _ _ st(3,4) this] st
    have "same_streams (producer_step ev h w) w'" by simp
    with same_streams_producer show ?thesis by (rule same_streams_trans)
  qed
qed

definition closes :: "nat \<Rightarrow> 'db world \<Rightarrow> 'db world \<Rightarrow> bool" where
  "closes h w w' \<longleftrightarrow>
     w_next_stream w' = w_next_stream w \<and> (\<forall>k. opened k w' \<longleftrightarrow> opened k w \<and> k \<noteq> h)"

lemma closes_compose: "same_streams w w1 \<Longrightarrow> closes h w1 w2 \<Longrightarrow> same_streams w2 w3 \<Longrightarrow> closes h w w3"
  by (simp add: closes_def same_streams_def)

lemma same_streams_refl [simp]: "same_streams w w"
  by (simp add: same_streams_def)

lemma release_fold_streams:
  "w_streams (fold batch_release ps w) = w_streams w \<and>
   w_next_stream (fold batch_release ps w) = w_next_stream w"
  by (induction ps arbitrary: w) (simp_all add: batch_release_def)

lemma closes_sable_close: "closes h w (sable_close h w)"
  by (auto simp: closes_def sable_close_def opened_def put_stream_def release_fold_streams
      split: option.splits)

lemma closes_Rows_Close: "Rows_Close ev r w = (r', w') \<Longrightarrow>
    closes (r_s r) w w' \<and> r_ended r' \<and> r_s r' = r_s r"
  using closes_compose [OF same_streams_refl closes_sable_close
      same_streams_core [OF same_core_take_snd], of "r_s r" w ev "r_queryID r"]
  by (auto simp: Rows_Close_def Let_def closes_sable_close split: if_splits)

lemma closes_finish: "finish ev e r w = (x, r', w') \<Longrightarrow>
    closes (r_s r) w w' \<and> r_ended r' \<and> r_s r' = r_s r"
proof -
  assume f: "finish ev e r w = (x, r', w')"
  obtain s w1 where q: "fetchQueryError ev r w = (s, w1)" by fastforce
  note c = same_streams_core [OF same_core_fetch [OF q]]
  have "\<exists>e'. Rows_Close ev (r\<lparr>r_err := e', r_ended := True\<rparr>) w1 = (r', w')"
    using f by (auto simp: finish_def q Let_def split: prod.splits)
  then obtain e' where r0: "Rows_Close ev (r\<lparr>r_err := e', r_ended := True\<rparr>) w1 = (r', w')" ..
  from closes_Rows_Close [OF r0] closes_compose [OF c _ same_streams_refl, of "r_s r" w']
  show ?thesis by simp
qed

lemma same_streams_import:
  "import_batch ev p w = (r, w1) \<Longrightarrow> same_streams w (shell_free p w1)"
  by (auto simp: import_batch_def shell_free_def same_streams_def opened_def
      split: option.splits import_outcome.splits if_splits)

lemma Rows_Next_streams:
  assumes "Rows_Next ev r w = ((rec, e), r', w')"
  shows "r_s r' = r_s r"
    and "\<not> r_ended r' \<Longrightarrow> \<not> r_ended r \<and> same_streams w w'"
    and "r_ended r' \<Longrightarrow> \<not> r_ended r \<Longrightarrow> closes (r_s r) w w'"
    and "r_ended r \<Longrightarrow> r' = r \<and> w' = w \<and> rec = None"
    and "rec \<noteq> None \<Longrightarrow> \<not> r_ended r'"
proof -
  have "r_s r' = r_s r \<and> (\<not> r_ended r' \<longrightarrow> \<not> r_ended r \<and> same_streams w w') \<and>
      (r_ended r' \<and> \<not> r_ended r \<longrightarrow> closes (r_s r) w w') \<and>
      (r_ended r \<longrightarrow> r' = r \<and> w' = w \<and> rec = None) \<and> (rec \<noteq> None \<longrightarrow> \<not> r_ended r')"
  proof (cases "r_ended r")
    case True
    with assms show ?thesis by (auto simp: Rows_Next_def)
  next
    case run: False
    obtain pp w1 where n: "sable_next ev (r_s r) (r_ctx r) w = (pp, w1)" by fastforce
    note s1 = same_streams_next [OF n]
    show ?thesis
    proof (cases pp)
      case None
      with assms run n obtain x where "finish ev None r w1 = (x, r', w')" "rec = None"
        by (auto simp: Rows_Next_def split: prod.splits)
      with closes_finish [of ev None r w1 x r' w']
        closes_compose [OF s1 _ same_streams_refl, of "r_s r" w'] run
      show ?thesis by simp
    next
      case (Some p)
      obtain rc w2 where i: "import_batch ev p w1 = (rc, w2)" by fastforce
      note s2 = same_streams_trans [OF s1 same_streams_import [OF i]]
      show ?thesis
      proof (cases rc)
        case (Inl y)
        with assms run n Some i obtain x where "finish ev (Some y) r (shell_free p w2) = (x, r', w')"
          "rec = None" by (auto simp: Rows_Next_def Let_def split: prod.splits)
        with closes_finish [of ev "Some y" r "shell_free p w2" x r' w']
          closes_compose [OF s2 _ same_streams_refl, of "r_s r" w'] run
        show ?thesis by simp
      next
        case (Inr b)
        with assms run n Some i s2 show ?thesis by (auto simp: Rows_Next_def Let_def)
      qed
    qed
  qed
  then show "r_s r' = r_s r"
    and "\<not> r_ended r' \<Longrightarrow> \<not> r_ended r \<and> same_streams w w'"
    and "r_ended r' \<Longrightarrow> \<not> r_ended r \<Longrightarrow> closes (r_s r) w w'"
    and "r_ended r \<Longrightarrow> r' = r \<and> w' = w \<and> rec = None"
    and "rec \<noteq> None \<Longrightarrow> \<not> r_ended r'" by blast+
qed

section \<open>Preservation\<close>

lemma cursors_same: "same_streams w w' \<Longrightarrow> cursors_inv w' rs = cursors_inv w rs"
  by (simp add: cursors_inv_def same_streams_def)

lemma cursors_update:
  assumes inv: "cursors_inv w rs" and i: "i < length rs" and s: "r_s r' = r_s (rs ! i)"
    and c: "(r_ended r' = r_ended (rs ! i) \<and> same_streams w w') \<or>
      (r_ended r' \<and> closes (r_s (rs ! i)) w w')"
  shows "cursors_inv w' (rs[i := r'])"
proof -
  have map: "map r_s (rs[i := r']) = map r_s rs"
    by (metis i list_update_id map_update s)
  then have ids: "r_s ` set (rs[i := r']) = r_s ` set rs" by (metis set_map)
  have ns: "w_next_stream w' = w_next_stream w" using c by (auto simp: closes_def same_streams_def)
  have uniq: "r_s (rs ! j) = r_s (rs ! i) \<longleftrightarrow> j = i" if "j < length rs" for j
    using inv i that by (auto simp: cursors_inv_def distinct_conv_nth)
  have open_rs: "r_s ` {r \<in> set rs'. \<not> r_ended r} = {r_s (rs' ! j) |j. j < length rs' \<and> \<not> r_ended (rs' ! j)}"
    for rs' by (auto simp: in_set_conv_nth)
  have iff: "opened h w \<longleftrightarrow> (\<exists>j. h = r_s (rs ! j) \<and> j < length rs \<and> \<not> r_ended (rs ! j))" for h
    using inv open_rs [of rs] by (auto simp: cursors_inv_def)
  have shut: "\<not> opened (r_s (rs ! i)) w" if "r_ended (rs ! i)"
    using that uniq unfolding iff by metis
  have "{h. opened h w'} = r_s ` {r \<in> set (rs[i := r']). \<not> r_ended r}"
  proof (cases "r_ended r'")
    case False
    then have "{h. opened h w'} = {h. opened h w}" using c by (auto simp: same_streams_def)
    also have "\<dots> = {r_s (rs ! j) |j. j < length rs \<and> \<not> r_ended (rs ! j)}"
      using inv open_rs [of rs] by (simp add: cursors_inv_def)
    also have "\<dots> = {r_s (rs[i := r'] ! j) |j. j < length rs \<and> \<not> r_ended (rs[i := r'] ! j)}"
      using False c s i by (auto simp: nth_list_update split: if_splits)
    finally show ?thesis using open_rs [of "rs[i := r']"] by simp
  next
    case True
    have "{h. opened h w'} = {h. opened h w} - {r_s (rs ! i)}"
      using c True shut by (auto simp: closes_def same_streams_def)
    also have "\<dots> = {r_s (rs ! j) |j. j < length rs \<and> \<not> r_ended (rs ! j) \<and> j \<noteq> i}"
      using inv open_rs [of rs] uniq by (auto simp: cursors_inv_def)
    also have "\<dots> = {r_s (rs[i := r'] ! j) |j. j < length rs \<and> \<not> r_ended (rs[i := r'] ! j)}"
    proof -
      have pt: "r_s (rs[i := r'] ! j) = r_s (rs ! j) \<and> (r_ended (rs[i := r'] ! j) \<longleftrightarrow> r_ended (rs ! j) \<or> j = i)"
        if "j < length rs" for j using that True s by (cases "j = i") simp_all
      show ?thesis by (intro Collect_cong ex_cong1) (use pt in auto)
    qed
    finally show ?thesis using open_rs [of "rs[i := r']"] by simp
  qed
  moreover have "\<forall>x\<in>r_s ` set (rs[i := r']). x < w_next_stream w'"
    unfolding ids using inv ns by (auto simp: cursors_inv_def)
  then have "\<forall>r\<in>set (rs[i := r']). r_s r < w_next_stream w'" by simp
  ultimately show ?thesis using inv map by (simp add: cursors_inv_def)
qed

lemma Rows_Next_fresh:
  assumes "winv w" "Rows_Next ev r w = ((rec, e), r', w')" "rec = Some (p, b)"
  shows "w_owner w p \<noteq> Some GoOwned"
proof
  assume go: "w_owner w p = Some GoOwned"
  have run: "\<not> r_ended r" using assms(2,3) Rows_Next_streams(4) [OF assms(2)] by auto
  obtain pp w1 where nx: "sable_next ev (r_s r) (r_ctx r) w = (pp, w1)" by fastforce
  from assms(2,3) run nx obtain q where q: "pp = Some q"
    by (cases pp) (auto simp: Rows_Next_def split: prod.splits)
  obtain rc w2 where i: "import_batch ev q w1 = (rc, w2)" by fastforce
  from assms(2,3) run nx q i have "q = p"
    by (cases rc) (auto simp: Rows_Next_def Let_def split: prod.splits)
  with nx q have n: "sable_next ev (r_s r) (r_ctx r) w = (Some p, w1)" by simp
  from own_ok_next [OF assms(1) n, of "{}"] go have "w_owner w1 p = Some GoOwned"
    using own_step_keep by (simp only: own_ok_def) blast
  moreover from sable_next_winv [OF assms(1) n] have "shells_inv w1" "p \<in> dom (w_shells w1)"
    by (auto simp: winv_held_def)
  ultimately show False using shells_inv_shell [of w1 p] by auto
qed

lemma held_step:
  assumes "held_inv w ps" "own_step {} w w'"
  shows "held_inv w' ps"
proof -
  have "w_owner w' p = Some GoOwned \<longleftrightarrow> w_owner w p = Some GoOwned" for p
    using own_step_keep [OF assms(2)] own_step_back [OF assms(2)] by blast
  then show ?thesis using assms(1) by (simp add: held_inv_def)
qed

lemma sinv_safe:
  assumes "sinv s" "safe_step ev {} (s_w s) w'" "same_streams (s_w s) w'"
  shows "sinv (s\<lparr>s_w := w'\<rparr>)"
  using assms held_step [of "s_w s" "s_held s" w'] cursors_same [of "s_w s" w' "s_rows s"]
  by (simp add: sinv_def safe_step_def)

lemma sinv_core: "sinv s \<Longrightarrow> same_core (s_w s) w' \<Longrightarrow> sinv (s\<lparr>s_w := w'\<rparr>)"
  by (rule sinv_safe) (auto simp: sinv_def safe_core same_streams_core)

lemma same_core_try: "sable_try_call ev op req w = (r, w') \<Longrightarrow> same_core w w'"
  by (auto simp: sable_try_call_def reject_def same_core_def [of w "w\<lparr>w_rejected := n\<rparr>" for n]
      dest: same_core_call split: if_splits)

lemma sinv_env: "sinv s \<Longrightarrow> sinv (s\<lparr>s_w := env_step ev e (s_w s)\<rparr>)"
proof (cases e)
  case (Produce h)
  assume s: "sinv s"
  then have "safe_step ev {} (s_w s) (producer_step ev h (s_w s))"
    by (intro safe_producer) (simp add: sinv_def)
  from sinv_safe [OF s this same_streams_producer] show ?thesis by (simp add: Produce)
next
  case (Cancel c x)
  assume "sinv s"
  then show ?thesis by (rule sinv_core) (simp add: Cancel same_core_def)
qed

lemma sinv_open_cursor:
  assumes "sinv s" "openStream db ctx op payload (s_w s) = (Inr r, w')"
  shows "sinv (s\<lparr>s_w := w', s_rows := s_rows s @ [r]\<rparr>)"
proof -
  obtain i w1 where q: "queryCtr_Add (s_w s) = (i, w1)" by fastforce
  then have c: "same_core (s_w s) w1" by (auto simp: queryCtr_Add_def same_core_def)
  obtain req where r: "sable_open_stream op req w1 = (Inr (r_s r), w')" "\<not> r_ended r"
    using assms(2) q by (auto simp: openStream_def split: prod.splits sum.splits)
  have inv: "winv (s_w s)" "cursors_inv (s_w s) (s_rows s)" "held_inv (s_w s) (s_held s)"
    using assms(1) by (simp_all add: sinv_def)
  have "winv w1" using inv(1) c by (simp add: same_core_winv)
  from safe_step_trans [OF safe_core [OF inv(1) c] safe_open_stream [OF this r(1)]]
  have safe: "safe_step ev {} (s_w s) w'" for ev :: "'a env" .
  then have "held_inv w' (s_held s)"
    using held_step [OF inv(3)] by (auto simp: safe_step_def)
  moreover have "winv w'" using safe by (simp add: safe_step_def)
  moreover have o: "opened h w' \<longleftrightarrow> opened h (s_w s) \<or> h = w_next_stream (s_w s)" for h
    using r(1) c by (auto simp: sable_open_stream_def opened_def same_core_def split: if_splits)
  moreover have n: "r_s r = w_next_stream (s_w s)" "w_next_stream w' = Suc (w_next_stream (s_w s))"
    using r(1) c by (auto simp: sable_open_stream_def same_core_def split: if_splits)
  have set: "{x \<in> set (s_rows s @ [r]). \<not> r_ended x} = insert r {x \<in> set (s_rows s). \<not> r_ended x}"
    using r(2) by auto
  have "{h. opened h w'} = insert (r_s r) {h. opened h (s_w s)}" using n(1) o by auto
  then have "cursors_inv w' (s_rows s @ [r])"
    using inv(2) n unfolding cursors_inv_def set by (auto intro: less_SucI)
  ultimately show ?thesis by (simp add: sinv_def)
qed

lemma sinv_next:
  assumes inv: "sinv s" and i: "i < length (s_rows s)"
    and n: "Rows_Next ev (s_rows s ! i) (s_w s) = ((rec, e), r', w')"
  shows "sinv (s\<lparr>s_w := w', s_rows := (s_rows s)[i := r'],
    s_held := (case rec of Some (p, b) \<Rightarrow> p # s_held s | None \<Rightarrow> s_held s)\<rparr>)"
proof -
  have s: "winv (s_w s)" "cursors_inv (s_w s) (s_rows s)" "held_inv (s_w s) (s_held s)"
    using inv by (simp_all add: sinv_def)
  note st = Rows_Next_streams [OF n]
  have c: "cursors_inv w' ((s_rows s)[i := r'])"
    by (rule cursors_update [OF s(2) i st(1)]) (use st(2-4) in \<open>cases "r_ended r'"; cases "r_ended (s_rows s ! i)"; simp\<close>)
  show ?thesis
  proof (cases rec)
    case None
    with safe_Rows_Next [OF s(1) n, of "{}"] held_step [OF s(3), of w'] c show ?thesis
      by (simp add: sinv_def safe_step_def)
  next
    case (Some pb)
    obtain p b where pb: "pb = (p, b)" by fastforce
    from safe_Rows_Next [OF s(1) n, of "{p}"] Some pb
    have f: "winv w'" "own_step {p} (s_w s) w'" "w_owner w' p = Some GoOwned"
      by (simp_all add: safe_step_def)
    have fresh: "w_owner (s_w s) p \<noteq> Some GoOwned"
      by (rule Rows_Next_fresh [OF s(1) n]) (simp add: Some pb)
    have "w_owner w' x = Some GoOwned \<longleftrightarrow> x = p \<or> w_owner (s_w s) x = Some GoOwned" for x
      using own_step_keep [OF f(2)] own_step_back [OF f(2)] f(3) by blast
    then have "held_inv w' (p # s_held s)"
      using s(3) fresh by (auto simp: held_inv_def)
    with f c show ?thesis by (simp add: sinv_def Some pb)
  qed
qed

inductive_cases reachableE: "reachable ev s"

lemma step_sinv: "step ev s s' \<Longrightarrow> sinv s \<Longrightarrow> sinv s'"
proof (induction rule: step.induct)
  case (Env s e)
  then show ?case by (rule sinv_env)
next
  case (OpenDb rq what s r w')
  then show ?case using same_core_open sinv_core by blast
next
  case (CloseDb s db)
  then show ?case by (rule sinv_core) (simp add: DB_Close_def imbhgo_close_def same_core_def)
next
  case (Call op req s r w')
  then show ?case using same_core_call sinv_core by blast
next
  case (TryCall op req s r w')
  then show ?case using same_core_try sinv_core by blast
next
  case (SetCap s n)
  then show ?case by (rule sinv_core) (simp add: SetMaxInFlight_def same_core_def)
next
  case (OpenCursor db ctx op payload s r w')
  then show ?case using sinv_open_cursor by blast
next
  case (Refused db ctx op payload s e w')
  have "same_core (s_w s) w'"
    using Refused.hyps by (auto simp: openStream_def queryCtr_Add_def sable_open_stream_def
        reject_def same_core_def split: if_splits prod.splits sum.splits)
  with Refused.prems show ?case by (rule sinv_core)
next
  case (NextRow i s p b e r' w')
  then show ?case using sinv_next [of s i ev "Some (p, b)" e r' w'] by simp
next
  case (NextEnd i s e r' w')
  then show ?case using sinv_next [of s i ev None e r' w'] by simp
next
  case (CloseCursor i s r' w')
  note c = closes_Rows_Close [OF CloseCursor.hyps(2)]
  have inv: "winv (s_w s)" "cursors_inv (s_w s) (s_rows s)" "held_inv (s_w s) (s_held s)"
    using CloseCursor.prems by (simp_all add: sinv_def)
  have safe: "safe_step ev {} (s_w s) w'"
    using safe_Rows_Close [OF inv(1), of ev "{}" ev "s_rows s ! i"] CloseCursor.hyps(2) by simp
  moreover have "cursors_inv w' ((s_rows s)[i := r'])"
    by (rule cursors_update [OF inv(2) CloseCursor.hyps(1)]) (use c in simp_all)
  ultimately show ?case using held_step [OF inv(3)] by (simp add: sinv_def safe_step_def)
next
  case (ReleaseRecord p s)
  have inv: "winv (s_w s)" "cursors_inv (s_w s) (s_rows s)" "held_inv (s_w s) (s_held s)"
    using ReleaseRecord.prems by (simp_all add: sinv_def)
  then have go: "w_owner (s_w s) p = Some GoOwned"
    using ReleaseRecord.hyps by (auto simp: held_inv_def)
  note r = safe_release [OF inv(1) go]
  have "same_streams (s_w s) (rec_release p (s_w s))"
    by (simp add: same_streams_def rec_release_def opened_def)
  with r inv show ?case by (auto simp: sinv_def cursors_same held_inv_def)
qed

lemma reachable_sinv: "reachable ev s \<Longrightarrow> sinv s"
  by (induction rule: reachable.induct) (auto simp: init_sinv intro: step_sinv)

lemma step_leak_free:
  "step ev s s' \<Longrightarrow> sinv s \<Longrightarrow> clean_imports ev \<Longrightarrow> leak_free (s_w s) \<Longrightarrow> leak_free (s_w s')"
proof (induction rule: step.induct)
  case (Env s e)
  then have "own_ok {} (s_w s) (env_step ev e (s_w s))"
    by (cases e) (simp_all add: sinv_def own_ok_producer own_ok_same)
  with Env show ?case by (simp add: own_ok_def)
next
  case (OpenDb rq what s r w')
  then have "own_ok {} (s_w s) w'" using same_core_open own_ok_core by blast
  with OpenDb show ?case by (simp add: own_ok_def)
next
  case (CloseDb s db)
  then show ?case by (simp add: DB_Close_def imbhgo_close_def leak_free_def)
next
  case (Call op req s r w')
  then have "own_ok {} (s_w s) w'" using same_core_call own_ok_core by blast
  with Call show ?case by (simp add: own_ok_def)
next
  case (TryCall op req s r w')
  then have "own_ok {} (s_w s) w'" using same_core_try own_ok_core by blast
  with TryCall show ?case by (simp add: own_ok_def)
next
  case (SetCap s n)
  then show ?case by (simp add: SetMaxInFlight_def leak_free_def)
next
  case (OpenCursor db ctx op payload s r w')
  then have "w_owner w' = w_owner (s_w s)"
    by (auto simp: openStream_def queryCtr_Add_def sable_open_stream_def
        reject_def split: if_splits prod.splits sum.splits)
  with OpenCursor show ?case by (simp add: leak_free_def)
next
  case (Refused db ctx op payload s e w')
  then have "w_owner w' = w_owner (s_w s)"
    by (auto simp: openStream_def queryCtr_Add_def sable_open_stream_def
        reject_def split: if_splits prod.splits sum.splits)
  with Refused show ?case by (simp add: leak_free_def)
next
  case (NextRow i s p b e r' w')
  then have "safe_step ev {p} (s_w s) w'"
    using safe_Rows_Next [of "s_w s" ev "s_rows s ! i" "Some (p, b)" e r' w' "{p}"]
    by (simp add: sinv_def)
  with NextRow show ?case by (simp add: safe_step_def own_ok_def)
next
  case (NextEnd i s e r' w')
  then have "safe_step ev {} (s_w s) w'"
    using safe_Rows_Next [of "s_w s" ev "s_rows s ! i" None e r' w' "{}"]
    by (simp add: sinv_def)
  with NextEnd show ?case by (simp add: safe_step_def own_ok_def)
next
  case (CloseCursor i s r' w')
  then have "safe_step ev {} (s_w s) w'"
    using safe_Rows_Close [of "s_w s" ev "{}" ev "s_rows s ! i"] by (simp add: sinv_def)
  with CloseCursor show ?case by (simp add: safe_step_def own_ok_def)
next
  case (ReleaseRecord p s)
  then have "w_owner (s_w s) p = Some GoOwned" by (auto simp: sinv_def held_inv_def)
  with ReleaseRecord show ?case by (simp add: sinv_def safe_release(3))
qed

lemma reachable_leak_free:
  assumes "reachable ev s" "clean_imports ev"
  shows "leak_free (s_w s)"
  using assms
proof (induction rule: reachable.induct)
  case init
  then show ?case by (simp add: init_sys_def init_world_def leak_free_def)
next
  case (steps s s')
  then show ?case using step_leak_free reachable_sinv by blast
qed

section \<open>The cursors a client has open\<close>

definition open_cursors :: "'db sys \<Rightarrow> nat" where
  "open_cursors s = length (filter (\<lambda>r. \<not> r_ended r) (s_rows s))"

lemma open_count_update:
  assumes "i < length rs" "\<not> r_ended r' \<longrightarrow> \<not> r_ended (rs ! i)"
  shows "length (filter (\<lambda>r. \<not> r_ended r) (rs[i := r'])) \<le> length (filter (\<lambda>r. \<not> r_ended r) rs)"
  using assms
proof (induction rs arbitrary: i)
  case (Cons a rs)
  show ?case
  proof (cases i)
    case (Suc j)
    with Cons.IH [of j] Cons.prems show ?thesis by simp
  qed (use Cons.prems in simp)
qed simp

lemma in_flight_cursors:
  assumes "sinv s"
  shows "w_in_flight (s_w s) = open_cursors s"
proof -
  let ?o = "filter (\<lambda>r. \<not> r_ended r) (s_rows s)"
  have c: "distinct (map r_s (s_rows s))" "{h. opened h (s_w s)} = r_s ` set ?o"
    using assms by (simp_all add: sinv_def cursors_inv_def)
  have "w_in_flight (s_w s) = card (set (map r_s ?o))"
    using assms c(2) by (simp add: sinv_def winv_def streams_inv_def)
  also have "\<dots> = length (map r_s ?o)"
    by (rule distinct_card) (rule distinct_map_filter_key [OF c(1)])
  finally show ?thesis by (simp add: open_cursors_def)
qed

lemma all_ended_quiet:
  assumes "sinv s" "\<forall>r\<in>set (s_rows s). r_ended r"
  shows "w_shells (s_w s) = Map.empty" "w_live_batches (s_w s) = 0" "w_in_flight (s_w s) = 0"
proof -
  have "{h. opened h (s_w s)} = {}" using assms by (auto simp: sinv_def cursors_inv_def)
  then have "queued (s_w s) = {}" using assms(1)
    by (auto simp: sinv_def winv_def streams_inv_def queued_def)
  then have "dom (w_shells (s_w s)) = {}" using assms(1) by (simp add: sinv_def winv_def)
  then show "w_shells (s_w s) = Map.empty" "w_live_batches (s_w s) = 0"
    using assms(1) by (auto simp: sinv_def winv_def shells_inv_def)
  show "w_in_flight (s_w s) = 0"
    using assms(2) in_flight_cursors [OF assms(1)] by (simp add: open_cursors_def)
qed

section \<open>A run for the witnesses\<close>

definition demo_next :: "((ptr \<times> batch) option \<times> goerr option) \<times> rows \<times> nat world" where
  "demo_next = (case demo_cursor ''ok'' of (r, w) \<Rightarrow> Rows_Next demo_env r w)"

definition demo_open :: "nat sys" where
  "demo_open = (case demo_cursor ''ok'' of (r, w) \<Rightarrow> \<lparr>s_w = w, s_rows = [r], s_held = []\<rparr>)"

definition demo_pulled :: "nat sys" where
  "demo_pulled = (case demo_next of (_, r, w) \<Rightarrow> \<lparr>s_w = w, s_rows = [r], s_held = [1]\<rparr>)"

definition demo_closed :: "nat sys" where
  "demo_closed = (case Rows_Close demo_env (s_rows demo_pulled ! 0) (s_w demo_pulled) of
     (r, w) \<Rightarrow> \<lparr>s_w = w, s_rows = [r], s_held = [1]\<rparr>)"

definition demo_done :: "nat sys" where
  "demo_done = demo_closed\<lparr>s_w := rec_release 1 (s_w demo_closed), s_held := []\<rparr>"

lemma demo_next_fst: "fst demo_next = (Some (1, demo_batch [''a'', ''b'']), None)"
  by code_simp

lemma demo_flags: "r_ended (s_rows demo_closed ! 0)" "map r_ended (s_rows demo_done) = [True]"
  by code_simp+

lemma demo_open_reachable: "reachable demo_env demo_open"
proof -
  have 1: "reachable demo_env (init_sys\<lparr>s_w := demo_db_world\<rparr>)"
    by (rule reachable.steps [OF reachable.init step.OpenDb [where rq = OpenMemory
            and what = "''open in-memory database''"
            and r = "fst (OpenInMemory demo_env init_world)"]])
      (simp add: init_sys_def demo_db_world_def OpenInMemory_def)
  have ok: "isl (fst (Query \<lparr>db_id = 1\<rparr> (Some 0) ''ok'' demo_db_world)) = False" by code_simp
  then obtain r w where q: "openStream \<lparr>db_id = 1\<rparr> (Some 0) opSQL ''ok'' demo_db_world = (Inr r, w)"
    by (cases "openStream \<lparr>db_id = 1\<rparr> (Some 0) opSQL ''ok'' demo_db_world"; cases "fst (openStream \<lparr>db_id = 1\<rparr> (Some 0) opSQL ''ok'' demo_db_world)")
      (auto simp: Query_def)
  from reachable.steps [OF 1 step.OpenCursor] q show ?thesis
    by (fastforce simp: init_sys_def demo_open_def demo_cursor_def Query_def)
qed

lemma demo_pulled_reachable: "reachable demo_env demo_pulled"
proof -
  obtain r w where c: "demo_cursor ''ok'' = (r, w)" by fastforce
  obtain r' w' where n: "Rows_Next demo_env r w = ((Some (1, demo_batch [''a'', ''b'']), None), r', w')"
    using demo_next_fst c by (cases "Rows_Next demo_env r w") (auto simp: demo_next_def)
  from reachable.steps [OF demo_open_reachable step.NextRow [where i = 0]] n c show ?thesis
    by (fastforce simp: demo_open_def demo_pulled_def demo_next_def)
qed

lemma demo_closed_reachable: "reachable demo_env demo_closed"
proof -
  obtain r w where c: "Rows_Close demo_env (s_rows demo_pulled ! 0) (s_w demo_pulled) = (r, w)" by fastforce
  have l: "demo_pulled = \<lparr>s_w = s_w demo_pulled, s_rows = [s_rows demo_pulled ! 0], s_held = [1]\<rparr>"
    by (simp add: demo_pulled_def split: prod.splits)
  from reachable.steps [OF demo_pulled_reachable step.CloseCursor [where i = 0, OF _ c]] c l
  have "reachable demo_env (demo_pulled\<lparr>s_w := w, s_rows := (s_rows demo_pulled)[0 := r]\<rparr>)"
    by (metis length_greater_0_conv list.discI select_convs(2))
  with l c show ?thesis
    by (metis (no_types, lifting) demo_closed_def list_update_code(2) old.prod.case select_convs(2) update_convs(1) update_convs(2))
qed

lemma demo_done_reachable: "reachable demo_env demo_done"
proof -
  have "s_held demo_closed = [1]" by (simp add: demo_closed_def split: prod.splits)
  from reachable.steps [OF demo_closed_reachable step.ReleaseRecord [where p = 1]] this
  show ?thesis by (simp add: demo_done_def)
qed

lemma demo_clean: "clean_imports demo_env"
  by (simp add: clean_imports_def demo_env_def)

definition demo_capped :: "nat sys" where
  "demo_capped = \<lparr>s_w = SetMaxInFlight 1 demo_db_world, s_rows = [], s_held = []\<rparr>"

definition demo_capped_open :: "nat sys" where
  "demo_capped_open =
     (case openStream \<lparr>db_id = 1\<rparr> (Some 0) opSQL ''ok'' (s_w demo_capped) of
        (Inr r, w) \<Rightarrow> \<lparr>s_w = w, s_rows = [r], s_held = []\<rparr>
      | (Inl e, w) \<Rightarrow> demo_capped)"

lemma demo_capped_reachable: "reachable demo_env demo_capped"
proof -
  have 1: "reachable demo_env (init_sys\<lparr>s_w := demo_db_world\<rparr>)"
    by (rule reachable.steps [OF reachable.init step.OpenDb [where rq = OpenMemory
            and what = "''open in-memory database''"
            and r = "fst (OpenInMemory demo_env init_world)"]])
      (simp add: init_sys_def demo_db_world_def OpenInMemory_def)
  from reachable.steps [OF 1 step.SetCap [where n = 1]] show ?thesis
    by (simp add: demo_capped_def init_sys_def)
qed

lemma demo_capped_step: "step demo_env demo_capped demo_capped_open"
proof -
  let ?o = "openStream \<lparr>db_id = 1\<rparr> (Some 0) opSQL ''ok'' (s_w demo_capped)"
  have "isl (fst ?o) = False" by code_simp
  then obtain r w where q: "?o = (Inr r, w)" by (cases ?o; cases "fst ?o") auto
  from step.OpenCursor [OF q] show ?thesis
    unfolding demo_capped_open_def q by (simp add: demo_capped_def)
qed

section \<open>The properties\<close>



text \<open>
  Once every cursor has ended (drained, failed, cancelled or closed early), no exported batch shell
  is left and no admission slot is held: the leak gate of the tests, for every reachable state.
\<close>
theorem ended_no_leak:
  assumes "reachable ev s" "\<forall>r\<in>set (s_rows s). r_ended r"
  shows "w_live_batches (s_w s) = 0 \<and> w_shells (s_w s) = Map.empty \<and> w_in_flight (s_w s) = 0"
  using all_ended_quiet [OF reachable_sinv [OF assms(1)] assms(2)] by simp

theorem ended_no_leak_witness:
  "w_live_batches (s_w demo_closed) = 0 \<and> w_in_flight (s_w demo_closed) = 0"
proof -
  have "\<forall>r\<in>set (s_rows demo_closed). r_ended r" by code_simp
  from ended_no_leak [OF demo_closed_reachable this] show ?thesis by simp
qed

text \<open>
  When failing imports release what they were given, every batch the engine ever exported ends up
  released, exactly once: after all cursors ended and the clients released the records they own, no
  buffers are owned by anyone and none are lost.
\<close>
theorem every_batch_released:
  assumes "reachable ev s" "clean_imports ev" "\<forall>r\<in>set (s_rows s). r_ended r" "s_held s = []"
    and "0 < p" "p < w_next_ptr (s_w s)"
  shows "w_owner (s_w s) p = Some Released"
proof -
  have inv: "sinv s" using assms(1) by (rule reachable_sinv)
  have "w_owner (s_w s) p \<noteq> None" using inv assms(5,6) by (auto simp: sinv_def winv_def shells_inv_def)
  moreover have "w_owner (s_w s) p \<noteq> Some RustOwned"
    using inv all_ended_quiet(1) [OF inv assms(3)] by (auto simp: sinv_def winv_def shells_inv_def)
  moreover have "w_owner (s_w s) p \<noteq> Some GoOwned" using inv assms(4) by (auto simp: sinv_def held_inv_def)
  moreover have "w_owner (s_w s) p \<noteq> Some Leaked"
    using reachable_leak_free [OF assms(1,2)] by (simp add: leak_free_def)
  moreover have "o' = None \<or> o' = Some RustOwned \<or> o' = Some GoOwned \<or> o' = Some Leaked \<or>
      o' = Some Released" for o' :: "owner option"
    by (cases o'; simp) (metis owner.exhaust)
  ultimately show ?thesis by metis
qed

theorem every_batch_released_witness:
  "w_owner (s_w demo_done) 1 = Some Released \<and> w_next_ptr (s_w demo_done) = 2"
proof -
  have n: "w_next_ptr (s_w demo_done) = 2" by code_simp
  have "\<forall>r\<in>set (s_rows demo_done). r_ended r" by code_simp
  from every_batch_released [OF demo_done_reachable demo_clean this, of 1] n show ?thesis
    by (simp add: demo_done_def)
qed



end
