(* ===== verification/Cursor.thy ===== *)
theory Cursor
  imports Ownership
begin

text \<open>
  What a client of \<open>db.go\<close> can rely on. A cursor is specified by its view: the batches still to come and
  the message of the error that ends it. Handlers advancing in any order, and other queries, leave the
  view alone (\<open>view_env\<close>); \<open>Next\<close> takes its first batch, or reports its error when none is left.
\<close>

section \<open>What a handler will send\<close>

text \<open>The reply of the handler for a payload on a looked-up database: items, or an error message.\<close>

definition handler_reply ::
  "'db env \<Rightarrow> u32 \<Rightarrow> bytes \<Rightarrow> 'db option \<Rightarrow> string + item list" where
  "handler_reply ev op payload found =
     (case (if op = opSQL then (if utf8_valid payload then None else Some ''invalid UTF-8 in SQL'')
            else ev_parse ev op payload) of
        Some e \<Rightarrow> Inl e
      | None \<Rightarrow>
          (case found of
             None \<Rightarrow> Inl ''unknown db handle''
           | Some db \<Rightarrow>
               if op = opSQL then ev_sql ev db payload
               else if op = opLogPage
               then map_sum id (\<lambda>(bs, meta). map Item bs) (ev_page ev db payload)
               else map_sum id (map Item) (ev_typed ev op db payload)))"

definition start_outcome ::
  "'db env \<Rightarrow> (u64 \<rightharpoonup> 'db) \<Rightarrow> u32 \<Rightarrow> bytes \<Rightarrow> (u64 \<times> (string + item list)) option" where
  "start_outcome ev dbs op req =
     (case split_stream_req req of
        None \<Rightarrow> None
      | Some (i, qid, payload) \<Rightarrow> Some (qid, handler_reply ev op payload (dbs i)))"

lemma start_handler_outcome:
  assumes "start_handler ev op req w = (w', t)"
  shows "case start_outcome ev (w_dbs w) op req of
      None \<Rightarrow> t = Done \<and> w_query_errors w' = w_query_errors w
    | Some (q, Inl e) \<Rightarrow> t = Done \<and> w_query_errors w' = (w_query_errors w)(q \<mapsto> e)
    | Some (q, Inr is) \<Rightarrow> t = Sending q is \<and> w_query_errors w' = w_query_errors w"
  using assms
  by (auto simp: start_handler_def sql_stream_start_def typed_stream_start_def log_page_start_def
      start_outcome_def handler_reply_def store_query_error_def store_page_meta_def
      split: if_splits option.splits sum.splits prod.splits)

fun items_plan :: "'db env \<Rightarrow> item list \<Rightarrow> batch list \<times> bytes option" where
  "items_plan ev [] = ([], None)"
| "items_plan ev (ItemErr e # r) = ([], Some e)"
| "items_plan ev (Item b # r) =
     (case ev_to_ffi ev b of
        Some e \<Rightarrow> ([], Some e)
      | None \<Rightarrow> (case items_plan ev r of (bs, e) \<Rightarrow> (b # bs, e)))"

fun task_plan :: "'db env \<Rightarrow> (u64 \<rightharpoonup> 'db) \<Rightarrow> task \<Rightarrow> batch list \<times> bytes option" where
  "task_plan ev dbs Done = ([], None)"
| "task_plan ev dbs (Sending q is) = items_plan ev is"
| "task_plan ev dbs (Start op req) =
     (case start_outcome ev dbs op req of
        None \<Rightarrow> ([], None)
      | Some (q, Inl e) \<Rightarrow> ([], Some e)
      | Some (q, Inr is) \<Rightarrow> items_plan ev is)"

fun task_qid :: "task \<Rightarrow> u64 option" where
  "task_qid Done = None"
| "task_qid (Sending q is) = Some q"
| "task_qid (Start op req) = map_option (fst \<circ> snd) (split_stream_req req)"

section \<open>The view of a cursor\<close>

definition stored :: "u64 \<Rightarrow> 'db world \<Rightarrow> bytes" where
  "stored q w = (case w_query_errors w q of Some e \<Rightarrow> e | None \<Rightarrow> [])"

definition rows_view :: "'db env \<Rightarrow> rows \<Rightarrow> 'db world \<Rightarrow> batch list \<times> bytes" where
  "rows_view ev r w =
     (case w_streams w (r_s r) of
        None \<Rightarrow> ([], [])
      | Some st \<Rightarrow>
          (case task_plan ev (w_dbs w) (st_task st) of (bs, e) \<Rightarrow>
             (map (\<lambda>p. the (w_shells w p)) (st_buf st) @ bs,
              case e of Some m \<Rightarrow> m | None \<Rightarrow> stored (r_queryID r) w)))"

lemma stored_put [simp]: "stored q (put_stream h st w) = stored q w"
  by (simp add: stored_def)

text \<open>No other stream reports under this query id.\<close>

definition qid_private :: "nat \<Rightarrow> u64 \<Rightarrow> 'db world \<Rightarrow> bool" where
  "qid_private h q w \<longleftrightarrow>
     (\<forall>h' st. w_streams w h' = Some st \<longrightarrow>
        (if h' = h then task_qid (st_task st) \<in> {None, Some q} else task_qid (st_task st) \<noteq> Some q))"

definition live_cursor :: "rows \<Rightarrow> 'db world \<Rightarrow> bool" where
  "live_cursor r w \<longleftrightarrow> winv w \<and> \<not> r_ended r \<and> opened (r_s r) w \<and> qid_private (r_s r) (r_queryID r) w"

lemma qid_private_cong: "w_streams w' = w_streams w \<Longrightarrow> qid_private h q w' = qid_private h q w"
  by (simp add: qid_private_def)

lemma qid_private_put:
  assumes "qid_private h q w" "w_streams w h' = Some st0"
    and "task_qid (st_task st) = None \<or> task_qid (st_task st) = task_qid (st_task st0)"
    and "w_streams w' = w_streams w"
  shows "qid_private h q (put_stream h' st w')"
  unfolding qid_private_def
proof (intro allI impI)
  fix k s
  assume k: "w_streams (put_stream h' st w') k = Some s"
  show "if k = h then task_qid (st_task s) \<in> {None, Some q} else task_qid (st_task s) \<noteq> Some q"
  proof (cases "k = h'")
    case True
    with k have "s = st" by simp
    moreover have "if h' = h then task_qid (st_task st0) \<in> {None, Some q}
        else task_qid (st_task st0) \<noteq> Some q"
      by (rule assms(1) [unfolded qid_private_def, rule_format, OF assms(2)])
    ultimately show ?thesis using assms(3) True by auto
  next
    case False
    with k assms(4) have "w_streams w k = Some s" by simp
    then show ?thesis by (rule assms(1) [unfolded qid_private_def, rule_format])
  qed
qed

lemma outcome_qid:
  "start_outcome ev dbs op req = Some (q, x) \<Longrightarrow> task_qid (Start op req) = Some q"
  by (auto simp: start_outcome_def split: option.splits prod.splits)

lemma view_producer_same:
  assumes inv: "winv w" and q: "task_qid (st_task st) \<in> {None, Some (r_queryID r)}"
    and st: "w_streams w (r_s r) = Some st" "st_open st"
  shows "rows_view ev r (producer_step ev (r_s r) w) = rows_view ev r w"
proof (cases "st_task st")
  case (Start op req)
  obtain w' t where s: "start_handler ev op req w = (w', t)" by fastforce
  note f = start_handler_frame [OF s] and o = start_handler_outcome [OF s]
  have same: "w_dbs w' = w_dbs w" "w_shells w' = w_shells w"
    by (subst f, simp)+
  show ?thesis
  proof (cases "start_outcome ev (w_dbs w) op req")
    case None
    with o Start s st same show ?thesis
      by (simp add: producer_step_def rows_view_def stored_def)
  next
    case (Some qx)
    obtain k x where qx: "qx = (k, x)" by fastforce
    with Some have "task_qid (Start op req) = Some k" using outcome_qid by blast
    with q Start have "k = r_queryID r" by auto
    with o Start s st same Some qx show ?thesis
      by (cases x) (auto simp: producer_step_def rows_view_def stored_def split: option.splits prod.splits)
  qed
next
  case (Sending k "is")
  with q have k: "k = r_queryID r" by simp
  show ?thesis
  proof (cases "is")
    case Nil
    with Sending st show ?thesis by (simp add: producer_step_def rows_view_def stored_def)
  next
    case (Cons i rest)
    show ?thesis
    proof (cases i)
      case (ItemErr e)
      with Sending Cons st k show ?thesis
        by (simp add: producer_step_def rows_view_def stored_def store_query_error_def)
    next
      case (Item b)
      show ?thesis
      proof (cases "export_batch ev b w")
        case (Inl e)
        then have "ev_to_ffi ev b = Some e" by (auto simp: export_batch_def Let_def split: option.splits)
        with Inl Sending Cons Item st k show ?thesis
          by (simp add: producer_step_def rows_view_def stored_def store_query_error_def)
      next
        case (Inr pw)
        obtain p w' where pw: "pw = (p, w')" by fastforce
        with Inr have e: "export_batch ev b w = Inr (p, w')" by simp
        note c = export_batch_cases [OF e]
        have "set (buf_of (r_s r) w) \<subseteq> dom (w_shells w)"
          using inv by (auto simp: winv_def queued_def)
        then have "p \<notin> set (st_buf st)"
          using st shells_inv_export(3) [of w, OF _ e] inv by (auto simp: winv_def)
        then have "map (\<lambda>x. the (w_shells w' x)) (st_buf st) = map (\<lambda>x. the (w_shells w x)) (st_buf st)"
          by (auto simp: c(3))
        moreover have s': "w_dbs w' = w_dbs w" "w_shells w' p = Some b" "stored k w' = stored k w" for k
          by (simp_all add: c(3) stored_def)
        ultimately show ?thesis using e Sending Cons Item st c(2)
          by (auto simp: producer_step_def rows_view_def s' split: prod.splits option.splits)
      qed
    qed
  qed
qed (use st in \<open>simp add: producer_step_def\<close>)

lemma view_producer_other:
  assumes inv: "winv w" and priv: "qid_private (r_s r) (r_queryID r) w" and other: "h' \<noteq> r_s r"
  shows "rows_view ev r (producer_step ev h' w) = rows_view ev r w"
proof (cases "w_streams w h'")
  case (Some st)
  have q: "task_qid (st_task st) \<noteq> Some (r_queryID r)"
    using priv other Some by (auto simp: qid_private_def split: if_splits)
  have sub: "set (buf_of (r_s r) w) \<subseteq> dom (w_shells w)"
    using inv by (auto simp: winv_def queued_def)
  have view: "rows_view ev r w' = rows_view ev r w"
    if "w_streams w' (r_s r) = w_streams w (r_s r)" "w_dbs w' = w_dbs w"
      "\<And>p. p \<in> dom (w_shells w) \<Longrightarrow> w_shells w' p = w_shells w p"
      "w_query_errors w' (r_queryID r) = w_query_errors w (r_queryID r)" for w'
    using that sub by (auto simp: rows_view_def stored_def buf_of_def subset_iff
        split: option.splits prod.splits)
  show ?thesis
  proof (rule view)
    note f = start_handler_frame
    have slot: "w_query_errors w' (r_queryID r) = w_query_errors w (r_queryID r)"
      if "start_handler ev op req w = (w', t)" "st_task st = Start op req" for op req w' t
      using start_handler_outcome [OF that(1)] outcome_qid [of ev "w_dbs w" op req] q that(2)
      by (cases "start_outcome ev (w_dbs w) op req") (auto split: sum.splits)
    have dbs: "w_dbs w' = w_dbs w \<and> w_shells w' = w_shells w \<and> w_streams w' = w_streams w"
      if "start_handler ev op req w = (w', t)" for op req w' t
      by (subst start_handler_frame [OF that], subst (2) start_handler_frame [OF that],
          subst (3) start_handler_frame [OF that]) simp
    have fresh: "w_shells w (w_next_ptr w) = None"
      using inv shells_inv_fresh by (auto simp: winv_def)
    show "w_streams (producer_step ev h' w) (r_s r) = w_streams w (r_s r)"
      using other Some dbs
      by (auto simp: producer_step_def batch_release_def export_batch_def Let_def
          split: task.splits list.splits item.splits sum.splits prod.splits option.splits)
    show "w_dbs (producer_step ev h' w) = w_dbs w"
      using Some dbs
      by (auto simp: producer_step_def batch_release_def export_batch_def Let_def store_query_error_def
          split: task.splits list.splits item.splits sum.splits prod.splits option.splits)
    show "w_shells (producer_step ev h' w) p = w_shells w p" if "p \<in> dom (w_shells w)" for p
      using Some dbs fresh that
      by (auto simp: producer_step_def batch_release_def export_batch_def Let_def store_query_error_def
          split: task.splits list.splits item.splits sum.splits prod.splits option.splits)
    show "w_query_errors (producer_step ev h' w) (r_queryID r) = w_query_errors w (r_queryID r)"
      using Some slot q
      by (auto simp: producer_step_def batch_release_def export_batch_def Let_def store_query_error_def
          split: task.splits list.splits item.splits sum.splits prod.splits option.splits)
  qed
qed (simp add: producer_step_def)

lemma qid_private_producer:
  assumes "qid_private h q w"
  shows "qid_private h q (producer_step ev h' w)"
proof (cases "w_streams w h'")
  case (Some st)
  have dbs: "w_streams w' = w_streams w"
    if "start_handler ev op req w = (w', t)" for op req w' t
    using same_core_start [OF that] by (simp add: same_core_def)
  have tq: "task_qid t = None \<or> task_qid t = task_qid (Start op req)"
    if "start_handler ev op req w = (w', t)" for op req w' t
    using start_handler_outcome [OF that] outcome_qid [of ev "w_dbs w" op req]
    by (cases "start_outcome ev (w_dbs w) op req") (auto split: sum.splits simp del: task_qid.simps(3))
  show ?thesis
  proof (cases "st_task st")
    case (Start op req)
    obtain w' t where s: "start_handler ev op req w = (w', t)" by fastforce
    from qid_private_put [OF assms Some _ dbs [OF s], of "st\<lparr>st_task := t\<rparr>"] tq [OF s] Start s Some
    show ?thesis by (simp add: producer_step_def)
  next
    case (Sending k "is")
    have key: "qid_private h q (put_stream h' st' w')"
      if "w_streams w' = w_streams w" "task_qid (st_task st') = None \<or> task_qid (st_task st') = Some k" for st' w'
      using qid_private_put [OF assms Some _ that(1), of st'] that(2) Sending by simp
    show ?thesis
      using Some Sending
      by (auto simp: producer_step_def batch_release_def export_batch_def Let_def intro!: key
          split: list.splits item.splits option.splits)
  qed (use assms Some in \<open>simp add: producer_step_def\<close>)
qed (use assms in \<open>simp add: producer_step_def\<close>)

section \<open>The view survives the environment\<close>

lemma ctx_producer [simp]: "w_ctx (producer_step ev h w) = w_ctx w"
proof -
  have start: "w_ctx w' = w_ctx w" if "start_handler ev op req w = (w', t)" for op req w' t
    by (subst start_handler_frame [OF that]) simp
  show ?thesis
    by (auto simp: producer_step_def start batch_release_def export_batch_def Let_def store_query_error_def
        split: option.splits task.splits list.splits item.splits sum.splits prod.splits)
qed

lemma live_producer:
  assumes "live_cursor r w"
  shows "live_cursor r (producer_step ev h w)" "rows_view ev r (producer_step ev h w) = rows_view ev r w"
proof -
  have w: "winv w" "\<not> r_ended r" "opened (r_s r) w" "qid_private (r_s r) (r_queryID r) w"
    using assms by (simp_all add: live_cursor_def)
  then show "live_cursor r (producer_step ev h w)"
    by (simp add: live_cursor_def winv_producer opened_producer qid_private_producer)
  show "rows_view ev r (producer_step ev h w) = rows_view ev r w"
  proof (cases "h = r_s r")
    case True
    from w(3) obtain st where st: "w_streams w (r_s r) = Some st" "st_open st"
      by (auto simp: opened_def)
    have "task_qid (st_task st) \<in> {None, Some (r_queryID r)}"
      using w(4) [unfolded qid_private_def, rule_format, OF st(1)] by simp
    from view_producer_same [OF w(1) this st] True show ?thesis by simp
  next
    case False
    with view_producer_other [OF w(1,4)] show ?thesis by simp
  qed
qed

lemma live_env:
  assumes "live_cursor r w"
  shows "live_cursor r (env_step ev e w) \<and> rows_view ev r (env_step ev e w) = rows_view ev r w"
proof (cases e)
  case (Produce h)
  with live_producer [OF assms] show ?thesis by simp
next
  case (Cancel c x)
  have "winv (env_step ev e w) = winv w"
    by (rule same_core_winv) (simp add: Cancel same_core_def)
  moreover have "w_streams (env_step ev e w) = w_streams w" by (simp add: Cancel)
  moreover have "rows_view ev r (env_step ev e w) = rows_view ev r w"
    by (simp add: Cancel rows_view_def stored_def cong: option.case_cong)
  moreover note qid_private_cong [OF calculation(2)]
  ultimately show ?thesis using assms
    by (simp only: live_cursor_def opened_def simp_thms)
qed

lemma live_env_run:
  "live_cursor r w \<Longrightarrow> live_cursor r (env_run ev es w) \<and> rows_view ev r (env_run ev es w) = rows_view ev r w"
proof (induction es arbitrary: w)
  case (Cons e es)
  from live_env [OF Cons.prems, of ev e] Cons.IH [of "env_step ev e w"] show ?case
    by (simp add: env_run_def)
qed (simp add: env_run_def)

section \<open>Receiving follows the view\<close>

lemma next_w_ctx: "sable_next ev h c w = (x, w') \<Longrightarrow> w_ctx w' = w_ctx w"
proof (induction ev h c w rule: sable_next.induct)
  case (1 ev h c w)
  show ?case
  proof (cases "\<exists>st. w_streams w h = Some st \<and> st_open st \<and> ctx_err c w = None \<and> st_buf st = [] \<and>
      st_task st \<noteq> Done")
    case False
    with 1(2) show ?thesis
      by (auto simp: sable_next.simps [of ev h c w] split: option.splits if_splits list.splits)
  next
    case True
    then obtain st where st: "w_streams w h = Some st" "st_open st" "st_buf st = []" "st_task st \<noteq> Done"
      "ctx_err c w = None" by auto
    have "sable_next ev h c (producer_step ev h w) = (x, w')"
      using 1(2) st by (simp add: sable_next.simps [of ev h c w])
    from 1(1) [OF st(1) _ _ st(3,4) this] st show ?thesis by simp
  qed
qed

lemma ctx_err_cong: "w_ctx w' = w_ctx w \<Longrightarrow> ctx_err c w' = ctx_err c w"
  by (simp add: ctx_err_def split: option.splits)

lemma next_ctx: "sable_next ev h c w = (x, w') \<Longrightarrow> ctx_err d w' = ctx_err d w"
  by (rule ctx_err_cong [OF next_w_ctx])

text \<open>A receive pops the first batch of the view, or ends with the view unchanged.\<close>

definition popped :: "'db env \<Rightarrow> rows \<Rightarrow> 'db world \<Rightarrow> ptr \<Rightarrow> 'db world \<Rightarrow> bool" where
  "popped ev r w p w' \<longleftrightarrow>
     (\<exists>b bs. rows_view ev r w = (b # bs, snd (rows_view ev r w)) \<and> w_shells w' p = Some b \<and>
        winv_held p w' \<and> rows_view ev r w' = (bs, snd (rows_view ev r w)) \<and>
        opened (r_s r) w' \<and> qid_private (r_s r) (r_queryID r) w')"

lemma sable_next_cases:
  assumes "live_cursor r w" "sable_next ev (r_s r) c w = (x, w')"
  shows "case x of
      Some p \<Rightarrow> popped ev r w p w'
    | None \<Rightarrow> live_cursor r w' \<and> rows_view ev r w' = rows_view ev r w \<and>
        (ctx_err c w' \<noteq> None \<or>
         rows_view ev r w = ([], snd (rows_view ev r w)) \<and> stored (r_queryID r) w' = snd (rows_view ev r w))"
  using assms
proof (induction ev "r_s r" c w rule: sable_next.induct)
  case (1 ev c w)
  from 1(2) obtain st where st: "w_streams w (r_s r) = Some st" "st_open st" "winv w"
    "qid_private (r_s r) (r_queryID r) w"
    by (auto simp: live_cursor_def opened_def)
  show ?case
  proof (cases "ctx_err c w \<noteq> None \<and> \<not> (ev_ready_wins ev \<and> st_buf st \<noteq> [])")
    case True
    with 1(3) st have "x = None" "w' = w" by (simp_all add: sable_next.simps [of ev "r_s r" c w])
    with True 1(2) show ?thesis by simp
  next
    case go: False
    show ?thesis
    proof (cases "st_buf st")
      case (Cons p ps)
      let ?w = "put_stream (r_s r) (st\<lparr>st_buf := ps\<rparr>) w"
      have x: "x = Some p" "w' = ?w"
        using 1(3) st Cons go by (auto simp: sable_next.simps [of ev "r_s r" c w])
      note held = winv_pop [OF st(3,1) Cons st(2)]
      have "p \<in> dom (w_shells w)"
        using held by (auto simp: winv_held_def)
      then obtain b where b: "w_shells w p = Some b" by auto
      have "qid_private (r_s r) (r_queryID r) ?w"
        by (rule qid_private_put [OF st(4,1)]) simp_all
      then show ?thesis using x held b st Cons
        by (simp add: popped_def rows_view_def split: prod.splits option.splits)
    next
      case Nil
      show ?thesis
      proof (cases "st_task st = Done")
        case True
        then have "x = None" "w' = w"
          using 1(3) st Nil go by (auto simp: sable_next.simps [of ev "r_s r" c w])
        with True Nil st 1(2) show ?thesis by (simp add: rows_view_def)
      next
        case False
        have n: "sable_next ev (r_s r) c (producer_step ev (r_s r) w) = (x, w')"
          using 1(3) st Nil False go by (auto simp: sable_next.simps [of ev "r_s r" c w])
        note l = live_producer [OF 1(2), of ev "r_s r"]
        from 1(1) [OF st(1) _ _ Nil False l(1) n, unfolded popped_def l(2)] st(2) go
        show ?thesis unfolding popped_def by simp
      qed
    qed
  qed
qed

lemma sable_next_view:
  assumes "live_cursor r w" "ctx_err c w = None" "sable_next ev (r_s r) c w = (x, w')"
  shows "case fst (rows_view ev r w) of
      [] \<Rightarrow> x = None \<and> rows_view ev r w' = ([], snd (rows_view ev r w)) \<and>
        stored (r_queryID r) w' = snd (rows_view ev r w) \<and> live_cursor r w'
    | b # bs \<Rightarrow> \<exists>p. x = Some p \<and> w_shells w' p = Some b \<and> winv_held p w' \<and>
        rows_view ev r w' = (bs, snd (rows_view ev r w)) \<and>
        opened (r_s r) w' \<and> qid_private (r_s r) (r_queryID r) w'"
proof (cases x)
  case None
  have "ctx_err c w' = None" using next_ctx [OF assms(3)] assms(2) by simp
  with sable_next_cases [OF assms(1,3)] None
  have "live_cursor r w'" "rows_view ev r w' = rows_view ev r w"
    "rows_view ev r w = ([], snd (rows_view ev r w))" "stored (r_queryID r) w' = snd (rows_view ev r w)"
    by simp_all
  then show ?thesis using None by (cases "rows_view ev r w") simp
next
  case (Some p)
  with sable_next_cases [OF assms(1,3)] obtain b bs where "rows_view ev r w = (b # bs, snd (rows_view ev r w))"
    "w_shells w' p = Some b" "winv_held p w'" "rows_view ev r w' = (bs, snd (rows_view ev r w))"
    "opened (r_s r) w'" "qid_private (r_s r) (r_queryID r) w'" by (auto simp: popped_def)
  then show ?thesis using Some by (cases "rows_view ev r w") simp
qed

section \<open>Next and finish\<close>

definition query_err :: "bytes \<Rightarrow> goerr option" where
  "query_err m = (if m = [] then None else Some (ErrorString (''imbhgo: query failed: '' @ m)))"

definition slot_fetch_ok :: "'db env \<Rightarrow> u64 \<Rightarrow> bool" where
  "slot_fetch_ok ev q \<longleftrightarrow> ev_call_err ev opQueryError (put64 q) = None"

lemma takeStoredError_ok:
  "slot_fetch_ok ev q \<Longrightarrow>
     takeStoredError ev q w = (Inr (stored q w), w\<lparr>w_query_errors := (w_query_errors w)(q := None)\<rparr>)"
  by (simp add: takeStoredError_def sable_call_def byte_handler_def slot_fetch_ok_def
      query_error_handler_def Let_def stored_def)

lemma fetchQueryError_ok:
  "slot_fetch_ok ev (r_queryID r) \<Longrightarrow>
     fetchQueryError ev r w = (query_err (stored (r_queryID r) w),
       w\<lparr>w_query_errors := (w_query_errors w)(r_queryID r := None)\<rparr>)"
  by (simp add: fetchQueryError_def takeStoredError_ok query_err_def)

text \<open>The terminal error: an import error, then the context's, then the stored one.\<close>

definition terminal_err :: "goerr option \<Rightarrow> goerr option \<Rightarrow> bytes \<Rightarrow> goerr option" where
  "terminal_err ie ce m =
     (case ie of Some e \<Rightarrow> Some e | None \<Rightarrow> (case ce of Some e \<Rightarrow> Some e | None \<Rightarrow> query_err m))"

lemma finish_ok:
  assumes "slot_fetch_ok ev (r_queryID r)"
  shows "finish ev ie r w =
    (let e = terminal_err ie (ctx_err (r_ctx r) w) (stored (r_queryID r) w)
     in (e, r\<lparr>r_err := e, r_ended := True\<rparr>,
         sable_close (r_s r) (w\<lparr>w_query_errors := (w_query_errors w)(r_queryID r := None)\<rparr>)))"
proof -
  have "ctx_err c (w\<lparr>w_query_errors := x\<rparr>) = ctx_err c w" for c x
    by (simp add: ctx_err_def split: option.splits)
  then show ?thesis
    by (simp add: finish_def fetchQueryError_ok [OF assms] Rows_Close_def terminal_err_def Let_def
        split: option.splits)
qed

lemma release_fold_errors:
  "w_query_errors (fold batch_release ps w) = w_query_errors w \<and> w_ctx (fold batch_release ps w) = w_ctx w"
  by (induction ps arbitrary: w) (simp_all add: batch_release_def)

lemma close_errors [simp]: "w_query_errors (sable_close h w) = w_query_errors w"
  by (simp add: sable_close_def release_fold_errors split: option.splits)

lemma close_not_opened [simp]: "\<not> opened h (sable_close h w)"
  by (auto simp: sable_close_def opened_def put_stream_def split: option.splits)

lemma import_ok_view:
  assumes "winv_held p w" "w_shells w p = Some b" "ev_import ev b = ImportOk"
    and "opened (r_s r) w" "qid_private (r_s r) (r_queryID r) w" "\<not> r_ended r"
  shows "\<exists>w2. import_batch ev p w = (Inr b, w2) \<and> live_cursor r (shell_free p w2) \<and>
    rows_view ev r (shell_free p w2) = rows_view ev r w \<and> w_ctx (shell_free p w2) = w_ctx w \<and>
    w_owner (shell_free p w2) p = Some GoOwned"
proof -
  let ?w2 = "w\<lparr>w_owner := (w_owner w)(p \<mapsto> GoOwned)\<rparr>"
  have i: "import_batch ev p w = (Inr b, ?w2)" using assms(2,3) by (simp add: import_batch_def)
  have "0 < p" using assms(1) shells_inv_shell [OF _ assms(2)] by (simp add: winv_held_def)
  then have f: "shell_free p ?w2 = w\<lparr>w_owner := (w_owner w)(p \<mapsto> GoOwned),
      w_shells := (w_shells w)(p := None), w_live_batches := w_live_batches w - 1\<rparr>"
    using assms(2) by (simp add: shell_free_def)
  have "p \<notin> set (buf_of (r_s r) w)" using assms(1) by (auto simp: winv_held_def queued_def)
  then have "rows_view ev r (shell_free p ?w2) = rows_view ev r w"
    by (auto simp: f rows_view_def stored_def buf_of_def split: option.splits prod.splits)
  moreover have "winv (shell_free p ?w2)" by (rule import_free(1) [OF assms(1) i])
  moreover have "qid_private (r_s r) (r_queryID r) (shell_free p ?w2)"
    by (subst qid_private_cong [of _ w]) (simp_all add: f assms(5))
  ultimately have "live_cursor r (shell_free p ?w2) \<and> rows_view ev r (shell_free p ?w2) = rows_view ev r w"
    using assms(4,6) by (simp add: live_cursor_def) (simp add: f opened_def)
  moreover have "w_ctx (shell_free p ?w2) = w_ctx w \<and> w_owner (shell_free p ?w2) p = Some GoOwned"
    by (simp add: f)
  ultimately show ?thesis using i by blast
qed

lemma ctx_take [simp]: "w_ctx (snd (takeStoredError ev q w)) = w_ctx w"
  by (auto simp: takeStoredError_def sable_call_def byte_handler_def query_error_handler_def Let_def
      split: option.splits prod.splits sum.splits)

lemma ctx_close [simp]: "w_ctx (sable_close h w) = w_ctx w"
  by (simp add: sable_close_def release_fold_errors split: option.splits)

lemma ctx_Rows_Close: "w_ctx (snd (Rows_Close ev r w)) = w_ctx w"
  by (simp add: Rows_Close_def Let_def)

lemma ctx_import_free:
  "import_batch ev p w = (x, w') \<Longrightarrow> w_ctx (shell_free p w') = w_ctx w"
  by (auto simp: import_batch_def shell_free_def split: option.splits import_outcome.splits if_splits)

lemma Rows_Next_cases:
  assumes live: "live_cursor r w" and slot: "slot_fetch_ok ev (r_queryID r)"
    and imp: "\<And>b. ev_import ev b = ImportOk"
    and n: "Rows_Next ev r w = ((rec, e), r', w')"
  shows "w_ctx w' = w_ctx w \<and>
    (case rec of
       Some (p, b) \<Rightarrow> e = None \<and> r' = r \<and> live_cursor r w' \<and>
         rows_view ev r w = (b # fst (rows_view ev r w'), snd (rows_view ev r w'))
     | None \<Rightarrow> (case ctx_err (r_ctx r) w of
           Some x \<Rightarrow> e = Some x
         | None \<Rightarrow> rows_view ev r w = ([], snd (rows_view ev r w)) \<and> e = query_err (snd (rows_view ev r w))))"
proof -
  obtain x w1 where sn: "sable_next ev (r_s r) (r_ctx r) w = (x, w1)" by fastforce
  note c = sable_next_cases [OF live sn] and ctx = next_ctx [OF sn] and wctx = next_w_ctx [OF sn]
  have run: "\<not> r_ended r" using live by (simp add: live_cursor_def)
  show ?thesis
  proof (cases x)
    case None
    with n run sn finish_ok [OF slot, of None w1]
    have "rec = None" "e = terminal_err None (ctx_err (r_ctx r) w1) (stored (r_queryID r) w1)"
      "w_ctx w' = w_ctx w1"
      by (auto simp: Rows_Next_def Let_def)
    with c None ctx wctx show ?thesis
      by (auto simp: terminal_err_def split: option.splits)
  next
    case (Some p)
    with c obtain b bs where p: "rows_view ev r w = (b # bs, snd (rows_view ev r w))"
      "w_shells w1 p = Some b" "winv_held p w1" "rows_view ev r w1 = (bs, snd (rows_view ev r w))"
      "opened (r_s r) w1" "qid_private (r_s r) (r_queryID r) w1" by (auto simp: popped_def)
    from import_ok_view [OF p(3,2) imp p(5,6) run] obtain w2 where
      i: "import_batch ev p w1 = (Inr b, w2)" "live_cursor r (shell_free p w2)"
      "rows_view ev r (shell_free p w2) = rows_view ev r w1" "w_ctx (shell_free p w2) = w_ctx w1"
      by auto
    with n run sn Some have "rec = Some (p, b)" "e = None" "r' = r" "w' = shell_free p w2"
      by (auto simp: Rows_Next_def Let_def)
    with i p(1,4) wctx show ?thesis by simp
  qed
qed

lemma Rows_Next_view:
  assumes live: "live_cursor r w" and ctx: "ctx_err (r_ctx r) w = None"
    and slot: "slot_fetch_ok ev (r_queryID r)" and imp: "\<And>b. ev_import ev b = ImportOk"
  shows "case rows_view ev r w of
      (b # bs, e) \<Rightarrow> \<exists>p w'. Rows_Next ev r w = ((Some (p, b), None), r, w') \<and>
        live_cursor r w' \<and> rows_view ev r w' = (bs, e) \<and> w_owner w' p = Some GoOwned
    | ([], e) \<Rightarrow> \<exists>w'. Rows_Next ev r w =
        ((None, query_err e), r\<lparr>r_err := query_err e, r_ended := True\<rparr>, w') \<and>
        w_query_errors w' (r_queryID r) = None \<and> \<not> opened (r_s r) w'"
proof -
  obtain x w1 where n: "sable_next ev (r_s r) (r_ctx r) w = (x, w1)" by fastforce
  note v = sable_next_view [OF live ctx n]
  have run: "\<not> r_ended r" using live by (simp add: live_cursor_def)
  obtain bs e where view: "rows_view ev r w = (bs, e)" by fastforce
  have ctx1: "ctx_err (r_ctx r) w1 = None" using next_ctx [OF n] ctx by simp
  show ?thesis
  proof (cases bs)
    case Nil
    with v view have 1: "x = None" "stored (r_queryID r) w1 = e" by simp_all
    with n run finish_ok [OF slot, of None w1] ctx1 view Nil show ?thesis
      by (simp add: Rows_Next_def Let_def terminal_err_def)
  next
    case (Cons b bs')
    with v view obtain p where p: "x = Some p" "w_shells w1 p = Some b" "winv_held p w1"
      "rows_view ev r w1 = (bs', e)" "opened (r_s r) w1" "qid_private (r_s r) (r_queryID r) w1"
      by auto
    from import_ok_view [OF p(3,2) imp p(5,6) run] obtain w2 where
      "import_batch ev p w1 = (Inr b, w2)" "live_cursor r (shell_free p w2)"
      "rows_view ev r (shell_free p w2) = (bs', e)" "w_owner (shell_free p w2) p = Some GoOwned"
      using p(4) by auto
    with n run p(1) view Cons show ?thesis by (simp add: Rows_Next_def Let_def)
  qed
qed

section \<open>Opening\<close>

definition reply_view :: "'db env \<Rightarrow> string + item list \<Rightarrow> batch list \<times> bytes" where
  "reply_view ev x =
     (case x of Inl e \<Rightarrow> ([], e)
      | Inr is \<Rightarrow> (case items_plan ev is of (bs, e) \<Rightarrow> (bs, case e of Some m \<Rightarrow> m | None \<Rightarrow> [])))"

definition qid_fresh :: "u64 \<Rightarrow> 'db world \<Rightarrow> bool" where
  "qid_fresh q w \<longleftrightarrow> w_query_errors w q = None \<and>
     (\<forall>h st. w_streams w h = Some st \<longrightarrow> task_qid (st_task st) \<noteq> Some q)"

lemma openStream_ok:
  assumes "winv w" "admits w" "qid_fresh (w_query_ctr w + 1) w"
  shows "\<exists>r w'. openStream db ctx op payload w = (Inr r, w') \<and> live_cursor r w' \<and>
    r_ctx r = ctx \<and> r_queryID r = w_query_ctr w + 1 \<and> w_ctx w' = w_ctx w \<and>
    rows_view ev r w' = reply_view ev (handler_reply ev op payload (w_dbs w (db_id db)))"
proof -
  let ?q = "w_query_ctr w + 1"
  let ?h = "w_next_stream w"
  let ?st = "\<lparr>st_task = Start op (stream_frame (db_id db) ?q payload), st_buf = [], st_open = True\<rparr>"
  let ?w = "w\<lparr>w_query_ctr := ?q, w_next_stream := Suc ?h, w_in_flight := Suc (w_in_flight w),
      w_streams := (w_streams w)(?h \<mapsto> ?st)\<rparr>"
  let ?r = "\<lparr>r_s = ?h, r_db = db, r_queryID = ?q, r_ctx = ctx, r_ended = False, r_err = None\<rparr>"
  have "admits (w\<lparr>w_query_ctr := ?q\<rparr>)" using assms(2) by (simp add: admits_def)
  then have o: "openStream db ctx op payload w = (Inr ?r, ?w)"
    by (simp add: openStream_def queryCtr_Add_def sable_open_stream_def)
  have "sable_open_stream op (stream_frame (db_id db) ?q payload) (w\<lparr>w_query_ctr := ?q\<rparr>) = (Inr ?h, ?w)"
    using \<open>admits (w\<lparr>w_query_ctr := ?q\<rparr>)\<close> by (simp add: sable_open_stream_def)
  moreover have "winv (w\<lparr>w_query_ctr := ?q\<rparr>)"
    using assms(1) same_core_winv [of w "w\<lparr>w_query_ctr := ?q\<rparr>"] by (simp add: same_core_def)
  ultimately have "winv ?w" using safe_open_stream [of "w\<lparr>w_query_ctr := ?q\<rparr>"]
    unfolding safe_step_def by blast
  moreover have "qid_private ?h ?q ?w"
    using assms(3) by (auto simp: qid_private_def qid_fresh_def)
  ultimately have "live_cursor ?r ?w" by (simp add: live_cursor_def opened_def)
  moreover have "rows_view ev ?r ?w = reply_view ev (handler_reply ev op payload (w_dbs w (db_id db)))"
    using assms(3)
    by (simp add: rows_view_def start_outcome_def reply_view_def stored_def qid_fresh_def
        split: sum.splits option.splits prod.splits)
  ultimately have "openStream db ctx op payload w = (Inr ?r, ?w) \<and> live_cursor ?r ?w \<and>
    r_ctx ?r = ctx \<and> r_queryID ?r = w_query_ctr w + 1 \<and> w_ctx ?w = w_ctx w \<and>
    rows_view ev ?r ?w = reply_view ev (handler_reply ev op payload (w_dbs w (db_id db)))"
    using o by simp
  then show ?thesis by blast
qed

text \<open>What an open entry point answers: the path check, then the engine.\<close>

definition open_reply :: "'db env \<Rightarrow> open_request \<Rightarrow> string + 'db" where
  "open_reply ev rq =
     (case path_check rq of Some e \<Rightarrow> Inl e | None \<Rightarrow> ev_open ev rq)"

lemma imbhgo_open_reply:
  "imbhgo_open ev rq i w =
     (case open_reply ev rq of Inr db \<Rightarrow> insert_db db w | Inl e \<Rightarrow> store_open_error i e w)"
  by (simp add: imbhgo_open_def open_reply_def split: option.splits)

lemma open_handle_failure:
  assumes "open_reply ev rq = Inl e" "e \<noteq> []" "w_query_ctr w + 1 \<noteq> 0"
    and "slot_fetch_ok ev (w_query_ctr w + 1)"
  shows "open_handle ev rq what w =
    (Inl (ErrorString (''imbhgo: '' @ what @ '': '' @ e)),
     w\<lparr>w_query_ctr := w_query_ctr w + 1,
       w_query_errors := (w_query_errors w)(w_query_ctr w + 1 := None)\<rparr>)"
  using assms
  by (simp add: open_handle_def queryCtr_Add_def imbhgo_open_reply store_open_error_def
      openFailure_def takeStoredError_ok stored_def store_query_error_def)

lemma open_handle_success:
  assumes "open_reply ev rq = Inr db" "w_db_ctr w \<noteq> 0"
  shows "open_handle ev rq what w =
    (Inr \<lparr>db_id = w_db_ctr w\<rparr>,
     w\<lparr>w_query_ctr := w_query_ctr w + 1, w_db_ctr := w_db_ctr w + 1,
       w_dbs := (w_dbs w)(w_db_ctr w \<mapsto> db)\<rparr>)"
  using assms by (simp add: open_handle_def queryCtr_Add_def imbhgo_open_reply insert_db_def)

section \<open>The example cursors\<close>

lemma init_winv: "winv init_world"
  by (simp add: init_world_def winv_def shells_inv_def streams_inv_def queued_def buf_of_def opened_def)
    auto

lemma demo_db_winv: "winv demo_db_world"
proof -
  have "same_core init_world demo_db_world"
    by (rule same_core_open [where ev = demo_env and rq = OpenMemory
          and what = "''open in-memory database''" and r = "fst (OpenInMemory demo_env init_world)"])
      (simp add: demo_db_world_def OpenInMemory_def)
  with init_winv show ?thesis by (simp add: same_core_winv)
qed

lemma demo_db_fields:
  "w_query_ctr demo_db_world = 1" "w_dbs demo_db_world = [1 \<mapsto> 0]" "w_streams demo_db_world = Map.empty"
  "w_query_errors demo_db_world = Map.empty" "w_ctx demo_db_world = (\<lambda>_. None)" "admits demo_db_world"
  by (simp_all add: demo_db_world_def OpenInMemory_def open_handle_success open_reply_def demo_env_def
      init_world_def admits_def)

lemma demo_cursor_live:
  "live_cursor (fst (demo_cursor q)) (snd (demo_cursor q)) \<and>
   rows_view ev (fst (demo_cursor q)) (snd (demo_cursor q)) =
     reply_view ev (handler_reply ev opSQL q (Some 0)) \<and>
   r_ctx (fst (demo_cursor q)) = Some 0 \<and> w_ctx (snd (demo_cursor q)) = (\<lambda>_. None)"
proof -
  have "qid_fresh (w_query_ctr demo_db_world + 1) demo_db_world"
    by (simp add: qid_fresh_def demo_db_fields)
  from openStream_ok [OF demo_db_winv demo_db_fields(6) this, of "\<lparr>db_id = 1\<rparr>" "Some 0" opSQL q ev]
  show ?thesis by (auto simp: demo_cursor_def Query_def demo_db_fields)
qed

lemma demo_fetch [simp]: "slot_fetch_ok demo_env q"
  by (simp add: slot_fetch_ok_def demo_env_def)

lemma demo_import [simp]: "ev_import demo_env b = ImportOk"
  by (simp add: demo_env_def)

lemma demo_no_cancel: "ctx_err (r_ctx (fst (demo_cursor q))) (env_run demo_env [Produce 0, Produce 0] (snd (demo_cursor q))) = None"
  using demo_cursor_live [of q demo_env] by (simp add: ctx_err_def env_run_def)

section \<open>The properties\<close>



text \<open>
  Next follows the stream whatever the schedule: after any events (this or other handlers advancing,
  other contexts ending), it returns the next batch of the cursor, owned by the caller, or ends with
  the query's error, its slot cleared and its stream closed.
\<close>
theorem Next_schedule_independent:
  assumes "live_cursor r w" "ctx_err (r_ctx r) (env_run ev es w) = None"
    and "slot_fetch_ok ev (r_queryID r)" "\<And>b. ev_import ev b = ImportOk"
  shows "case rows_view ev r w of
      (b # bs, e) \<Rightarrow> \<exists>p w'. Rows_Next ev r (env_run ev es w) = ((Some (p, b), None), r, w') \<and>
        live_cursor r w' \<and> rows_view ev r w' = (bs, e) \<and> w_owner w' p = Some GoOwned
    | ([], e) \<Rightarrow> \<exists>w'. Rows_Next ev r (env_run ev es w) =
        ((None, query_err e), r\<lparr>r_err := query_err e, r_ended := True\<rparr>, w') \<and>
        w_query_errors w' (r_queryID r) = None \<and> \<not> opened (r_s r) w'"
  using Rows_Next_view [of r "env_run ev es w" ev] live_env_run [OF assms(1), of ev es] assms(2-4)
  by simp

theorem Next_schedule_independent_witness:
  "fst (fst (Rows_Next demo_env (fst (demo_cursor ''bad''))
      (env_run demo_env [Produce 0, Produce 0] (snd (demo_cursor ''bad''))))) = None \<and>
   snd (fst (Rows_Next demo_env (fst (demo_cursor ''bad''))
      (env_run demo_env [Produce 0, Produce 0] (snd (demo_cursor ''bad''))))) =
     Some (ErrorString ''imbhgo: query failed: parse error'')"
proof -
  have "rows_view demo_env (fst (demo_cursor ''bad'')) (snd (demo_cursor ''bad'')) = ([], ''parse error'')"
    using demo_cursor_live [of "''bad''" demo_env]
    by (simp add: reply_view_def handler_reply_def demo_env_def utf8_valid_ascii)
  with Next_schedule_independent [of "fst (demo_cursor ''bad'')" "snd (demo_cursor ''bad'')" demo_env
      "[Produce 0, Produce 0]"] demo_cursor_live [of "''bad''" demo_env] demo_no_cancel [of "''bad''"]
  show ?thesis by (auto simp: query_err_def)
qed

text \<open>
  finish applies the documented precedence (import error, then context cancellation, then the
  stored query error), always clears the Rust-side slot and closes the stream; afterwards Err and every
  further Next report the same error and touch nothing.
\<close>
theorem finish_terminal:
  assumes "slot_fetch_ok ev (r_queryID r)"
  shows "case finish ev ie r w of (e, r', w') \<Rightarrow>
    e = terminal_err ie (ctx_err (r_ctx r) w) (stored (r_queryID r) w) \<and> Rows_Err r' = e \<and>
    w_query_errors w' (r_queryID r) = None \<and> \<not> opened (r_s r) w' \<and>
    Rows_Next ev r' w'' = ((None, e), r', w'')"
  by (simp add: finish_ok [OF assms] Let_def Rows_Err_def Rows_Next_def)

theorem finish_terminal_witness:
  "fst (finish demo_env None (fst (demo_cursor ''ok''))
     (env_step demo_env (Cancel 0 CtxCanceled) (snd (demo_cursor ''ok'')))) = Some CtxCanceled"
  using finish_terminal [of demo_env "fst (demo_cursor ''ok'')" None
      "env_step demo_env (Cancel 0 CtxCanceled) (snd (demo_cursor ''ok''))" init_world]
    demo_cursor_live [of "''ok''" demo_env]
  by (simp add: terminal_err_def ctx_err_def split: prod.splits)

text \<open>
  Close ends the cursor, releases its stream and clears the error slot of a cursor that had not
  ended; closing again changes nothing.
\<close>
theorem Rows_Close_idempotent:
  assumes "slot_fetch_ok ev (r_queryID r)"
  shows "case Rows_Close ev r w of (r', w') \<Rightarrow>
    r_ended r' \<and> \<not> opened (r_s r) w' \<and> (r_ended r \<or> w_query_errors w' (r_queryID r) = None) \<and>
    Rows_Close ev r' w' = (r', w')"
proof -
  have shut: "sable_close h v = v" if "\<not> opened h v" for h and v :: "'a world"
    using that sable_close_closed [of v h] by (cases "w_streams v h") (auto simp: opened_def)
  have "\<not> opened h (v\<lparr>w_query_errors := x\<rparr>)" if "\<not> opened h v" for h x and v :: "'a world"
    using that by (simp add: opened_def)
  then show ?thesis
    by (simp add: Rows_Close_def Let_def takeStoredError_ok [OF assms] shut)
qed

theorem Rows_Close_idempotent_witness:
  "w_query_errors (snd (Rows_Close demo_env (fst (demo_cursor ''bad''))
     (producer_step demo_env 0 (snd (demo_cursor ''bad''))))) (r_queryID (fst (demo_cursor ''bad''))) = None"
  using Rows_Close_idempotent [of demo_env "fst (demo_cursor ''bad'')"
      "producer_step demo_env 0 (snd (demo_cursor ''bad''))"] demo_cursor_live [of "''bad''" demo_env]
  by (simp add: live_cursor_def split: prod.splits)

text \<open>
  C23. A failing open returns the engine's own reason (or the path check's), read through the error slot,
  and leaves no trace: no handle, no pending error, only the id counter moved.
\<close>
theorem open_failure_carries_cause:
  assumes "w_query_ctr w + 1 \<noteq> 0" "slot_fetch_ok ev (w_query_ctr w + 1)"
    and "w_query_errors w (w_query_ctr w + 1) = None" "e \<noteq> []"
  shows "(open_reply ev OpenMemory = Inl e \<longrightarrow> OpenInMemory ev w =
      (Inl (ErrorString (''imbhgo: open in-memory database: '' @ e)),
       w\<lparr>w_query_ctr := w_query_ctr w + 1\<rparr>)) \<and>
    (open_reply ev (OpenPath path) = Inl e \<longrightarrow> Open ev path w =
      (Inl (ErrorString (''imbhgo: open database at '' @ path @ '': '' @ e)),
       w\<lparr>w_query_ctr := w_query_ctr w + 1\<rparr>)) \<and>
    (open_reply ev (OpenReadOnlyPath path) = Inl e \<longrightarrow> OpenReadOnly ev path w =
      (Inl (ErrorString (''imbhgo: open read-only database at '' @ path @ '': '' @ e)),
       w\<lparr>w_query_ctr := w_query_ctr w + 1\<rparr>))"
proof -
  have "w\<lparr>w_query_ctr := w_query_ctr w + 1, w_query_errors := (w_query_errors w)(w_query_ctr w + 1 := None)\<rparr> =
      w\<lparr>w_query_ctr := w_query_ctr w + 1\<rparr>"
    using assms(3) by (simp add: fun_upd_idem)
  then show ?thesis
    using open_handle_failure [OF _ assms(4,1,2)]
    by (simp add: OpenInMemory_def Open_def OpenReadOnly_def)
qed

theorem open_failure_carries_cause_witness:
  "fst (Open demo_env ''/nope'' init_world) =
     Inl (ErrorString ''imbhgo: open database at /nope: no such directory'')"
proof -
  have r: "open_reply demo_env (OpenPath ''/nope'') = Inl ''no such directory''"
    by (simp add: open_reply_def path_utf8_def demo_env_def utf8_valid_ascii)
  have "w_query_ctr init_world + 1 \<noteq> 0" "w_query_errors init_world (w_query_ctr init_world + 1) = None"
    by (simp_all add: init_world_def)
  from open_failure_carries_cause [OF this(1) _ this(2), of demo_env "''no such directory''" "''/nope''"] r
  show ?thesis by simp
qed

text \<open>
  A successful open registers the engine's database under a fresh handle and disturbs no other;
  closing the returned handle takes it back out, so the registry is as before.
\<close>
theorem open_close_registry:
  assumes "open_reply ev (OpenPath path) = Inr x" "w_db_ctr w \<noteq> 0" "w_dbs w (w_db_ctr w) = None"
  shows "case Open ev path w of
      (Inr db, w') \<Rightarrow> w_dbs w' = (w_dbs w)(db_id db \<mapsto> x) \<and> w_dbs w (db_id db) = None \<and>
        w_dbs (DB_Close db w') = w_dbs w \<and> w_query_errors w' = w_query_errors w
    | (Inl _, _) \<Rightarrow> False"
  using assms
  by (simp add: Open_def open_handle_success [OF assms(1,2)] DB_Close_def imbhgo_close_def fun_upd_idem)

theorem open_close_registry_witness:
  "case Open demo_env ''/data'' init_world of
      (Inr db, w') \<Rightarrow> w_dbs (DB_Close db w') = Map.empty | (Inl _, _) \<Rightarrow> False"
proof -
  have "open_reply demo_env (OpenPath ''/data'') = Inr 0"
    by (simp add: open_reply_def path_utf8_def demo_env_def utf8_valid_ascii)
  from open_close_registry [OF this, of init_world] show ?thesis
    by (simp add: init_world_def split: prod.splits sum.splits)
qed

text \<open>
  When an import fails and has not released the buffers it was given, Next still frees the shell:
  the query ends with the import error, and the buffers are lost while the live-batch counter, which
  counts shells, shows nothing.
\<close>
theorem failed_import_loses_buffers:
  assumes "live_cursor r w" "ctx_err (r_ctx r) w = None" "slot_fetch_ok ev (r_queryID r)"
    and "rows_view ev r w = (b # bs, m)" "ev_import ev b = ImportErr ie False"
  shows "\<exists>p w'. fst (Rows_Next ev r w) = (None, Some ie) \<and> snd (snd (Rows_Next ev r w)) = w' \<and>
    w_owner w' p = Some Leaked \<and> w_shells w' p = None \<and> w_live_batches w' = int (card (queued w'))"
proof -
  obtain x w1 where n: "sable_next ev (r_s r) (r_ctx r) w = (x, w1)" by fastforce
  from sable_next_view [OF assms(1,2) n] assms(4) obtain p where
    p: "x = Some p" "w_shells w1 p = Some b" "winv_held p w1" by auto
  have run: "\<not> r_ended r" using assms(1) by (simp add: live_cursor_def)
  have s: "shells_inv w1" using p(3) by (simp add: winv_held_def)
  note o = shells_inv_shell [OF s p(2)]
  have i: "import_batch ev p w1 = (Inl ie, w1)" using p(2) assms(5) by (simp add: import_batch_def)
  let ?v = "shell_free p w1"
  have v: "w_owner ?v p = Some Leaked" "w_shells ?v p = None"
    using o p(2) by (simp_all add: shell_free_def)
  note f = finish_ok [OF assms(3), of "Some ie" ?v]
  have nxt: "Rows_Next ev r w = ((None, Some ie), r\<lparr>r_err := Some ie, r_ended := True\<rparr>,
      sable_close (r_s r) (?v\<lparr>w_query_errors := (w_query_errors ?v)(r_queryID r := None)\<rparr>))"
    using n p(1) i run f by (simp add: Rows_Next_def Let_def terminal_err_def)
  let ?u = "?v\<lparr>w_query_errors := (w_query_errors ?v)(r_queryID r := None)\<rparr>"
  have inv: "winv ?u"
    using import_free(1) [OF p(3) i] same_core_winv [of ?v ?u] by (simp add: same_core_def)
  have "own_ok {} ?u (sable_close (r_s r) ?u)" by (rule own_ok_close [OF inv])
  then have "own_step {} ?u (sable_close (r_s r) ?u)" by (simp only: own_ok_def)
  then have lost: "w_owner (sable_close (r_s r) ?u) p = Some Leaked"
    by (rule own_step_fixed) (use v(1) in simp_all)
  have fin: "winv (sable_close (r_s r) ?u)" by (rule winv_close [OF inv])
  then have "w_shells (sable_close (r_s r) ?u) p = None"
    using lost shells_inv_shell [of "sable_close (r_s r) ?u" p]
    by (cases "w_shells (sable_close (r_s r) ?u) p") (auto simp: winv_def)
  with nxt lost fin show ?thesis by (auto simp: winv_def shells_inv_def)
qed

definition bad_import_env :: "nat env" where
  "bad_import_env = demo_env\<lparr>ev_import := (\<lambda>b. ImportErr (ErrorString ''bad schema'') False)\<rparr>"

theorem failed_import_loses_buffers_witness:
  "\<exists>p. w_owner (snd (snd (Rows_Next bad_import_env (fst (demo_cursor ''mid'')) (snd (demo_cursor ''mid''))))) p
     = Some Leaked"
proof -
  have "slot_fetch_ok bad_import_env q" for q
    by (simp add: slot_fetch_ok_def bad_import_env_def demo_env_def)
  moreover have "rows_view bad_import_env (fst (demo_cursor ''mid'')) (snd (demo_cursor ''mid'')) =
      (demo_batch [''a''] # [], ''disk'')"
    using demo_cursor_live [of "''mid''" bad_import_env]
    by (simp add: reply_view_def handler_reply_def bad_import_env_def demo_env_def utf8_valid_ascii)
  moreover have "ctx_err (r_ctx (fst (demo_cursor ''mid''))) (snd (demo_cursor ''mid'')) = None"
    using demo_cursor_live [of "''mid''" demo_env] by (simp add: ctx_err_def)
  moreover have "ev_import bad_import_env b = ImportErr (ErrorString ''bad schema'') False" for b
    by (simp add: bad_import_env_def)
  moreover have "live_cursor (fst (demo_cursor ''mid'')) (snd (demo_cursor ''mid''))"
    using demo_cursor_live [of "''mid''" demo_env] by simp
  ultimately show ?thesis using failed_import_loses_buffers by blast
qed

text \<open>
  The window the comment of Close leaves open is real: a handler
  that starts after its cursor was closed and fails stores an error that this cursor never claims,
  whatever the client still calls on it.
\<close>
theorem late_error_unclaimed:
  assumes "w_streams w (r_s r) = Some st" "st_task st = Start op (stream_frame i (r_queryID r) payload)"
    and "handler_reply ev op payload (w_dbs w i) = Inl e" "r_ended r"
  shows "let w' = producer_step ev (r_s r) w in
    w_query_errors w' (r_queryID r) = Some e \<and>
    w_query_errors (snd (Rows_Close ev r w')) (r_queryID r) = Some e \<and>
    w_query_errors (snd (snd (Rows_Next ev r w'))) (r_queryID r) = Some e"
proof -
  obtain w1 t where s: "start_handler ev op (stream_frame i (r_queryID r) payload) w = (w1, t)" by fastforce
  from start_handler_outcome [OF s] assms(3)
  have "w_query_errors w1 = (w_query_errors w)(r_queryID r \<mapsto> e)" by (simp add: start_outcome_def)
  then show ?thesis
    using assms s by (simp add: producer_step_def Let_def Rows_Close_def Rows_Next_def)
qed

theorem late_error_unclaimed_witness:
  "w_query_errors (producer_step demo_env 0
     (snd (Rows_Close demo_env (fst (demo_cursor ''bad'')) (snd (demo_cursor ''bad''))))) 2 = Some ''parse error''"
proof -
  let ?rw = "Rows_Close demo_env (fst (demo_cursor ''bad'')) (snd (demo_cursor ''bad''))"
  have ids: "r_s (fst ?rw) = 0" "r_queryID (fst ?rw) = 2" "r_ended (fst ?rw)" by code_simp+
  have "map_option st_task (w_streams (snd ?rw) 0) = Some (Start opSQL (stream_frame 1 2 ''bad''))" by code_simp
  then obtain st where st: "w_streams (snd ?rw) 0 = Some st" "st_task st = Start opSQL (stream_frame 1 2 ''bad'')"
    by auto
  have "handler_reply demo_env opSQL ''bad'' (w_dbs (snd ?rw) 1) = Inl ''parse error''" by code_simp
  from late_error_unclaimed [OF _ _ this ids(3), of st] st ids
  show ?thesis by (simp add: Let_def)
qed

end
