(* ===== verification/Decode.thy ===== *)
theory Decode
  imports Cursor
begin

text \<open>
  The drain loop that every typed query shares (\<open>defer rows.Close()\<close>; pull a batch, decode its rows,
  release it; until the end) and the row decoders of \<open>results.go\<close>, \<open>query.go\<close>, \<open>discovery.go\<close>, \<open>lgtm.go\<close> and
  \<open>traces_search.go\<close>. The loop is one function over the batch decoder; a schedule gives the events of
  the environment before each \<open>Next\<close>. The result of a call is \<open>None\<close> when a reader panicked (the deferred
  \<open>Close\<close> has still run).
\<close>

section \<open>The loop\<close>

type_synonym 's batch_decoder = "batch \<Rightarrow> 's \<Rightarrow> 's option"

definition task_pending :: "'db env \<Rightarrow> (u64 \<rightharpoonup> 'db) \<Rightarrow> task \<Rightarrow> nat" where
  "task_pending ev dbs t =
     (case t of
        Done \<Rightarrow> 0
      | Sending q is \<Rightarrow> length is
      | Start op req \<Rightarrow> (case start_outcome ev dbs op req of Some (q, Inr is) \<Rightarrow> length is | _ \<Rightarrow> 0))"

definition pending :: "'db env \<Rightarrow> nat \<Rightarrow> 'db world \<Rightarrow> nat" where
  "pending ev h w =
     (case w_streams w h of
        None \<Rightarrow> 0
      | Some st \<Rightarrow> length (st_buf st) + task_pending ev (w_dbs w) (st_task st))"

lemma producer_dbs [simp]: "w_dbs (producer_step ev h w) = w_dbs w"
proof -
  have start: "w_dbs w' = w_dbs w" if "start_handler ev op req w = (w', t)" for op req w' t
    by (subst start_handler_frame [OF that]) simp
  show ?thesis
    by (auto simp: producer_step_def start batch_release_def export_batch_def Let_def store_query_error_def
        split: option.splits task.splits list.splits item.splits sum.splits prod.splits)
qed

lemma producer_other: "h' \<noteq> h \<Longrightarrow> w_streams (producer_step ev h' w) h = w_streams w h"
proof -
  assume "h' \<noteq> h"
  have start: "w_streams w' = w_streams w" if "start_handler ev op req w = (w', t)" for op req w' t
    using same_core_start [OF that] by (simp add: same_core_def)
  with \<open>h' \<noteq> h\<close> show ?thesis
    by (auto simp: producer_step_def start batch_release_def export_batch_def Let_def
        split: option.splits task.splits list.splits item.splits sum.splits prod.splits)
qed

lemma pending_cong:
  "w_streams w' h = w_streams w h \<Longrightarrow> w_dbs w' = w_dbs w \<Longrightarrow> pending ev h w' = pending ev h w"
  by (simp add: pending_def split: option.splits)

lemma pending_producer: "pending ev h (producer_step ev h' w) \<le> pending ev h w"
proof (cases "h' = h")
  case False
  then have "pending ev h (producer_step ev h' w) = pending ev h w"
    by (intro pending_cong) (simp_all add: producer_other)
  then show ?thesis by simp
next
  case True
  show ?thesis
  proof (cases "w_streams w h")
    case (Some st)
    show ?thesis
    proof (cases "st_task st")
      case (Start op req)
      obtain w' t where s: "start_handler ev op req w = (w', t)" by fastforce
      have "w_dbs w' = w_dbs w" by (subst start_handler_frame [OF s]) simp
      with start_handler_outcome [OF s] Some Start s True show ?thesis
        by (auto simp: producer_step_def pending_def task_pending_def split: option.splits sum.splits)
    next
      case (Sending q "is")
      with Some True show ?thesis
        by (auto simp: producer_step_def pending_def task_pending_def batch_release_def
            export_batch_def Let_def store_query_error_def split: list.splits item.splits option.splits)
    qed (use Some True in \<open>simp add: producer_step_def\<close>)
  qed (simp add: True producer_step_def)
qed

lemma pending_env: "pending ev h (env_step ev e w) \<le> pending ev h w"
proof (cases e)
  case (Cancel c x)
  have "pending ev h (env_step ev e w) = pending ev h w"
    by (intro pending_cong) (simp_all add: Cancel)
  then show ?thesis by simp
qed (simp add: pending_producer)

lemma pending_env_run: "pending ev h (env_run ev es w) \<le> pending ev h w"
proof (induction es arbitrary: w)
  case (Cons e es)
  from Cons [of "env_step ev e w"] pending_env [of ev h e w] show ?case by (simp add: env_run_def)
qed (simp add: env_run_def)

lemma pending_next: "sable_next ev h c w = (Some p, w') \<Longrightarrow> pending ev h w' < pending ev h w"
proof (induction ev h c w rule: sable_next.induct)
  case (1 ev h c w)
  show ?case
  proof (cases "\<exists>st. w_streams w h = Some st \<and> st_open st \<and> ctx_err c w = None \<and> st_buf st = [] \<and>
      st_task st \<noteq> Done")
    case False
    with 1(2) show ?thesis
      by (auto simp: sable_next.simps [of ev h c w] pending_def
          split: option.splits if_splits list.splits)
  next
    case True
    then obtain st where st: "w_streams w h = Some st" "st_open st" "st_buf st = []" "st_task st \<noteq> Done"
      "ctx_err c w = None" by auto
    have "sable_next ev h c (producer_step ev h w) = (Some p, w')"
      using 1(2) st by (simp add: sable_next.simps [of ev h c w])
    from 1(1) [OF st(1) _ _ st(3,4) this] st pending_producer [of ev h h w] show ?thesis by simp
  qed
qed

lemma Rows_Next_Some:
  assumes "Rows_Next ev r w = ((Some (p, b), e), r', w')"
  shows "\<exists>w1 w2. sable_next ev (r_s r) (r_ctx r) w = (Some p, w1) \<and>
    import_batch ev p w1 = (Inr b, w2) \<and> w' = shell_free p w2 \<and> r' = r \<and> e = None \<and> \<not> r_ended r"
proof -
  have run: "\<not> r_ended r" using assms by (auto simp: Rows_Next_def split: if_splits)
  obtain x w1 where n: "sable_next ev (r_s r) (r_ctx r) w = (x, w1)" by fastforce
  with assms run obtain q where q: "x = Some q"
    by (cases x) (auto simp: Rows_Next_def split: prod.splits)
  obtain rc w2 where i: "import_batch ev q w1 = (rc, w2)" by fastforce
  from assms run n q i show ?thesis
    by (cases rc) (auto simp: Rows_Next_def Let_def split: prod.splits)
qed

lemma pending_Rows_Next:
  assumes "Rows_Next ev r w = ((Some (p, b), e), r', w')"
  shows "pending ev (r_s r') (rec_release p w') < pending ev (r_s r) w"
proof -
  from Rows_Next_Some [OF assms] obtain w1 w2 where n: "sable_next ev (r_s r) (r_ctx r) w = (Some p, w1)"
    and i: "import_batch ev p w1 = (Inr b, w2)" "w' = shell_free p w2" "r' = r" by blast
  have "w_streams (rec_release p w') = w_streams w1" "w_dbs (rec_release p w') = w_dbs w1"
    using i by (auto simp: rec_release_def shell_free_def import_batch_def
        split: if_splits option.splits import_outcome.splits)
  then have "pending ev (r_s r) (rec_release p w') = pending ev (r_s r) w1"
    by (intro pending_cong) simp_all
  with pending_next [OF n] i show ?thesis by simp
qed

lemma pending_pull:
  assumes "((Some (p, b), e), r', w') = Rows_Next ev r (env_run ev es w)"
  shows "pending ev (r_s r') (rec_release p w') < pending ev (r_s r) w"
  using pending_Rows_Next [OF assms [symmetric]] pending_env_run [of ev "r_s r" es w] by simp

definition events :: "event list list \<Rightarrow> event list" where
  "events sched = (case sched of [] \<Rightarrow> [] | es # _ \<Rightarrow> es)"

function drain ::
  "'db env \<Rightarrow> 's batch_decoder \<Rightarrow> event list list \<Rightarrow> rows \<Rightarrow> 'db world \<Rightarrow> 's \<Rightarrow>
   's result option \<times> rows \<times> 'db world" where
  "drain ev dec sched r w acc =
     (case Rows_Next ev r (env_run ev (events sched) w) of
        ((rec, Some e), r', w') \<Rightarrow> (Some (Inl e), Rows_Close ev r' w')
      | ((None, None), r', w') \<Rightarrow> (Some (Inr acc), Rows_Close ev r' w')
      | ((Some (p, b), None), r', w') \<Rightarrow>
          (case dec b acc of
             None \<Rightarrow> (None, Rows_Close ev r' w')
           | Some acc' \<Rightarrow> drain ev dec (tl sched) r' (rec_release p w') acc'))"
  by pat_completeness auto
termination
  by (relation "measure (\<lambda>(ev, dec, sched, r, w, acc). pending ev (r_s r) w)")
    (auto dest: pending_pull)

declare drain.simps [simp del]

section \<open>What the loop computes\<close>

fun dec_all :: "'s batch_decoder \<Rightarrow> batch list \<Rightarrow> 's \<Rightarrow> 's option" where
  "dec_all dec [] acc = Some acc"
| "dec_all dec (b # bs) acc = do { acc' \<leftarrow> dec b acc; dec_all dec bs acc' }"

lemma rec_release_live:
  assumes "live_cursor r w" "w_owner w p = Some GoOwned"
  shows "live_cursor r (rec_release p w)" "rows_view ev r (rec_release p w) = rows_view ev r w"
    "w_ctx (rec_release p w) = w_ctx w"
proof -
  have "winv (rec_release p w)" using assms safe_release(1) by (auto simp: live_cursor_def)
  moreover have s: "w_streams (rec_release p w) = w_streams w" by (simp add: rec_release_def)
  then have "qid_private (r_s r) (r_queryID r) (rec_release p w) = qid_private (r_s r) (r_queryID r) w"
    by (rule qid_private_cong)
  ultimately show "live_cursor r (rec_release p w)"
    using assms(1) s by (simp add: live_cursor_def opened_def)
  show "rows_view ev r (rec_release p w) = rows_view ev r w"
    by (simp add: rows_view_def stored_def rec_release_def cong: option.case_cong)
  show "w_ctx (rec_release p w) = w_ctx w" by (simp add: rec_release_def)
qed

lemma env_step_ctx: "ctx_err c w = Some x \<Longrightarrow> ctx_err c (env_step ev e w) = Some x"
  by (cases e) (auto simp: ctx_err_def split: option.splits)

lemma env_run_ctx: "ctx_err c w = Some x \<Longrightarrow> ctx_err c (env_run ev es w) = Some x"
  by (induction es arbitrary: w) (auto simp: env_run_def env_step_ctx)

text \<open>A context that no event of the schedule cancels.\<close>

definition not_cancelled :: "nat option \<Rightarrow> event list \<Rightarrow> bool" where
  "not_cancelled c es \<longleftrightarrow> (\<forall>x y. Cancel x y \<in> set es \<longrightarrow> c \<noteq> Some x)"

lemma env_run_no_ctx:
  "ctx_err c w = None \<Longrightarrow> not_cancelled c es \<Longrightarrow> ctx_err c (env_run ev es w) = None"
proof (induction es arbitrary: w)
  case (Cons e es)
  have "ctx_err c (env_step ev e w) = None"
    using Cons.prems by (cases e) (auto simp: ctx_err_def not_cancelled_def split: option.splits)
  moreover have "not_cancelled c es" using Cons.prems(2) by (auto simp: not_cancelled_def)
  ultimately show ?case using Cons.IH by (simp add: env_run_def)
qed (simp add: env_run_def)

lemma drain_induct [case_names pull]:
  assumes "\<And>sched w acc. (\<And>p b w1 acc'.
      Rows_Next ev r (env_run ev (events sched) w) = ((Some (p, b), None), r, w1) \<Longrightarrow>
      dec b acc = Some acc' \<Longrightarrow> P (tl sched) (rec_release p w1) acc') \<Longrightarrow> P sched w acc"
  shows "P sched w acc"
proof (induction "pending ev (r_s r) w" arbitrary: sched w acc rule: less_induct)
  case less
  show ?case
  proof (rule assms)
    fix p b w1 acc'
    assume n: "Rows_Next ev r (env_run ev (events sched) w) = ((Some (p, b), None), r, w1)"
    show "P (tl sched) (rec_release p w1) acc'"
      by (rule less) (use pending_pull [OF n [symmetric]] in simp)
  qed
qed

lemma drain_end:
  "Rows_Next ev r (env_run ev (events sched) w) = ((None, e), r1, w1) \<Longrightarrow>
   drain ev dec sched r w acc =
     (Some (case e of None \<Rightarrow> Inr acc | Some x \<Rightarrow> Inl x), Rows_Close ev r1 w1)"
  by (simp add: drain.simps split: option.splits)

lemma drain_pull:
  "Rows_Next ev r (env_run ev (events sched) w) = ((Some (p, b), e), r1, w1) \<Longrightarrow>
   drain ev dec sched r w acc =
     (case dec b acc of None \<Rightarrow> (None, Rows_Close ev r w1)
      | Some acc' \<Rightarrow> drain ev dec (tl sched) r (rec_release p w1) acc') \<and> e = None \<and> r1 = r"
  using Rows_Next_Some [of ev r "env_run ev (events sched) w" p b e r1 w1]
  by (auto simp: drain.simps [of ev dec sched])

text \<open>
  What a drain may return for a cursor with a given view: a success carries the decoding of every batch
  of an error-free query; an error is the query's or the context's; a panic is the decoder's.
\<close>

definition drain_ok ::
  "'s batch_decoder \<Rightarrow> batch list \<times> bytes \<Rightarrow> goerr option \<Rightarrow> 's \<Rightarrow> 's result option \<Rightarrow> bool" where
  "drain_ok dec view ctx acc res \<longleftrightarrow>
     (case res of
        None \<Rightarrow> dec_all dec (fst view) acc = None
      | Some (Inr out) \<Rightarrow> dec_all dec (fst view) acc = Some out \<and> snd view = []
      | Some (Inl e) \<Rightarrow> ctx = Some e \<or>
          (ctx = None \<and> dec_all dec (fst view) acc \<noteq> None \<and> query_err (snd view) = Some e))"

lemma drain_ok_end:
  "drain_ok dec ([], m) ctx acc (Some (case ctx of Some x \<Rightarrow> Inl x
     | None \<Rightarrow> (case query_err m of None \<Rightarrow> Inr acc | Some x \<Rightarrow> Inl x)))"
  by (auto simp: drain_ok_def query_err_def split: option.splits)

lemma drain_ok_pull:
  "dec b acc = Some acc' \<Longrightarrow> drain_ok dec (bs, m) ctx acc' res \<Longrightarrow> drain_ok dec (b # bs, m) ctx acc res"
  by (auto simp: drain_ok_def split: option.splits sum.splits)

lemma drain_result:
  assumes "live_cursor r w" "slot_fetch_ok ev (r_queryID r)" "\<And>b. ev_import ev b = ImportOk"
    and "drain ev dec sched r w acc = (res, r', w')"
  shows "drain_ok dec (rows_view ev r w) (ctx_err (r_ctx r) w') acc res \<and>
    (ctx_err (r_ctx r) w = None \<longrightarrow> (\<forall>es\<in>set sched. not_cancelled (r_ctx r) es) \<longrightarrow>
      ctx_err (r_ctx r) w' = None)"
  using assms(1,4)
proof (induction sched w acc rule: drain_induct [of ev r dec])
  case (pull sched w acc)
  let ?w0 = "env_run ev (events sched) w"
  note l = live_env_run [OF pull.prems(1), of ev "events sched"]
  obtain rec e r1 w1 where n: "Rows_Next ev r ?w0 = ((rec, e), r1, w1)" by (metis prod_cases3 surj_pair)
  note c = Rows_Next_cases [OF conjunct1 [OF l] assms(2,3) n]
  have nc: "ctx_err (r_ctx r) ?w0 = None"
    if "ctx_err (r_ctx r) w = None" "\<forall>es\<in>set sched. not_cancelled (r_ctx r) es"
    using that env_run_no_ctx [of "r_ctx r" w "events sched" ev]
    by (auto simp: events_def env_run_def split: list.splits)
  show ?case
  proof (cases rec)
    case None
    have d: "drain ev dec sched r w acc =
        (Some (case e of None \<Rightarrow> Inr acc | Some x \<Rightarrow> Inl x), Rows_Close ev r1 w1)"
      using n None by (intro drain_end) simp
    then have w': "w' = snd (Rows_Close ev r1 w1)" and res: "res = Some (case e of None \<Rightarrow> Inr acc | Some x \<Rightarrow> Inl x)"
      using pull.prems(2) by (auto simp: prod_eq_iff)
    have cw: "ctx_err (r_ctx r) w' = ctx_err (r_ctx r) ?w0"
      using c by (intro ctx_err_cong) (simp add: w' ctx_Rows_Close)
    have "drain_ok dec (rows_view ev r w) (ctx_err (r_ctx r) ?w0) acc res"
    proof (cases "ctx_err (r_ctx r) ?w0")
      case (Some x)
      with c None res show ?thesis by (simp add: drain_ok_def)
    next
      case ctx: None
      with c None l have "rows_view ev r w = ([], snd (rows_view ev r w))"
        "e = query_err (snd (rows_view ev r w))" by auto
      then show ?thesis using drain_ok_end [of dec "snd (rows_view ev r w)" None acc] ctx res by simp
    qed
    with cw nc show ?thesis by simp
  next
    case (Some pb)
    obtain p b where pb: "pb = (p, b)" by fastforce
    note d = drain_pull [OF n [unfolded Some pb], of dec acc]
    from c Some pb l have s: "live_cursor r w1" "w_ctx w1 = w_ctx ?w0"
      "rows_view ev r w = (b # fst (rows_view ev r w1), snd (rows_view ev r w1))" by auto
    have go: "w_owner w1 p = Some GoOwned"
      using safe_Rows_Next [of ?w0 ev r "Some (p, b)" e r1 w1 "{p}"] l n Some pb
      by (auto simp: live_cursor_def)
    note rl = rec_release_live [OF s(1) go]
    show ?thesis
    proof (cases "dec b acc")
      case None
      with pull.prems(2) d have "res = None" "w' = snd (Rows_Close ev r w1)" by (auto simp: prod_eq_iff)
      moreover from this have "ctx_err (r_ctx r) w' = ctx_err (r_ctx r) ?w0"
        using s(2) by (intro ctx_err_cong) (simp add: ctx_Rows_Close)
      ultimately show ?thesis using None s(3) nc by (simp add: drain_ok_def)
    next
      case acc': (Some acc')
      have n': "Rows_Next ev r ?w0 = ((Some (p, b), None), r, w1)" using n Some pb d by simp
      have "drain ev dec (tl sched) r (rec_release p w1) acc' = (res, r', w')"
        using d acc' pull.prems(2) by simp
      from pull.IH [OF n' acc' rl(1) this] rl(2)
      have ih: "drain_ok dec (rows_view ev r w1) (ctx_err (r_ctx r) w') acc' res"
        "ctx_err (r_ctx r) (rec_release p w1) = None \<longrightarrow>
          (\<forall>es\<in>set (tl sched). not_cancelled (r_ctx r) es) \<longrightarrow> ctx_err (r_ctx r) w' = None"
        by simp_all
      have "ctx_err (r_ctx r) (rec_release p w1) = ctx_err (r_ctx r) ?w0"
        using s(2) rl(3) by (intro ctx_err_cong) simp
      moreover have "set (tl sched) \<subseteq> set sched" by (cases sched) auto
      ultimately have "ctx_err (r_ctx r) w = None \<longrightarrow>
          (\<forall>es\<in>set sched. not_cancelled (r_ctx r) es) \<longrightarrow> ctx_err (r_ctx r) w' = None"
        using ih(2) nc by auto
      moreover have "drain_ok dec (b # fst (rows_view ev r w1), snd (rows_view ev r w1))
          (ctx_err (r_ctx r) w') acc res"
        by (rule drain_ok_pull [where dec = dec and b = b and acc = acc, OF acc']) (use ih(1) in simp)
      ultimately show ?thesis using s(3) by simp
    qed
  qed
qed

section \<open>The loop leaves nothing behind\<close>

lemma winv_env_run: "winv w \<Longrightarrow> winv (env_run ev es w)"
proof (induction es arbitrary: w)
  case (Cons e es)
  have "winv (env_step ev e w)"
  proof (cases e)
    case (Cancel c x)
    have "same_core w (env_step ev e w)" by (simp add: Cancel same_core_def)
    with Cons.prems show ?thesis using same_core_winv by blast
  qed (simp add: winv_producer Cons.prems)
  with Cons.IH show ?case by (simp add: env_run_def)
qed (simp add: env_run_def)

lemma own_env_run: "winv w \<Longrightarrow> own_step {} w (env_run ev es w)"
proof (induction es arbitrary: w)
  case (Cons e es)
  have "own_ok {} w (env_step ev e w)"
    using Cons.prems by (cases e) (simp_all add: own_ok_producer own_ok_same)
  moreover have "winv (env_step ev e w)" using winv_env_run [OF Cons.prems, of ev "[e]"] by (simp add: env_run_def)
  ultimately show ?case using Cons.IH [of "env_step ev e w"]
    by (auto simp: env_run_def own_ok_def intro: own_step_trans)
qed (simp add: env_run_def own_step_def)

lemma Rows_Close_ended: "r_ended (fst (Rows_Close ev r w)) \<and> \<not> opened (r_s r) (snd (Rows_Close ev r w))"
  by (auto simp: Rows_Close_def Let_def opened_core [OF same_core_take_snd])

lemma Rows_Next_r_s: "Rows_Next ev r w = ((rec, e), r', w') \<Longrightarrow> r_s r' = r_s r"
  by (auto simp: Rows_Next_def finish_def Rows_Close_def Let_def
      split: if_splits option.splits prod.splits sum.splits)

lemma drain_safe:
  assumes "winv w" "drain ev dec sched r w acc = (res, r', w')"
  shows "winv w' \<and> r_ended r' \<and> \<not> opened (r_s r) w' \<and>
    (res \<noteq> None \<longrightarrow> (\<forall>p. w_owner w' p = Some GoOwned \<longrightarrow> w_owner w p = Some GoOwned))"
  using assms
proof (induction sched w acc rule: drain_induct [of ev r dec])
  case (pull sched w acc)
  let ?w0 = "env_run ev (events sched) w"
  have i0: "winv ?w0" "own_step {} w ?w0"
    using winv_env_run own_env_run pull.prems(1) by blast+
  obtain rec e r1 w1 where n: "Rows_Next ev r ?w0 = ((rec, e), r1, w1)" by (metis prod_cases3 surj_pair)
  note rs = Rows_Next_r_s [OF n]
  have fin: "winv w' \<and> r_ended r' \<and> \<not> opened (r_s r) w' \<and> own_step {} w1 w'"
    if "(r', w') = Rows_Close ev r1 w1" "winv w1"
    using safe_Rows_Close [OF that(2), of ev "{}" ev r1] Rows_Close_ended [of ev r1 w1] rs
    by (simp add: that(1) [symmetric] safe_step_def)
  show ?case
  proof (cases rec)
    case None
    have s: "winv w1" "own_step {} ?w0 w1"
      using safe_Rows_Next [OF i0(1) n, of "{}"] None by (simp_all add: safe_step_def)
    have d: "(r', w') = Rows_Close ev r1 w1"
      using drain_end [OF n [unfolded None], of dec acc] pull.prems(2) by (simp add: prod_eq_iff)
    from fin [OF d s(1)] have "own_step {} w w'"
      using own_step_trans [OF own_step_trans [OF i0(2) s(2)]] by simp
    with fin [OF d s(1)] show ?thesis using own_step_back by blast
  next
    case (Some pb)
    obtain p b where pb: "pb = (p, b)" by fastforce
    note d = drain_pull [OF n [unfolded Some pb], of dec acc]
    from safe_Rows_Next [OF i0(1) n, of "{p}"] Some pb
    have s: "winv w1" "own_step {p} ?w0 w1" "w_owner w1 p = Some GoOwned" by (simp_all add: safe_step_def)
    note rel = safe_release [OF s(1,3)]
    show ?thesis
    proof (cases "dec b acc")
      case None
      then have "(r', w') = Rows_Close ev r1 w1" "res = None"
        using d pull.prems(2) by (simp_all add: prod_eq_iff)
      with fin s(1) show ?thesis by simp
    next
      case acc': (Some acc')
      have n': "Rows_Next ev r ?w0 = ((Some (p, b), None), r, w1)" using n Some pb d by simp
      have "drain ev dec (tl sched) r (rec_release p w1) acc' = (res, r', w')"
        using d acc' pull.prems(2) by simp
      note ih = pull.IH [OF n' acc' rel(1) this]
      have "w_owner w q = Some GoOwned" if "w_owner (rec_release p w1) q = Some GoOwned" for q
      proof -
        from that rel(2) have "q \<noteq> p" "w_owner w1 q = Some GoOwned" by (auto split: if_splits)
        with own_step_back [OF s(2)] own_step_back [OF i0(2)] show ?thesis by blast
      qed
      with ih show ?thesis by blast
    qed
  qed
qed

section \<open>Row decoders\<close>

text \<open>The inner loop over the rows of a batch: append the decoding of each row.\<close>

definition decode_rows :: "(cols \<Rightarrow> nat \<Rightarrow> 'a option) \<Rightarrow> 'a list batch_decoder" where
  "decode_rows row b out =
     do { rs \<leftarrow> mapM (row (columnsByName b)) [0..<b_rows b]; Some (out @ rs) }"

definition log_entry_row :: "cols \<Rightarrow> nat \<Rightarrow> LogEntry option" where
  "log_entry_row cols i = do {
     time \<leftarrow> int64At (cols ''time'') i;
     observed \<leftarrow> int64At (cols ''observed_time'') i;
     service \<leftarrow> stringAt (cols ''service'') i;
     severity \<leftarrow> int64At (cols ''severity_number'') i;
     text \<leftarrow> stringAt (cols ''severity_text'') i;
     body \<leftarrow> stringAt (cols ''body'') i;
     attributes \<leftarrow> stringAt (cols ''attributes'') i;
     trace \<leftarrow> bytesAt (cols ''trace_id'') i;
     span \<leftarrow> bytesAt (cols ''span_id'') i;
     Some \<lparr>le_Time = time, le_ObservedTime = observed, le_Service = service, le_Severity = ucast severity,
       le_SeverityText = text, le_Body = body, le_Attributes = attributes, le_TraceID = trace, le_SpanID = span\<rparr> }"

definition instant_row :: "cols \<Rightarrow> nat \<Rightarrow> InstantSample option" where
  "instant_row cols i = do {
     labels \<leftarrow> stringAt (cols ''labels'') i;
     time \<leftarrow> int64At (cols ''timestamp'') i;
     value \<leftarrow> float64At (cols ''value'') i;
     Some \<lparr>is_Labels = labels, is_Time = time, is_Value = value\<rparr> }"

definition metric_point_row :: "cols \<Rightarrow> nat \<Rightarrow> MetricPoint option" where
  "metric_point_row cols i = do {
     time \<leftarrow> int64At (cols ''point_time'') i;
     metric \<leftarrow> stringAt (cols ''metric'') i;
     service \<leftarrow> stringAt (cols ''service'') i;
     attributes \<leftarrow> stringAt (cols ''attributes'') i;
     value \<leftarrow> float64At (cols ''value'') i;
     Some \<lparr>mp_Time = time, mp_Metric = metric, mp_Service = service, mp_Attributes = attributes,
       mp_Value = value\<rparr> }"

definition metric_info_row :: "cols \<Rightarrow> nat \<Rightarrow> MetricInfo option" where
  "metric_info_row cols i = do {
     metric \<leftarrow> stringAt (cols ''metric'') i;
     unit \<leftarrow> stringAt (cols ''unit'') i;
     temporality \<leftarrow> stringAt (cols ''temporality'') i;
     kind \<leftarrow> stringAt (cols ''kind'') i;
     Some \<lparr>mi_Metric = metric, mi_Unit = unit, mi_Temporality = temporality, mi_Kind = kind\<rparr> }"

definition exemplar_row :: "cols \<Rightarrow> nat \<Rightarrow> Exemplar option" where
  "exemplar_row cols i = do {
     time \<leftarrow> int64At (cols ''time'') i;
     value \<leftarrow> float64At (cols ''value'') i;
     trace \<leftarrow> stringAt (cols ''trace_id'') i;
     span \<leftarrow> stringAt (cols ''span_id'') i;
     attributes \<leftarrow> stringAt (cols ''attributes'') i;
     Some \<lparr>ex_Time = time, ex_Value = value, ex_TraceID = trace, ex_SpanID = span,
       ex_Attributes = attributes\<rparr> }"

definition volume_row :: "cols \<Rightarrow> nat \<Rightarrow> VolumeBucket option" where
  "volume_row cols i = do {
     time \<leftarrow> int64At (cols ''bucket_time'') i;
     labels \<leftarrow> stringAt (cols ''labels'') i;
     count \<leftarrow> int64At (cols ''count'') i;
     Some \<lparr>vb_Time = time, vb_Labels = labels, vb_Count = count\<rparr> }"

definition string_row :: "string \<Rightarrow> cols \<Rightarrow> nat \<Rightarrow> string option" where
  "string_row col cols i = stringAt (cols col) i"

definition trace_match_row :: "cols \<Rightarrow> nat \<Rightarrow> TraceMatch option" where
  "trace_match_row cols i = do {
     trace \<leftarrow> stringAt (cols ''trace_id'') i;
     spans \<leftarrow> stringListAt (cols ''span_ids'') i;
     Some \<lparr>tm_TraceID = trace, tm_SpanIDs = spans\<rparr> }"

definition span_row :: "cols \<Rightarrow> nat \<Rightarrow> Span option" where
  "span_row cols i = do {
     trace \<leftarrow> bytesAt (cols ''trace_id'') i;
     span \<leftarrow> bytesAt (cols ''span_id'') i;
     parent \<leftarrow> bytesAt (cols ''parent_span_id'') i;
     name \<leftarrow> stringAt (cols ''name'') i;
     kind \<leftarrow> stringAt (cols ''kind'') i;
     start \<leftarrow> int64At (cols ''start_time'') i;
     duration \<leftarrow> int64At (cols ''duration_ns'') i;
     status \<leftarrow> stringAt (cols ''status_code'') i;
     message \<leftarrow> stringAt (cols ''status_message'') i;
     service \<leftarrow> stringAt (cols ''service'') i;
     attributes \<leftarrow> stringAt (cols ''attributes'') i;
     Some \<lparr>sp_TraceID = trace, sp_SpanID = span, sp_ParentSpanID = parent, sp_Name = name, sp_Kind = kind,
       sp_StartTime = start, sp_DurationNs = duration, sp_StatusCode = status, sp_StatusMessage = message,
       sp_Service = service, sp_Attributes = attributes\<rparr> }"

definition trace_summary_row :: "cols \<Rightarrow> nat \<Rightarrow> TraceSummary option" where
  "trace_summary_row cols i = do {
     trace \<leftarrow> stringAt (cols ''trace_id'') i;
     service \<leftarrow> stringAt (cols ''root_service'') i;
     name \<leftarrow> stringAt (cols ''root_name'') i;
     start \<leftarrow> int64At (cols ''start_time'') i;
     duration \<leftarrow> int64At (cols ''duration_ns'') i;
     count \<leftarrow> int64At (cols ''span_count'') i;
     error \<leftarrow> boolAt (cols ''error'') i;
     Some \<lparr>ts_TraceID = trace, ts_RootService = service, ts_RootName = name, ts_StartTime = start,
       ts_DurationNs = duration, ts_SpanCount = count, ts_Error = error\<rparr> }"

section \<open>The contract of a row decoder\<close>

text \<open>
  Every row decoder returns a row on a well-formed batch. That is all the loop needs: no batch panics,
  and the decoded rows are those of the batches, in order.
\<close>

locale row_decoder =
  fixes row :: "cols \<Rightarrow> nat \<Rightarrow> 'a option"
  assumes row_total: "(\<And>c. wf_col n (cols c)) \<Longrightarrow> i < n \<Longrightarrow> \<exists>x. row cols i = Some x"
begin

definition rows_of :: "batch \<Rightarrow> 'a list" where
  "rows_of b = map (\<lambda>i. the (row (columnsByName b) i)) [0..<b_rows b]"

lemma decode_rows_total: "wf_batch b \<Longrightarrow> decode_rows row b out = Some (out @ rows_of b)"
proof -
  assume wf: "wf_batch b"
  have "row (columnsByName b) i = Some (the (row (columnsByName b) i))" if "i \<in> set [0..<b_rows b]" for i
    using row_total [of "b_rows b" "columnsByName b" i] wf_batch_col [OF wf] that by auto
  then have "mapM (row (columnsByName b)) [0..<b_rows b] = Some (rows_of b)"
    unfolding rows_of_def by (rule mapM_Some_map)
  then show ?thesis by (simp add: decode_rows_def)
qed

lemma length_rows_of [simp]: "length (rows_of b) = b_rows b"
  by (simp add: rows_of_def)

lemma dec_all_rows:
  "(\<And>b. b \<in> set bs \<Longrightarrow> wf_batch b) \<Longrightarrow>
     dec_all (decode_rows row) bs out = Some (out @ concat (map rows_of bs))"
  by (induction bs arbitrary: out) (simp_all add: decode_rows_total)

lemma drain_rows:
  assumes "live_cursor r w" "slot_fetch_ok ev (r_queryID r)" "\<And>b. ev_import ev b = ImportOk"
    and "ctx_err (r_ctx r) w = None" "\<And>es. es \<in> set sched \<Longrightarrow> not_cancelled (r_ctx r) es"
    and "rows_view ev r w = (bs, m)" "\<And>b. b \<in> set bs \<Longrightarrow> wf_batch b"
  shows "fst (drain ev (decode_rows row) sched r w []) =
    Some (case query_err m of None \<Rightarrow> Inr (concat (map rows_of bs)) | Some e \<Rightarrow> Inl e)"
proof -
  obtain res r' w' where d: "drain ev (decode_rows row) sched r w [] = (res, r', w')" by (metis prod_cases3)
  have total: "dec_all (decode_rows row) bs [] = Some (concat (map rows_of bs))"
    using dec_all_rows [of bs "[]"] assms(7) by simp
  from drain_result [OF assms(1-3) d] assms(4-5)
  have "ctx_err (r_ctx r) w' = None" by blast
  with drain_result [OF assms(1-3) d] assms(6)
  have "drain_ok (decode_rows row) (bs, m) None [] res" by simp
  with total have "res = Some (case query_err m of None \<Rightarrow> Inr (concat (map rows_of bs)) | Some e \<Rightarrow> Inl e)"
    by (auto simp: drain_ok_def query_err_def split: option.splits sum.splits if_splits)
  with d show ?thesis by simp
qed

end

interpretation log_entries: row_decoder log_entry_row
  by unfold_locales (unfold log_entry_row_def, (rule bind_total reader_total | assumption | blast)+)

interpretation instant_samples: row_decoder instant_row
  by unfold_locales (unfold instant_row_def, (rule bind_total reader_total | assumption | blast)+)

interpretation metric_points: row_decoder metric_point_row
  by unfold_locales (unfold metric_point_row_def, (rule bind_total reader_total | assumption | blast)+)

interpretation metric_infos: row_decoder metric_info_row
  by unfold_locales (unfold metric_info_row_def, (rule bind_total reader_total | assumption | blast)+)

interpretation exemplars: row_decoder exemplar_row
  by unfold_locales (unfold exemplar_row_def, (rule bind_total reader_total | assumption | blast)+)

interpretation volume_buckets: row_decoder volume_row
  by unfold_locales (unfold volume_row_def, (rule bind_total reader_total | assumption | blast)+)

interpretation strings: row_decoder "string_row col" for col
  by unfold_locales (unfold string_row_def, (rule bind_total reader_total | assumption | blast)+)

interpretation trace_matches: row_decoder trace_match_row
  by unfold_locales (unfold trace_match_row_def, (rule bind_total reader_total | assumption | blast)+)

interpretation spans: row_decoder span_row
  by unfold_locales (unfold span_row_def, (rule bind_total reader_total | assumption | blast)+)

interpretation trace_summaries: row_decoder trace_summary_row
  by unfold_locales (unfold trace_summary_row_def, (rule bind_total reader_total | assumption | blast)+)

section \<open>The shared decoders\<close>

definition decodeLogEntries ::
  "'db env \<Rightarrow> event list list \<Rightarrow> rows \<Rightarrow> 'db world \<Rightarrow> LogEntry list result option \<times> rows \<times> 'db world" where
  "decodeLogEntries ev sched r w = drain ev (decode_rows log_entry_row) sched r w []"

definition collectStringColumn ::
  "'db env \<Rightarrow> event list list \<Rightarrow> rows \<Rightarrow> string \<Rightarrow> 'db world \<Rightarrow> string list result option \<times> rows \<times> 'db world" where
  "collectStringColumn ev sched r col w = drain ev (decode_rows (string_row col)) sched r w []"

definition decodeTraceMatches ::
  "'db env \<Rightarrow> event list list \<Rightarrow> rows \<Rightarrow> 'db world \<Rightarrow> TraceMatch list result option \<times> rows \<times> 'db world" where
  "decodeTraceMatches ev sched r w = drain ev (decode_rows trace_match_row) sched r w []"

section \<open>The batches the Rust side builds\<close>

text \<open>
  The handlers that build a batch themselves from the engine's structs. A non-null column has every slot
  valid; an optional value is a slot that is valid exactly when there is one.
\<close>

definition utf8_col :: "string list \<Rightarrow> arr" where
  "utf8_col vs = AString (map (Pair True) vs)"

definition utf8_opt_col :: "string option list \<Rightarrow> arr" where
  "utf8_opt_col vs = AString (map (\<lambda>v. case v of Some s \<Rightarrow> (True, s) | None \<Rightarrow> (False, [])) vs)"

definition int64_col :: "i64 list \<Rightarrow> arr" where
  "int64_col vs = AInt64 (map (Pair True) vs)"

definition float64_col :: "f64 list \<Rightarrow> arr" where
  "float64_col vs = AFloat64 (map (Pair True) vs)"

definition bool_col :: "bool list \<Rightarrow> arr" where
  "bool_col vs = ABoolean (map (Pair True) vs)"

definition utf8_batch :: "string \<Rightarrow> string list \<Rightarrow> batch" where
  "utf8_batch col values = \<lparr>b_fields = [(col, utf8_col values)], b_rows = length values\<rparr>"

definition series_batch :: "(string \<times> i64 \<times> f64) list \<Rightarrow> batch" where
  "series_batch rs = \<lparr>b_fields = [
     (''labels'', utf8_col (map fst rs)),
     (''timestamp'', int64_col (map (fst \<circ> snd) rs)),
     (''value'', float64_col (map (snd \<circ> snd) rs))], b_rows = length rs\<rparr>"

definition metric_catalog_batch :: "(string \<times> string \<times> string option \<times> string) list \<Rightarrow> batch" where
  "metric_catalog_batch ms = \<lparr>b_fields = [
     (''metric'', utf8_col (map fst ms)),
     (''unit'', utf8_col (map (fst \<circ> snd) ms)),
     (''temporality'', utf8_opt_col (map (fst \<circ> snd \<circ> snd) ms)),
     (''kind'', utf8_col (map (snd \<circ> snd \<circ> snd) ms))], b_rows = length ms\<rparr>"

definition exemplars_batch ::
  "(i64 \<times> f64 \<times> string option \<times> string option \<times> string) list \<Rightarrow> batch" where
  "exemplars_batch es = \<lparr>b_fields = [
     (''time'', int64_col (map fst es)),
     (''value'', float64_col (map (fst \<circ> snd) es)),
     (''trace_id'', utf8_opt_col (map (fst \<circ> snd \<circ> snd) es)),
     (''span_id'', utf8_opt_col (map (fst \<circ> snd \<circ> snd \<circ> snd) es)),
     (''attributes'', utf8_col (map (snd \<circ> snd \<circ> snd \<circ> snd) es))], b_rows = length es\<rparr>"

definition log_volume_batch :: "(i64 \<times> string \<times> u64) list \<Rightarrow> batch" where
  "log_volume_batch bs = \<lparr>b_fields = [
     (''bucket_time'', int64_col (map fst bs)),
     (''labels'', utf8_col (map (fst \<circ> snd) bs)),
     (''count'', int64_col (map (snd \<circ> snd) bs))], b_rows = length bs\<rparr>"

definition trace_search_batch ::
  "(string \<times> string option \<times> string option \<times> i64 \<times> u64 \<times> u64 \<times> bool) list \<Rightarrow> batch" where
  "trace_search_batch ts = \<lparr>b_fields = [
     (''trace_id'', utf8_col (map fst ts)),
     (''root_service'', utf8_opt_col (map (fst \<circ> snd) ts)),
     (''root_name'', utf8_opt_col (map (fst \<circ> snd \<circ> snd) ts)),
     (''start_time'', int64_col (map (fst \<circ> snd \<circ> snd \<circ> snd) ts)),
     (''duration_ns'', int64_col (map (fst \<circ> snd \<circ> snd \<circ> snd \<circ> snd) ts)),
     (''span_count'', int64_col (map (fst \<circ> snd \<circ> snd \<circ> snd \<circ> snd \<circ> snd) ts)),
     (''error'', bool_col (map (snd \<circ> snd \<circ> snd \<circ> snd \<circ> snd \<circ> snd) ts))], b_rows = length ts\<rparr>"

text \<open>A missing string is the empty string on the Go side.\<close>

definition or_empty :: "string option \<Rightarrow> string" where
  "or_empty s = (case s of Some x \<Rightarrow> x | None \<Rightarrow> [])"

lemma stringAt_utf8 [simp]: "i < length vs \<Longrightarrow> stringAt (Some (utf8_col vs)) i = Some (vs ! i)"
  by (simp add: stringAt_def utf8_col_def IsNull_def val_at_def)

lemma stringAt_utf8_opt [simp]:
  "i < length vs \<Longrightarrow> stringAt (Some (utf8_opt_col vs)) i = Some (or_empty (vs ! i))"
  by (simp add: stringAt_def utf8_opt_col_def IsNull_def val_at_def or_empty_def split: option.splits)

lemma int64At_col [simp]: "i < length vs \<Longrightarrow> int64At (Some (int64_col vs)) i = Some (vs ! i)"
  by (simp add: int64At_def int64_col_def IsNull_def val_at_def)

lemma float64At_col [simp]: "i < length vs \<Longrightarrow> float64At (Some (float64_col vs)) i = Some (vs ! i)"
  by (simp add: float64At_def float64_col_def IsNull_def val_at_def)

lemma boolAt_col [simp]: "i < length vs \<Longrightarrow> boolAt (Some (bool_col vs)) i = Some (vs ! i)"
  by (simp add: boolAt_def bool_col_def IsNull_def val_at_def)

lemma wf_cols [simp]:
  "wf_arr (utf8_col vs)" "alen (utf8_col vs) = length vs"
  "wf_arr (utf8_opt_col us)" "alen (utf8_opt_col us) = length us"
  "wf_arr (int64_col ns)" "alen (int64_col ns) = length ns"
  "wf_arr (float64_col fs)" "alen (float64_col fs) = length fs"
  "wf_arr (bool_col bs)" "alen (bool_col bs) = length bs"
  by (simp_all add: utf8_col_def utf8_opt_col_def int64_col_def float64_col_def bool_col_def alen_def)

lemma decode_rows_map:
  assumes "\<And>i. i < length xs \<Longrightarrow> row (columnsByName b) i = Some (f (xs ! i))" "b_rows b = length xs"
  shows "decode_rows row b out = Some (out @ map f xs)"
proof -
  have "mapM (row (columnsByName b)) [0..<length xs] = Some (map (\<lambda>i. f (xs ! i)) [0..<length xs])"
    by (rule mapM_Some_map) (use assms in simp)
  also have "map (\<lambda>i. f (xs ! i)) [0..<length xs] = map f xs"
    by (metis map_nth map_map comp_apply map_cong)
  finally show ?thesis using assms(2) by (simp add: decode_rows_def)
qed

lemma utf8_batch_decodes: "decode_rows (string_row col) (utf8_batch col vs) out = Some (out @ vs)"
  using decode_rows_map [of vs "string_row col" "utf8_batch col vs" id out]
  by (simp add: utf8_batch_def string_row_def columnsByName_map_of)

text \<open>
  Every batch the Rust handlers build is read back by its Go decoder without loss: one row per
  struct, in order, with an absent string as the empty string and the 64-bit counts with their bits.
\<close>
theorem rust_batches_decode:
  "decode_rows (string_row col) (utf8_batch col vs) out = Some (out @ vs) \<and>
   decode_rows instant_row (series_batch rs) out1 = Some (out1 @ map (\<lambda>(l, t, v).
     \<lparr>is_Labels = l, is_Time = t, is_Value = v\<rparr>) rs) \<and>
   decode_rows metric_info_row (metric_catalog_batch ms) out2 = Some (out2 @ map (\<lambda>(m, u, t, k).
     \<lparr>mi_Metric = m, mi_Unit = u, mi_Temporality = or_empty t, mi_Kind = k\<rparr>) ms) \<and>
   decode_rows exemplar_row (exemplars_batch es) out3 = Some (out3 @ map (\<lambda>(t, v, tr, sp, a).
     \<lparr>ex_Time = t, ex_Value = v, ex_TraceID = or_empty tr, ex_SpanID = or_empty sp, ex_Attributes = a\<rparr>) es) \<and>
   decode_rows volume_row (log_volume_batch bs) out4 = Some (out4 @ map (\<lambda>(t, l, c).
     \<lparr>vb_Time = t, vb_Labels = l, vb_Count = c\<rparr>) bs) \<and>
   decode_rows trace_summary_row (trace_search_batch ts) out5 = Some (out5 @ map (\<lambda>(t, s, n, st, d, c, e).
     \<lparr>ts_TraceID = t, ts_RootService = or_empty s, ts_RootName = or_empty n, ts_StartTime = st,
       ts_DurationNs = d, ts_SpanCount = c, ts_Error = e\<rparr>) ts)"
proof (intro conjI)
  show "decode_rows (string_row col) (utf8_batch col vs) out = Some (out @ vs)" by (rule utf8_batch_decodes)
qed (rule decode_rows_map, simp add: case_prod_beta columnsByName_map_of
       instant_row_def series_batch_def metric_info_row_def metric_catalog_batch_def
       exemplar_row_def exemplars_batch_def volume_row_def log_volume_batch_def
       trace_summary_row_def trace_search_batch_def,
     simp add: series_batch_def metric_catalog_batch_def exemplars_batch_def log_volume_batch_def
       trace_search_batch_def)+

section \<open>The properties of the loop\<close>

text \<open>
  The decoder of log rows returns every row of the query, in order, or the query's own error: for
  any schedule of the handlers that does not cancel the context, on the well-formed batches Arrow
  delivers.
\<close>
theorem decodeLogEntries_complete:
  assumes "live_cursor r w" "slot_fetch_ok ev (r_queryID r)" "\<And>b. ev_import ev b = ImportOk"
    and "ctx_err (r_ctx r) w = None" "\<And>es. es \<in> set sched \<Longrightarrow> not_cancelled (r_ctx r) es"
    and "rows_view ev r w = (bs, m)" "\<And>b. b \<in> set bs \<Longrightarrow> wf_batch b"
  shows "fst (decodeLogEntries ev sched r w) =
    Some (case query_err m of
      None \<Rightarrow> Inr (concat (map (\<lambda>b. map (\<lambda>i. the (log_entry_row (columnsByName b) i)) [0..<b_rows b]) bs))
    | Some e \<Rightarrow> Inl e)"
  using log_entries.drain_rows [OF assms]
  unfolding decodeLogEntries_def log_entries.rows_of_def [abs_def] .

theorem decodeLogEntries_complete_witness:
  "fst (decodeLogEntries demo_env [[Produce 0], []] (fst (demo_cursor ''mid'')) (snd (demo_cursor ''mid''))) =
     Some (Inl (ErrorString ''imbhgo: query failed: disk''))"
proof -
  have view: "rows_view demo_env (fst (demo_cursor ''mid'')) (snd (demo_cursor ''mid'')) =
      ([demo_batch [''a'']], ''disk'')"
    using demo_cursor_live [of "''mid''" demo_env]
    by (simp add: reply_view_def handler_reply_def demo_env_def utf8_valid_ascii)
  have wf: "wf_batch (demo_batch [''a''])" by (simp add: wf_batch_def demo_batch_def alen_def)
  have ctx: "ctx_err (r_ctx (fst (demo_cursor ''mid''))) (snd (demo_cursor ''mid'')) = None"
    using demo_cursor_live [of "''mid''" demo_env] by (simp add: ctx_err_def)
  have sched: "\<And>es. es \<in> set [[Produce 0], []] \<Longrightarrow> not_cancelled (r_ctx (fst (demo_cursor ''mid''))) es"
    by (auto simp: not_cancelled_def)
  have live: "live_cursor (fst (demo_cursor ''mid'')) (snd (demo_cursor ''mid''))"
    using demo_cursor_live [of "''mid''" demo_env] by simp
  note c = decodeLogEntries_complete [OF live demo_fetch demo_import ctx sched view]
  have "fst (decodeLogEntries demo_env [[Produce 0], []] (fst (demo_cursor ''mid'')) (snd (demo_cursor ''mid''))) =
     Some (Inl (ErrorString (''imbhgo: query failed: '' @ ''disk'')))"
    by (subst c) (use wf in \<open>auto simp: query_err_def\<close>)
  then show ?thesis by simp
qed

text \<open>
  C8. Success is never a truncation: whatever the schedule, cancellations included, a drain that returns
  rows has decoded every batch of the query, and the query had no error; an error is the query's or
  the context's, and only a decoder can make it panic.
\<close>
theorem drain_no_truncation:
  assumes "live_cursor r w" "slot_fetch_ok ev (r_queryID r)" "\<And>b. ev_import ev b = ImportOk"
    and "drain ev dec sched r w acc = (res, r', w')"
  shows "case res of
      None \<Rightarrow> dec_all dec (fst (rows_view ev r w)) acc = None
    | Some (Inr out) \<Rightarrow> dec_all dec (fst (rows_view ev r w)) acc = Some out \<and> snd (rows_view ev r w) = []
    | Some (Inl e) \<Rightarrow> ctx_err (r_ctx r) w' = Some e \<or> query_err (snd (rows_view ev r w)) = Some e"
  using drain_result [OF assms] by (auto simp: drain_ok_def split: option.splits sum.splits)

theorem drain_no_truncation_witness:
  "fst (collectStringColumn demo_env [[], [Cancel 0 CtxCanceled]]
     (fst (demo_cursor ''ok'')) ''name'' (snd (demo_cursor ''ok''))) = Some (Inl CtxCanceled) \<and>
   query_err (snd (rows_view demo_env (fst (demo_cursor ''ok'')) (snd (demo_cursor ''ok'')))) = None"
proof -
  let ?r = "fst (demo_cursor ''ok'')" and ?w = "snd (demo_cursor ''ok'')"
  obtain res r' w' where d: "drain demo_env (decode_rows (string_row ''name'')) [[], [Cancel 0 CtxCanceled]] ?r ?w []
      = (res, r', w')" by (metis prod_cases3)
  have "live_cursor ?r ?w" using demo_cursor_live [of "''ok''" demo_env] by simp
  note t = drain_no_truncation [OF this demo_fetch demo_import d]
  have "fst (drain demo_env (decode_rows (string_row ''name'')) [[], [Cancel 0 CtxCanceled]] ?r ?w []) =
      Some (Inl CtxCanceled)" by code_simp
  moreover have "query_err (snd (rows_view demo_env ?r ?w)) = None" by code_simp
  ultimately show ?thesis using t d by (simp add: collectStringColumn_def)
qed

text \<open>
  The loop leaves nothing behind, whatever the environment does (cancellation, failing imports,
  transport errors, a failing engine): it ends the cursor and closes its stream, keeps the ownership
  invariant, and unless a reader panicked every record it pulled has been released.
\<close>
theorem drain_leaves_nothing:
  assumes "winv w" "decodeLogEntries ev sched r w = (res, r', w')"
  shows "winv w' \<and> r_ended r' \<and> \<not> opened (r_s r) w' \<and>
    (res \<noteq> None \<longrightarrow> (\<forall>p. w_owner w' p = Some GoOwned \<longrightarrow> w_owner w p = Some GoOwned))"
  using drain_safe [OF assms(1)] assms(2) by (simp add: decodeLogEntries_def)

theorem drain_leaves_nothing_witness:
  "r_ended (fst (snd (decodeLogEntries demo_env [] (fst (demo_cursor ''ok'')) (snd (demo_cursor ''ok'')))))"
proof -
  have "winv (snd (demo_cursor ''ok''))" using demo_cursor_live [of "''ok''" demo_env] by (simp add: live_cursor_def)
  from drain_leaves_nothing [OF this] show ?thesis by (metis prod.collapse)
qed

end
