(* ===== verification/Series.thy ===== *)
theory Series
  imports Decode GoStrings
begin

text \<open>
  The decoders that group rows into series: \<open>QueryMetricsTyped\<close> (group columns \<open>g0\<close> to \<open>gN\<close>) and
  \<open>decodeLabeledSeries\<close> (a map column), and the row decoder of \<open>QuerySpanMetricsTyped\<close>. The code keeps an
  index from a grouping key to a position; the specification groups by the labels themselves. The two
  agree as long as no label contains the NUL byte that the key uses as terminator.
\<close>

section \<open>Grouping as the code does it\<close>

type_synonym labels = "string \<rightharpoonup> string"
type_synonym sample = "string \<times> labels \<times> Point"
type_synonym grouping = "(string \<rightharpoonup> nat) \<times> Series list"

definition add_sample :: "sample \<Rightarrow> grouping \<Rightarrow> grouping option" where
  "add_sample = (\<lambda>(key, labels, p) (index, out).
     case index key of
       None \<Rightarrow> Some (index(key \<mapsto> length out), out @ [\<lparr>se_Labels = labels, se_Points = [p]\<rparr>])
     | Some si \<Rightarrow>
         do { s \<leftarrow> elt out si;
              Some (index, out[si := s\<lparr>se_Points := se_Points s @ [p]\<rparr>]) })"

fun add_samples :: "sample list \<Rightarrow> grouping \<Rightarrow> grouping option" where
  "add_samples [] g = Some g"
| "add_samples (s # ss) g = do { g' \<leftarrow> add_sample s g; add_samples ss g' }"

fun add_rows :: "(cols \<Rightarrow> nat \<Rightarrow> sample option) \<Rightarrow> cols \<Rightarrow> nat list \<Rightarrow> grouping \<Rightarrow> grouping option" where
  "add_rows row cols [] g = Some g"
| "add_rows row cols (i # is) g =
     do { s \<leftarrow> row cols i; g' \<leftarrow> add_sample s g; add_rows row cols is g' }"

definition group_batch :: "(cols \<Rightarrow> nat \<Rightarrow> sample option) \<Rightarrow> grouping batch_decoder" where
  "group_batch row b g = add_rows row (columnsByName b) [0..<b_rows b] g"

text \<open>The labels and the key of a row of a metric range query.\<close>

fun labels_loop :: "cols \<Rightarrow> nat \<Rightarrow> nat \<Rightarrow> string list \<Rightarrow> labels \<Rightarrow> string \<Rightarrow> (labels \<times> string) option" where
  "labels_loop cols i gi [] labels b = Some (labels, b)"
| "labels_loop cols i gi (key # keys) labels b =
     do { v \<leftarrow> stringAt (cols (''g'' @ itoa gi)) i;
          labels_loop cols i (Suc gi) keys (labels(key \<mapsto> v)) (b @ v @ [nul]) }"

definition labelsAt :: "cols \<Rightarrow> string list \<Rightarrow> nat \<Rightarrow> (labels \<times> string) option" where
  "labelsAt cols keys i = labels_loop cols i 0 keys Map.empty []"

definition metric_row :: "string list \<Rightarrow> cols \<Rightarrow> nat \<Rightarrow> sample option" where
  "metric_row groupBy cols i = do {
     (labels, key) \<leftarrow> labelsAt cols groupBy i;
     t \<leftarrow> int64At (cols ''bucket'') i;
     v \<leftarrow> float64At (cols ''v'') i;
     Some (key, labels, \<lparr>pt_T = t, pt_V = v\<rparr>) }"

text \<open>The key of a label map: its entries in key order, each component terminated.\<close>

definition seriesKey :: "labels \<Rightarrow> string" where
  "seriesKey m = terminated (concat (map (\<lambda>k. [k, the (m k)]) (sorted_list_of_set (dom m))))"

definition labeled_row :: "cols \<Rightarrow> nat \<Rightarrow> sample option" where
  "labeled_row cols i = do {
     m \<leftarrow> mapStringAt (cols ''labels'') i;
     t \<leftarrow> int64At (cols ''ts'') i;
     v \<leftarrow> float64At (cols ''value'') i;
     Some (seriesKey m, m, \<lparr>pt_T = t, pt_V = v\<rparr>) }"

definition drain_series ::
  "'db env \<Rightarrow> (cols \<Rightarrow> nat \<Rightarrow> sample option) \<Rightarrow> event list list \<Rightarrow> rows \<Rightarrow> 'db world \<Rightarrow>
   Series list result option \<times> rows \<times> 'db world" where
  "drain_series ev row sched r w =
     (case drain ev (group_batch row) sched r w (Map.empty, []) of
        (res, r', w') \<Rightarrow> (map_option (map_sum id snd) res, r', w'))"

definition decodeLabeledSeries ::
  "'db env \<Rightarrow> event list list \<Rightarrow> rows \<Rightarrow> 'db world \<Rightarrow> Series list result option \<times> rows \<times> 'db world" where
  "decodeLabeledSeries ev = drain_series ev labeled_row"

text \<open>The decoding half of \<open>QueryMetricsTyped\<close>; a \<open>Matrix\<close> is its list of series.\<close>

definition decode_matrix ::
  "'db env \<Rightarrow> string list \<Rightarrow> event list list \<Rightarrow> rows \<Rightarrow> 'db world \<Rightarrow> Series list result option \<times> rows \<times> 'db world" where
  "decode_matrix ev groupBy = drain_series ev (metric_row groupBy)"

definition span_metric_row :: "string list \<Rightarrow> cols \<Rightarrow> nat \<Rightarrow> SpanMetricPoint option" where
  "span_metric_row groupBy cols i = do {
     (labels, _) \<leftarrow> labelsAt cols groupBy i;
     bucket \<leftarrow> int64At (cols ''bucket'') i;
     calls \<leftarrow> int64At (cols ''calls'') i;
     errors \<leftarrow> int64At (cols ''errors'') i;
     p50 \<leftarrow> float64At (cols ''p50'') i;
     p95 \<leftarrow> float64At (cols ''p95'') i;
     p99 \<leftarrow> float64At (cols ''p99'') i;
     Some \<lparr>sm_Bucket = bucket, sm_Labels = labels, sm_Calls = calls, sm_Errors = errors,
       sm_P50 = p50, sm_P95 = p95, sm_P99 = p99\<rparr> }"

section \<open>Grouping as a specification\<close>

fun firsts :: "'a list \<Rightarrow> 'a list" where
  "firsts [] = []"
| "firsts (x # xs) = x # filter (\<lambda>y. y \<noteq> x) (firsts xs)"

text \<open>One series per distinct label, in order of first appearance, with the points of that label.\<close>

definition series_by :: "('l \<Rightarrow> labels) \<Rightarrow> ('l \<times> Point) list \<Rightarrow> Series list" where
  "series_by f xs = map (\<lambda>l. \<lparr>se_Labels = f l, se_Points = map snd (filter (\<lambda>x. fst x = l) xs)\<rparr>)
     (firsts (map fst xs))"

lemma set_firsts [simp]: "set (firsts xs) = set xs"
  by (induction xs) auto

lemma distinct_firsts [simp]: "distinct (firsts xs)"
  by (induction xs) auto

lemma firsts_snoc: "firsts (xs @ [x]) = firsts xs @ (if x \<in> set xs then [] else [x])"
  by (induction xs) auto

lemma firsts_map: "inj_on f (set xs) \<Longrightarrow> firsts (map f xs) = map f (firsts xs)"
proof (induction xs)
  case (Cons x xs)
  have "filter (\<lambda>y. y \<noteq> f x) (map f (firsts xs)) = map f (filter (\<lambda>y. y \<noteq> x) (firsts xs))"
  proof -
    have "filter (\<lambda>y. f y \<noteq> f x) (firsts xs) = filter (\<lambda>y. y \<noteq> x) (firsts xs)"
      by (rule filter_cong) (use Cons.prems in \<open>auto simp: inj_on_def\<close>)
    then show ?thesis by (simp add: filter_map comp_def)
  qed
  with Cons show ?case by (simp add: inj_on_insert)
qed simp

section \<open>The code computes the specification\<close>

text \<open>The state after some samples: the index gives each key its position among the first occurrences.\<close>

definition position :: "string list \<Rightarrow> string \<rightharpoonup> nat" where
  "position ks = map_of (zip (firsts ks) [0..<length (firsts ks)])"

definition first_labels :: "sample list \<Rightarrow> string \<Rightarrow> labels" where
  "first_labels xs k = (case map_of (map (\<lambda>(k, l, p). (k, l)) xs) k of Some l \<Rightarrow> l | None \<Rightarrow> Map.empty)"

definition keyed :: "sample list \<Rightarrow> (string \<times> Point) list" where
  "keyed xs = map (\<lambda>(k, l, p). (k, p)) xs"

definition group_state :: "sample list \<Rightarrow> grouping" where
  "group_state xs = (position (map fst xs), series_by (first_labels xs) (keyed xs))"

lemma fst_keyed [simp]: "map fst (keyed xs) = map fst xs"
  by (simp add: keyed_def case_prod_beta comp_def)

lemma length_series [simp]: "length (series_by f xs) = length (firsts (map fst xs))"
  by (simp add: series_by_def)

lemma keyed_snoc: "keyed (xs @ [(k, l, p)]) = keyed xs @ [(k, p)]"
  by (simp add: keyed_def)

lemma nth_series_by:
  "j < length (firsts (map fst xs)) \<Longrightarrow> series_by f xs ! j =
     \<lparr>se_Labels = f (firsts (map fst xs) ! j),
      se_Points = map snd (filter (\<lambda>x. fst x = firsts (map fst xs) ! j) xs)\<rparr>"
  by (simp add: series_by_def)

lemma position_None: "position ks k = None \<longleftrightarrow> k \<notin> set ks"
  by (simp add: position_def map_of_zip_is_None del: map_of_eq_None_iff)

lemma position_nth: "i < length (firsts ks) \<Longrightarrow> position ks (firsts ks ! i) = Some i"
  by (simp add: position_def map_of_zip_nth)

lemma position_Some:
  assumes "position ks k = Some i"
  shows "i < length (firsts ks) \<and> firsts ks ! i = k"
proof -
  from assms have "(k, i) \<in> set (zip (firsts ks) [0..<length (firsts ks)])"
    unfolding position_def by (rule map_of_SomeD)
  then show ?thesis by (auto simp: set_zip)
qed

lemma map_of_snoc: "map_of xs k = None \<Longrightarrow> map_of (xs @ [(k, v)]) = (map_of xs)(k \<mapsto> v)"
  by (rule ext) (auto simp: map_add_def split: option.splits)

lemma position_snoc:
  "position (ks @ [k]) = (if k \<in> set ks then position ks else (position ks)(k \<mapsto> length (firsts ks)))"
proof (cases "k \<in> set ks")
  case False
  have none: "map_of (zip (firsts ks) [0..<length (firsts ks)]) k = None"
    using False by (simp add: map_of_zip_is_None del: map_of_eq_None_iff)
  have "map_of (zip (firsts ks @ [k]) ([0..<length (firsts ks)] @ [length (firsts ks)])) =
      map_of (zip (firsts ks) [0..<length (firsts ks)] @ [(k, length (firsts ks))])" by simp
  also have "\<dots> = (map_of (zip (firsts ks) [0..<length (firsts ks)]))(k \<mapsto> length (firsts ks))"
    by (rule map_of_snoc) (rule none)
  finally have "map_of (zip (firsts ks @ [k]) ([0..<length (firsts ks)] @ [length (firsts ks)])) =
      (map_of (zip (firsts ks) [0..<length (firsts ks)]))(k \<mapsto> length (firsts ks))" .
  with False show ?thesis by (simp add: position_def firsts_snoc)
qed (simp add: position_def firsts_snoc)

lemma first_labels_snoc:
  "first_labels (xs @ [(k, l, p)]) k' =
     (if k' \<in> set (map fst xs) then first_labels xs k' else if k' = k then l else Map.empty)"
proof -
  have "map_of (map (\<lambda>(k, l, p). (k, l)) xs) k' = None \<longleftrightarrow> k' \<notin> set (map fst xs)"
    by (force simp: map_of_eq_None_iff)
  then show ?thesis by (auto simp: first_labels_def map_add_def split: option.splits)
qed

lemma add_sample_state: "add_sample x (group_state xs) = Some (group_state (xs @ [x]))"
proof -
  obtain k l p where x: "x = (k, l, p)" by (cases x)
  let ?ks = "map fst xs"
  show ?thesis
  proof (cases "k \<in> set ?ks")
    case False
    then have pos: "position ?ks k = None" by (simp add: position_None)
    have "series_by (first_labels (xs @ [x])) (keyed (xs @ [x])) =
        series_by (first_labels xs) (keyed xs) @ [\<lparr>se_Labels = l, se_Points = [p]\<rparr>]"
    proof -
      have "filter (\<lambda>y. fst y = k) (keyed xs) = []"
        using False by (auto simp: filter_empty_conv keyed_def image_iff)
      moreover have "first_labels (xs @ [x]) k = l" using False by (simp add: first_labels_snoc x)
      moreover have "first_labels (xs @ [x]) k' = first_labels xs k'" if "k' \<in> set (firsts ?ks)" for k'
        using that by (simp add: first_labels_snoc x)
      moreover have "k' \<noteq> k" if "k' \<in> set (firsts ?ks)" for k' using that False by auto
      ultimately show ?thesis using False
        by (simp add: series_by_def firsts_snoc) (auto simp: keyed_def x)
    qed
    with pos False x show ?thesis by (simp add: add_sample_def group_state_def position_snoc)
  next
    case True
    then obtain i where pos: "position ?ks k = Some i" using position_None by fastforce
    note at = position_Some [OF pos]
    let ?old = "series_by (first_labels xs) (keyed xs)"
    have "series_by (first_labels (xs @ [x])) (keyed (xs @ [x])) =
        ?old[i := (?old ! i)\<lparr>se_Points := se_Points (?old ! i) @ [p]\<rparr>]"
    proof (rule nth_equalityI)
      show "length (series_by (first_labels (xs @ [x])) (keyed (xs @ [x]))) =
          length (?old[i := (?old ! i)\<lparr>se_Points := se_Points (?old ! i) @ [p]\<rparr>])"
        using True by (simp add: firsts_snoc x)
      fix j assume "j < length (series_by (first_labels (xs @ [x])) (keyed (xs @ [x])))"
      then have j: "j < length (firsts ?ks)" using True by (simp add: firsts_snoc x)
      then have mem: "firsts ?ks ! j \<in> set ?ks" using nth_mem by fastforce
      have eq: "k = firsts ?ks ! j \<longleftrightarrow> i = j"
        using at j nth_eq_iff_index_eq [OF distinct_firsts] by metis
      have same: "firsts (?ks @ [k]) = firsts ?ks" using True by (simp add: firsts_snoc)
      have new: "series_by (first_labels (xs @ [x])) (keyed (xs @ [x])) ! j =
          \<lparr>se_Labels = first_labels xs (firsts ?ks ! j),
           se_Points = map snd (filter (\<lambda>y. fst y = firsts ?ks ! j) (keyed (xs @ [x])))\<rparr>"
        using j mem by (subst nth_series_by) (simp_all add: same first_labels_snoc x)
      have old: "?old ! j = \<lparr>se_Labels = first_labels xs (firsts ?ks ! j),
           se_Points = map snd (filter (\<lambda>y. fst y = firsts ?ks ! j) (keyed xs))\<rparr>"
        using j by (subst nth_series_by) simp_all
      show "series_by (first_labels (xs @ [x])) (keyed (xs @ [x])) ! j =
          ?old[i := (?old ! i)\<lparr>se_Points := se_Points (?old ! i) @ [p]\<rparr>] ! j"
        unfolding new using old j eq by (cases "i = j") (simp_all add: x keyed_snoc)
    qed
    with pos at True x show ?thesis by (simp add: add_sample_def group_state_def position_snoc)
  qed
qed

lemma add_samples_state: "add_samples ys (group_state xs) = Some (group_state (xs @ ys))"
  by (induction ys arbitrary: xs) (simp_all add: add_sample_state)

lemma group_state_Nil: "group_state [] = (Map.empty, [])"
  by (simp add: group_state_def position_def series_by_def keyed_def)

lemma add_rows_samples:
  "mapM (row cols) is = Some xs \<Longrightarrow> add_rows row cols is g = add_samples xs g"
  by (induction "is" arbitrary: xs g) (auto split: Option.bind_splits)

section \<open>Grouping by key is grouping by label\<close>

text \<open>
  What a grouping key has to satisfy: on the labels that can occur, it is injective. Then the code's
  series are those of the specification over the labels, whatever the labels are.
\<close>

locale grouping_key =
  fixes ok :: "'l \<Rightarrow> bool"
    and key :: "'l \<Rightarrow> string"
  assumes key_inject: "ok a \<Longrightarrow> ok b \<Longrightarrow> key a = key b \<Longrightarrow> a = b"
begin

lemma group_by_label:
  assumes "\<And>l p. (l, p) \<in> set xs \<Longrightarrow> ok l"
  shows "snd (group_state (map (\<lambda>(l, p). (key l, f l, p)) xs)) = series_by f xs"
proof -
  let ?ss = "map (\<lambda>(l, p). (key l, f l, p)) xs"
  have fst_ss: "map fst ?ss = map key (map fst xs)" by (simp add: case_prod_beta)
  have ok: "ok l" if "l \<in> set (map fst xs)" for l
    using that assms by (auto simp: case_prod_beta)
  have inj: "inj_on key (set (map fst xs))"
    by (rule inj_onI) (rule key_inject [OF ok ok])
  have key_eq: "key l' = key l \<longleftrightarrow> l' = l" if "l \<in> set (map fst xs)" "l' \<in> set (map fst xs)" for l l'
    using inj that by (auto dest: inj_onD)
  have pts: "filter (\<lambda>y. fst y = key l) (keyed ?ss) = map (\<lambda>(l, p). (key l, p)) (filter (\<lambda>x. fst x = l) xs)"
    if "l \<in> set (map fst xs)" for l
  proof -
    have "filter (\<lambda>x. key (fst x) = key l) xs = filter (\<lambda>x. fst x = l) xs"
      by (rule filter_cong) (use key_eq that in auto)
    then show ?thesis by (simp add: keyed_def filter_map comp_def case_prod_beta)
  qed
  have lab: "first_labels ?ss (key l) = f l" if l: "l \<in> set (map fst xs)" for l
  proof -
    have "map_of (map (\<lambda>(l, p). (key l, f l)) xs) (key l) = Some (f l)"
    proof -
      from l have "key l \<in> fst ` set (map (\<lambda>(l, p). (key l, f l)) xs)" by force
      then have "map_of (map (\<lambda>(l, p). (key l, f l)) xs) (key l) \<noteq> None"
        by (simp only: map_of_eq_None_iff not_not)
      then obtain y where y: "map_of (map (\<lambda>(l, p). (key l, f l)) xs) (key l) = Some y" by blast
      from map_of_SomeD [OF y] obtain l' p where lp: "(l', p) \<in> set xs" "key l' = key l" "y = f l'" by auto
      from lp(1) have "l' \<in> set (map fst xs)" by force
      with key_eq [OF l] lp have "y = f l" by simp
      with y show ?thesis by simp
    qed
    then show ?thesis by (simp add: first_labels_def comp_def case_prod_unfold)
  qed
  show ?thesis
    unfolding group_state_def snd_conv series_by_def fst_keyed fst_ss firsts_map [OF inj]
    by (simp add: pts lab comp_def case_prod_beta)
qed

end

definition nul_free :: "string \<Rightarrow> bool" where
  "nul_free s \<longleftrightarrow> nul \<notin> set s"

text \<open>The key of \<open>labelsAt\<close>: the values of the group columns.\<close>

interpretation value_key: grouping_key "list_all nul_free" terminated
  by unfold_locales (auto simp: list_all_iff nul_free_def intro: terminated_inject)

text \<open>\<open>seriesKey\<close> on label maps.\<close>

definition labels_ok :: "labels \<Rightarrow> bool" where
  "labels_ok m \<longleftrightarrow> finite (dom m) \<and> (\<forall>k v. m k = Some v \<longrightarrow> nul_free k \<and> nul_free v)"

lemma concat_pairs_inject:
  "concat (map (\<lambda>k. [k, f k]) ks) = concat (map (\<lambda>k. [k, g k]) ls) \<Longrightarrow> ks = ls \<and> (\<forall>k\<in>set ks. f k = g k)"
proof (induction ks arbitrary: ls)
  case Nil
  then show ?case by (cases ls) auto
next
  case (Cons k ks)
  then show ?case by (cases ls) auto
qed

lemma seriesKey_inject:
  assumes "labels_ok m" "labels_ok m'" "seriesKey m = seriesKey m'"
  shows "m = m'"
proof -
  let ?flat = "\<lambda>m. concat (map (\<lambda>k. [k, the (m k)]) (sorted_list_of_set (dom m)))"
  have free: "\<forall>s\<in>set (?flat n). nul \<notin> set s" if "labels_ok n" for n :: labels
    using that by (auto simp: labels_ok_def nul_free_def)
  have "?flat m = ?flat m'"
    using assms(3) free [OF assms(1)] free [OF assms(2)] unfolding seriesKey_def by (rule terminated_inject)
  from concat_pairs_inject [OF this]
  have keys: "sorted_list_of_set (dom m) = sorted_list_of_set (dom m')"
    and vals: "\<forall>k\<in>set (sorted_list_of_set (dom m)). the (m k) = the (m' k)" by blast+
  have fin: "finite (dom m)" "finite (dom m')" using assms(1,2) by (simp_all add: labels_ok_def)
  with keys have dom: "dom m = dom m'" by (metis sorted_list_of_set.set_sorted_key_list_of_set)
  show ?thesis
  proof
    fix k show "m k = m' k"
    proof (cases "k \<in> dom m")
      case True
      with vals fin(1) have "the (m k) = the (m' k)" by simp
      with True dom show ?thesis by (metis domD option.sel)
    next
      case False
      with dom show ?thesis by (metis domIff)
    qed
  qed
qed

interpretation label_key: grouping_key labels_ok seriesKey
  by unfold_locales (rule seriesKey_inject)

section \<open>Whole results\<close>

text \<open>A grouping decoder is a row decoder whose rows are samples; grouping them never panics.\<close>

locale sample_decoder = row_decoder row
  for row :: "cols \<Rightarrow> nat \<Rightarrow> sample option"
begin

lemma group_batch_rows:
  "wf_batch b \<Longrightarrow> group_batch row b (group_state xs) = Some (group_state (xs @ rows_of b))"
proof -
  assume wf: "wf_batch b"
  have "row (columnsByName b) i = Some (the (row (columnsByName b) i))" if "i \<in> set [0..<b_rows b]" for i
    using row_total [of "b_rows b" "columnsByName b" i] wf_batch_col [OF wf] that by auto
  then have "mapM (row (columnsByName b)) [0..<b_rows b] = Some (rows_of b)"
    unfolding rows_of_def by (rule mapM_Some_map)
  then show ?thesis by (simp add: group_batch_def add_rows_samples add_samples_state)
qed

lemma dec_all_groups:
  "(\<And>b. b \<in> set bs \<Longrightarrow> wf_batch b) \<Longrightarrow>
     dec_all (group_batch row) bs (group_state xs) = Some (group_state (xs @ concat (map rows_of bs)))"
  by (induction bs arbitrary: xs) (simp_all add: group_batch_rows)

lemma drain_groups:
  assumes "live_cursor r w" "slot_fetch_ok ev (r_queryID r)" "\<And>b. ev_import ev b = ImportOk"
    and "ctx_err (r_ctx r) w = None" "\<And>es. es \<in> set sched \<Longrightarrow> not_cancelled (r_ctx r) es"
    and "rows_view ev r w = (bs, m)" "\<And>b. b \<in> set bs \<Longrightarrow> wf_batch b"
  shows "fst (drain_series ev row sched r w) =
    Some (case query_err m of
      None \<Rightarrow> Inr (snd (group_state (concat (map rows_of bs)))) | Some e \<Rightarrow> Inl e)"
proof -
  obtain res r' w' where d: "drain ev (group_batch row) sched r w (Map.empty, []) = (res, r', w')"
    by (metis prod_cases3)
  have total: "dec_all (group_batch row) bs (Map.empty, []) = Some (group_state (concat (map rows_of bs)))"
    using dec_all_groups [of bs "[]"] assms(7) by (simp add: group_state_Nil)
  from drain_result [OF assms(1-3) d] assms(4-5)
  have "ctx_err (r_ctx r) w' = None" by blast
  with drain_result [OF assms(1-3) d] assms(6)
  have "drain_ok (group_batch row) (bs, m) None (Map.empty, []) res" by simp
  with total have "res = Some (case query_err m of
      None \<Rightarrow> Inr (group_state (concat (map rows_of bs))) | Some e \<Rightarrow> Inl e)"
    by (auto simp: drain_ok_def query_err_def split: option.splits sum.splits if_splits)
  with d show ?thesis by (simp add: drain_series_def split: option.splits)
qed

end

lemma labels_loop_values:
  "mapM (\<lambda>j. stringAt (cols (''g'' @ itoa j)) i) [gi..<gi + length keys] = Some vs \<Longrightarrow>
     labels_loop cols i gi keys m b = Some (m ++ map_of (rev (zip keys vs)), b @ terminated vs)"
proof (induction keys arbitrary: gi vs m b)
  case (Cons k keys)
  have upt: "[gi..<gi + length (k # keys)] = gi # [Suc gi..<Suc gi + length keys]"
    by (simp add: upt_conv_Cons del: upt_Suc)
  from Cons.prems [unfolded upt] obtain v vs' where v: "stringAt (cols (''g'' @ itoa gi)) i = Some v"
    and vs: "vs = v # vs'"
    and rest: "mapM (\<lambda>j. stringAt (cols (''g'' @ itoa j)) i) [Suc gi..<Suc gi + length keys] = Some vs'"
    by (auto simp del: upt_Suc split: Option.bind_splits)
  have upd: "m(k \<mapsto> v) ++ map_of (rev (zip keys vs')) = m ++ map_of (rev (zip keys vs') @ [(k, v)])"
    by (rule ext) (simp add: map_add_def split: option.splits)
  have "labels_loop cols i (Suc gi) keys (m(k \<mapsto> v)) (b @ v @ [nul]) =
      Some (m(k \<mapsto> v) ++ map_of (rev (zip keys vs')), (b @ v @ [nul]) @ terminated vs')"
    by (rule Cons.IH [OF rest])
  then show ?case using v vs unfolding upd by simp
qed simp

text \<open>The label values of a row, as the specification sees them.\<close>

definition group_values :: "string list \<Rightarrow> cols \<Rightarrow> nat \<Rightarrow> string list option" where
  "group_values keys cols i = mapM (\<lambda>j. stringAt (cols (''g'' @ itoa j)) i) [0..<length keys]"

definition labels_of :: "string list \<Rightarrow> string list \<Rightarrow> labels" where
  "labels_of keys vs = map_of (rev (zip keys vs))"

lemma group_values_total [reader_total]:
  "(\<And>c. wf_col n (cols c)) \<Longrightarrow> i < n \<Longrightarrow> \<exists>vs. group_values keys cols i = Some vs"
  unfolding group_values_def by (rule mapM_total) (use stringAt_total in fastforce)

lemma labelsAt_values:
  "group_values keys cols i = Some vs \<Longrightarrow> labelsAt cols keys i = Some (labels_of keys vs, terminated vs)"
  using labels_loop_values [of cols i 0 keys vs Map.empty "[]"]
  by (simp add: group_values_def labelsAt_def labels_of_def)

lemma labelsAt_total [reader_total]:
  "(\<And>c. wf_col n (cols c)) \<Longrightarrow> i < n \<Longrightarrow> \<exists>x. labelsAt cols keys i = Some x"
  using group_values_total [of n cols i keys] labelsAt_values by blast

interpretation metric_samples: sample_decoder "metric_row keys" for keys
  by unfold_locales (unfold metric_row_def case_prod_unfold, (rule bind_total reader_total | assumption | blast)+)

interpretation labeled_samples: sample_decoder labeled_row
  by unfold_locales (unfold labeled_row_def, (rule bind_total reader_total | assumption | blast)+)

interpretation span_metrics: row_decoder "span_metric_row keys" for keys
  by unfold_locales (unfold span_metric_row_def case_prod_unfold, (rule bind_total reader_total | assumption | blast)+)

section \<open>The properties\<close>

text \<open>The rows of a batch, as labels and point.\<close>

definition metric_pairs :: "string list \<Rightarrow> batch \<Rightarrow> (string list \<times> Point) list" where
  "metric_pairs keys b = map (\<lambda>i. (the (group_values keys (columnsByName b) i),
     \<lparr>pt_T = the (int64At (columnsByName b ''bucket'') i), pt_V = the (float64At (columnsByName b ''v'') i)\<rparr>))
     [0..<b_rows b]"

definition labeled_pairs :: "batch \<Rightarrow> (labels \<times> Point) list" where
  "labeled_pairs b = map (\<lambda>i. (the (mapStringAt (columnsByName b ''labels'') i),
     \<lparr>pt_T = the (int64At (columnsByName b ''ts'') i), pt_V = the (float64At (columnsByName b ''value'') i)\<rparr>))
     [0..<b_rows b]"

definition labels_nul_free :: "labels \<Rightarrow> bool" where
  "labels_nul_free m \<longleftrightarrow> (\<forall>k v. m k = Some v \<longrightarrow> nul_free k \<and> nul_free v)"

lemma metric_rows_of:
  assumes "wf_batch b"
  shows "metric_samples.rows_of keys b = map (\<lambda>(vs, p). (terminated vs, labels_of keys vs, p)) (metric_pairs keys b)"
proof -
  have "the (metric_row keys (columnsByName b) i) =
      (\<lambda>(vs, p). (terminated vs, labels_of keys vs, p)) (the (group_values keys (columnsByName b) i),
       \<lparr>pt_T = the (int64At (columnsByName b ''bucket'') i), pt_V = the (float64At (columnsByName b ''v'') i)\<rparr>)"
    if i: "i < b_rows b" for i
  proof -
    note wf = wf_batch_col [OF assms]
    obtain vs where vs: "group_values keys (columnsByName b) i = Some vs"
      using group_values_total [of "b_rows b" "columnsByName b" i keys, OF wf i] by blast
    obtain t where t: "int64At (columnsByName b ''bucket'') i = Some t" using int64At_total [OF wf i] by blast
    obtain v where v: "float64At (columnsByName b ''v'') i = Some v" using float64At_total [OF wf i] by blast
    show ?thesis using labelsAt_values [OF vs] vs t v by (simp add: metric_row_def)
  qed
  then show ?thesis by (simp add: metric_samples.rows_of_def metric_pairs_def)
qed

lemma labeled_rows_of:
  assumes "wf_batch b"
  shows "labeled_samples.rows_of b = map (\<lambda>(m, p). (seriesKey m, m, p)) (labeled_pairs b)"
proof -
  have "the (labeled_row (columnsByName b) i) =
      (\<lambda>(m, p). (seriesKey m, m, p)) (the (mapStringAt (columnsByName b ''labels'') i),
       \<lparr>pt_T = the (int64At (columnsByName b ''ts'') i), pt_V = the (float64At (columnsByName b ''value'') i)\<rparr>)"
    if i: "i < b_rows b" for i
  proof -
    note wf = wf_batch_col [OF assms]
    obtain m where m: "mapStringAt (columnsByName b ''labels'') i = Some m" using mapStringAt_total [OF wf i] by blast
    obtain t where t: "int64At (columnsByName b ''ts'') i = Some t" using int64At_total [OF wf i] by blast
    obtain v where v: "float64At (columnsByName b ''value'') i = Some v" using float64At_total [OF wf i] by blast
    show ?thesis using m t v by (simp add: labeled_row_def)
  qed
  then show ?thesis by (simp add: labeled_samples.rows_of_def labeled_pairs_def)
qed

lemma map_entries_finite:
  "map_entries ks vs js m = Some m' \<Longrightarrow> finite (dom m) \<Longrightarrow> finite (dom m')"
  by (induction js arbitrary: m) (auto split: Option.bind_splits)

lemma mapStringAt_finite: "mapStringAt col i = Some m \<Longrightarrow> finite (dom m)"
  by (auto simp: mapStringAt_def split: option.splits arr.splits Option.bind_splits if_splits
      dest: map_entries_finite)

text \<open>An engine that answers every SQL text with one batch, for the examples.\<close>

definition one_batch_env :: "batch \<Rightarrow> nat env" where
  "one_batch_env b = demo_env\<lparr>ev_sql := (\<lambda>_ _. Inr [Item b])\<rparr>"

definition demo_matrix :: batch where
  "demo_matrix = \<lparr>b_fields = [
     (''g0'', AString [(True, ''x''), (True, ''y''), (True, ''x'')]),
     (''bucket'', AInt64 [(True, 1), (True, 1), (True, 2)]),
     (''v'', AFloat64 [(True, 7), (True, 8), (True, 9)])], b_rows = 3\<rparr>"

definition demo_labeled :: "string \<Rightarrow> batch" where
  "demo_labeled tcol = \<lparr>b_fields = [
     (''labels'', AMap [True, True] [0, 1, 2] (AString [(True, ''k''), (True, ''k'')])
        (AString [(True, ''x''), (True, ''y'')])),
     (tcol, AInt64 [(True, 5), (True, 6)]),
     (''value'', AFloat64 [(True, 7), (True, 8)])], b_rows = 2\<rparr>"

lemma one_batch_cursor:
  fixes b :: batch
  defines "r \<equiv> fst (demo_cursor ''q'')" and "w \<equiv> snd (demo_cursor ''q'')"
  shows "live_cursor r w" "slot_fetch_ok (one_batch_env b) (r_queryID r)"
    "\<And>c. ev_import (one_batch_env b) c = ImportOk" "ctx_err (r_ctx r) w = None"
    "rows_view (one_batch_env b) r w = ([b], [])" "\<And>es. es \<in> set [] \<Longrightarrow> not_cancelled (r_ctx r) es"
  using demo_cursor_live [of "''q''" "one_batch_env b"]
  by (simp_all add: r_def w_def slot_fetch_ok_def one_batch_env_def ctx_err_def reply_view_def
      handler_reply_def utf8_valid_ascii) (simp_all add: demo_env_def)



text \<open>
  The label-map decoder of PromQL and LogQL results returns one series per distinct label set, no two
  alike, with all points of that label set in row order, when no label contains a NUL byte.
\<close>
theorem decodeLabeledSeries_groups:
  assumes "live_cursor r w" "slot_fetch_ok ev (r_queryID r)" "\<And>b. ev_import ev b = ImportOk"
    and "ctx_err (r_ctx r) w = None" "\<And>es. es \<in> set sched \<Longrightarrow> not_cancelled (r_ctx r) es"
    and "rows_view ev r w = (bs, [])" "\<And>b. b \<in> set bs \<Longrightarrow> wf_batch b"
    and "\<And>b m p. b \<in> set bs \<Longrightarrow> (m, p) \<in> set (labeled_pairs b) \<Longrightarrow> labels_nul_free m"
  shows "fst (decodeLabeledSeries ev sched r w) =
      Some (Inr (series_by id (concat (map labeled_pairs bs)))) \<and>
    distinct (map se_Labels (series_by id (concat (map labeled_pairs bs))))"
proof
  let ?pairs = "concat (map labeled_pairs bs)"
  have ok: "labels_ok m" if "(m, p) \<in> set ?pairs" for m p
  proof -
    from that obtain b where b: "b \<in> set bs" "(m, p) \<in> set (labeled_pairs b)" by auto
    then obtain i where i: "i < b_rows b" "m = the (mapStringAt (columnsByName b ''labels'') i)"
      by (auto simp: labeled_pairs_def)
    with mapStringAt_total [OF wf_batch_col [OF assms(7) [OF b(1)]]] have "finite (dom m)"
      by (metis mapStringAt_finite option.sel)
    with assms(8) [OF b] show ?thesis by (simp add: labels_ok_def labels_nul_free_def)
  qed
  have "concat (map labeled_samples.rows_of bs) = map (\<lambda>(m, p). (seriesKey m, id m, p)) ?pairs"
    using assms(7) by (induction bs) (simp_all add: labeled_rows_of)
  moreover have "snd (group_state (map (\<lambda>(m, p). (seriesKey m, id m, p)) ?pairs)) = series_by id ?pairs"
    by (rule label_key.group_by_label) (rule ok)
  ultimately show "fst (decodeLabeledSeries ev sched r w) = Some (Inr (series_by id ?pairs))"
    using labeled_samples.drain_groups [OF assms(1-7)]
    by (simp add: decodeLabeledSeries_def query_err_def)
  show "distinct (map se_Labels (series_by id ?pairs))"
    by (simp add: series_by_def comp_def)
qed

theorem decodeLabeledSeries_groups_witness:
  "fst (decodeLabeledSeries (one_batch_env (demo_labeled ''ts'')) [] (fst (demo_cursor ''q'')) (snd (demo_cursor ''q''))) =
    Some (Inr [\<lparr>se_Labels = [''k'' \<mapsto> ''x''], se_Points = [\<lparr>pt_T = 5, pt_V = 7\<rparr>]\<rparr>,
               \<lparr>se_Labels = [''k'' \<mapsto> ''y''], se_Points = [\<lparr>pt_T = 6, pt_V = 8\<rparr>]\<rparr>])"
proof -
  have pairs: "labeled_pairs (demo_labeled ''ts'') =
      [([''k'' \<mapsto> ''x''], \<lparr>pt_T = 5, pt_V = 7\<rparr>), ([''k'' \<mapsto> ''y''], \<lparr>pt_T = 6, pt_V = 8\<rparr>)]"
    by (simp add: labeled_pairs_def demo_labeled_def columnsByName_map_of upt_rec mapStringAt_def IsNull_def
        stringFromArray_def val_at_def int64At_def float64At_def upto.simps)
  have wf: "\<And>b. b \<in> set [demo_labeled ''ts''] \<Longrightarrow> wf_batch b" by (simp add: wf_batch_def demo_labeled_def alen_def)
  have free: "\<And>b m p. b \<in> set [demo_labeled ''ts''] \<Longrightarrow> (m, p) \<in> set (labeled_pairs b) \<Longrightarrow> labels_nul_free m"
    using pairs by (auto simp: labels_nul_free_def nul_free_def nul_def split: if_splits)
  have "[''k'' \<mapsto> ''x''] \<noteq> [''k'' \<mapsto> ''y'']" by (auto dest: fun_upd_eqD)
  moreover have "fst (decodeLabeledSeries (one_batch_env (demo_labeled ''ts'')) []
      (fst (demo_cursor ''q'')) (snd (demo_cursor ''q''))) =
      Some (Inr (series_by id (concat (map labeled_pairs [demo_labeled ''ts'']))))"
    by (rule decodeLabeledSeries_groups [OF one_batch_cursor(1-4) _ one_batch_cursor(5), THEN conjunct1])
      (use wf free in auto)
  ultimately show ?thesis by (simp add: pairs series_by_def)
qed

text \<open>
  C36. The timestamps of a label-map result are read from the column \<open>ts\<close>: a result in the documented
  columns labels, timestamp and value decodes with the time of every point 0.
\<close>
theorem labeled_series_without_ts:
  assumes "live_cursor r w" "slot_fetch_ok ev (r_queryID r)" "\<And>b. ev_import ev b = ImportOk"
    and "ctx_err (r_ctx r) w = None" "\<And>es. es \<in> set sched \<Longrightarrow> not_cancelled (r_ctx r) es"
    and "rows_view ev r w = (bs, [])" "\<And>b. b \<in> set bs \<Longrightarrow> wf_batch b"
    and "\<And>b. b \<in> set bs \<Longrightarrow> ''ts'' \<notin> set (map fst (b_fields b))"
  shows "\<exists>ss. fst (decodeLabeledSeries ev sched r w) = Some (Inr ss) \<and>
    (\<forall>s\<in>set ss. \<forall>p\<in>set (se_Points s). pt_T p = 0)"
proof -
  let ?rows = "concat (map labeled_samples.rows_of bs)"
  have "pt_T p = 0" if "(k, m, p) \<in> set ?rows" for k m p
  proof -
    from that obtain b where b: "b \<in> set bs" "(k, m, p) \<in> set (labeled_samples.rows_of b)" by auto
    have "columnsByName b ''ts'' = None"
      using assms(8) [OF b(1)] by (auto simp: columnsByName_map_of map_of_eq_None_iff)
    with b(2) show ?thesis
      by (auto simp: labeled_rows_of [OF assms(7) [OF b(1)]] labeled_pairs_def int64At_def)
  qed
  then have "\<forall>s\<in>set (snd (group_state ?rows)). \<forall>p\<in>set (se_Points s). pt_T p = 0"
    by (force simp: group_state_def series_by_def keyed_def)
  with labeled_samples.drain_groups [OF assms(1-7)] show ?thesis
    by (simp add: decodeLabeledSeries_def query_err_def)
qed

theorem labeled_series_without_ts_witness:
  "fst (decodeLabeledSeries (one_batch_env (demo_labeled ''timestamp'')) []
      (fst (demo_cursor ''q'')) (snd (demo_cursor ''q''))) \<noteq> None \<and>
   map_option (map_sum id (list_all (\<lambda>s. list_all (\<lambda>p. pt_T p = 0) (se_Points s))))
     (fst (decodeLabeledSeries (one_batch_env (demo_labeled ''timestamp'')) []
        (fst (demo_cursor ''q'')) (snd (demo_cursor ''q'')))) = Some (Inr True)"
proof -
  have wf: "\<And>b. b \<in> set [demo_labeled ''timestamp''] \<Longrightarrow> wf_batch b"
    by (simp add: wf_batch_def demo_labeled_def alen_def)
  have no: "\<And>b. b \<in> set [demo_labeled ''timestamp''] \<Longrightarrow> ''ts'' \<notin> set (map fst (b_fields b))"
    by (simp add: demo_labeled_def)
  have "\<exists>ss. fst (decodeLabeledSeries (one_batch_env (demo_labeled ''timestamp'')) []
      (fst (demo_cursor ''q'')) (snd (demo_cursor ''q''))) = Some (Inr ss) \<and>
    (\<forall>s\<in>set ss. \<forall>p\<in>set (se_Points s). pt_T p = 0)"
    by (rule labeled_series_without_ts [OF one_batch_cursor(1-4) _ one_batch_cursor(5)]) (use wf no in auto)
  then show ?thesis by (auto simp: list_all_iff)
qed

text \<open>
  The NUL-free condition is needed: two rows whose label values differ can share the grouping key, and
  then the second row's point is filed under the first row's labels.
\<close>
theorem nul_labels_collide:
  "terminated [''a'' @ [nul], ''b''] = terminated [''a'', nul # ''b''] \<and>
   (\<exists>i. add_samples (map (\<lambda>(vs, p). (terminated vs, labels_of [''x'', ''y''] vs, p))
      [([''a'' @ [nul], ''b''], p1), ([''a'', nul # ''b''], p2)]) (Map.empty, []) =
      Some (i, [\<lparr>se_Labels = [''x'' \<mapsto> ''a'' @ [nul], ''y'' \<mapsto> ''b''], se_Points = [p1, p2]\<rparr>]))"
proof -
  have "[''y'' \<mapsto> ''b''] ++ [''x'' \<mapsto> ''a'' @ [nul]] = [''x'' \<mapsto> ''a'' @ [nul], ''y'' \<mapsto> ''b'']"
    by (rule ext) (simp add: map_add_def)
  then show ?thesis by (simp add: add_sample_def labels_of_def fun_upd_twist)
qed

end
