(* ===== verification/Release.thy ===== *)
theory Release
  imports GoStrings
begin

text \<open>
  \<open>internal/release/release.go\<close>: the coordinates of the prebuilt archives. The lemmas show that the
  naming scheme keeps target cells apart, in the cache and among the assets of a release.
\<close>

definition Version :: string where
  "Version = ''v0.6.0''"

definition DefaultBaseURL :: string where
  "DefaultBaseURL = ''https://github.com/moriyoshi/imbh-go/releases/download''"

definition SumsName :: string where
  "SumsName = ''SHA256SUMS''"

definition LibcGlibc :: string where
  "LibcGlibc = ''glibc''"

definition LibcMusl :: string where
  "LibcMusl = ''musl''"

definition AssetName :: "string \<Rightarrow> string \<Rightarrow> string \<Rightarrow> string \<Rightarrow> string" where
  "AssetName version goos goarch libc =
     (let name = ''libimbhgo-'' @ version @ ''-'' @ goos @ ''-'' @ goarch;
          name = (if goos = ''linux'' \<and> libc = LibcMusl then name @ ''-'' @ LibcMusl else name)
      in name @ ''.a.zst'')"

definition AssetURL :: "string \<Rightarrow> string \<Rightarrow> string \<Rightarrow> string \<Rightarrow> string \<Rightarrow> string" where
  "AssetURL baseURL version goos goarch libc =
     TrimRightByte (CHR ''/'') baseURL @ ''/'' @ version @ ''/'' @ AssetName version goos goarch libc"

definition SumsURL :: "string \<Rightarrow> string \<Rightarrow> string" where
  "SumsURL baseURL version = TrimRightByte (CHR ''/'') baseURL @ ''/'' @ version @ ''/'' @ SumsName"

definition CacheSubdir :: "string \<Rightarrow> string \<Rightarrow> string \<Rightarrow> string \<Rightarrow> string" where
  "CacheSubdir version goos goarch libc =
     (let cell = goos @ ''-'' @ goarch;
          cell = (if goos = ''linux'' \<and> libc = LibcMusl then cell @ ''-'' @ LibcMusl else cell)
      in ''imbhgo/'' @ version @ ''/'' @ cell)"

fun first_libc :: "(string \<Rightarrow> bool) \<Rightarrow> string list \<Rightarrow> string" where
  "first_libc exists [] = LibcGlibc"
| "first_libc exists (g # gs) = (if exists g then LibcMusl else first_libc exists gs)"

definition DefaultLibc :: "string \<Rightarrow> (string \<Rightarrow> bool) \<Rightarrow> string" where
  "DefaultLibc goos exists =
     (if goos \<noteq> ''linux'' then []
      else first_libc exists [''/lib/ld-musl-*.so.1'', ''/lib/libc.musl-*.so.1''])"

section \<open>Cells are kept apart\<close>

definition musl :: "string \<Rightarrow> string \<Rightarrow> bool" where
  "musl goos libc \<longleftrightarrow> goos = ''linux'' \<and> libc = LibcMusl"

definition cell_name :: "string \<Rightarrow> string \<Rightarrow> string \<Rightarrow> string" where
  "cell_name goos goarch libc =
     goos @ CHR ''-'' # goarch @ (if musl goos libc then ''-musl'' else [])"

lemma AssetName_cell:
  "AssetName v goos goarch libc = ''libimbhgo-'' @ v @ ''-'' @ cell_name goos goarch libc @ ''.a.zst''"
  by (auto simp: AssetName_def cell_name_def musl_def LibcMusl_def Let_def)

lemma CacheSubdir_cell:
  "CacheSubdir v goos goarch libc = ''imbhgo/'' @ v @ CHR ''/'' # cell_name goos goarch libc"
  by (auto simp: CacheSubdir_def cell_name_def musl_def LibcMusl_def Let_def)

lemma append_suffix_eq:
  assumes "a @ s = b @ t" "d \<notin> set a" "d \<notin> set b" "s = [] \<or> s = d # u" "t = [] \<or> t = d # u"
  shows "a = b \<and> s = t"
proof -
  from assms(4) show ?thesis
  proof
    assume "s = []"
    with assms show ?thesis by auto
  next
    assume s: "s = d # u"
    with assms(1,2) have "d \<in> set (b @ t)" by (metis in_set_conv_decomp)
    with assms(3,5) have "t = d # u" by auto
    with s assms(1-3) show ?thesis by (auto dest: append_sep_inject)
  qed
qed

lemma cell_name_inject:
  assumes "cell_name o1 a1 l1 = cell_name o2 a2 l2"
    and "CHR ''-'' \<notin> set o1" "CHR ''-'' \<notin> set o2" "CHR ''-'' \<notin> set a1" "CHR ''-'' \<notin> set a2"
  shows "o1 = o2 \<and> a1 = a2 \<and> musl o1 l1 = musl o2 l2"
proof -
  from assms(1-3) have "o1 = o2"
    and rest: "a1 @ (if musl o1 l1 then ''-musl'' else []) = a2 @ (if musl o2 l2 then ''-musl'' else [])"
    unfolding cell_name_def by (blast dest: append_sep_inject)+
  have "a1 = a2 \<and> (if musl o1 l1 then ''-musl'' else []) = (if musl o2 l2 then ''-musl'' else [])"
    by (rule append_suffix_eq [OF rest assms(4-5), where u = "''musl''"]) auto
  with \<open>o1 = o2\<close> show ?thesis by (auto split: if_splits)
qed

text \<open>
  Two target cells share a cache directory only if they are the same cell, and within a release
  they share an asset name only then, provided versions have no slash and system names no dash (as every
  GOOS and GOARCH). The C library counts only where it is musl on Linux.
\<close>
theorem cells_distinct:
  assumes "CHR ''/'' \<notin> set v1" "CHR ''/'' \<notin> set v2"
    and "CHR ''-'' \<notin> set o1" "CHR ''-'' \<notin> set o2" "CHR ''-'' \<notin> set a1" "CHR ''-'' \<notin> set a2"
  shows "(CacheSubdir v1 o1 a1 l1 = CacheSubdir v2 o2 a2 l2 \<longleftrightarrow>
            v1 = v2 \<and> o1 = o2 \<and> a1 = a2 \<and> musl o1 l1 = musl o2 l2) \<and>
         (AssetName v1 o1 a1 l1 = AssetName v1 o2 a2 l2 \<longleftrightarrow>
            o1 = o2 \<and> a1 = a2 \<and> musl o1 l1 = musl o2 l2)"
proof
  have same: "cell_name o1 a1 l1 = cell_name o2 a2 l2 \<longleftrightarrow> o1 = o2 \<and> a1 = a2 \<and> musl o1 l1 = musl o2 l2"
    (is "?l \<longleftrightarrow> ?r")
  proof
    show "?l \<Longrightarrow> ?r" by (rule cell_name_inject [OF _ assms(3-6)])
    show "?r \<Longrightarrow> ?l" by (auto simp: cell_name_def)
  qed
  have "CacheSubdir v1 o1 a1 l1 = CacheSubdir v2 o2 a2 l2 \<longleftrightarrow>
      v1 = v2 \<and> cell_name o1 a1 l1 = cell_name o2 a2 l2"
    using append_sep_inject [OF _ assms(1-2)] by (auto simp: CacheSubdir_cell)
  with same show "CacheSubdir v1 o1 a1 l1 = CacheSubdir v2 o2 a2 l2 \<longleftrightarrow>
      v1 = v2 \<and> o1 = o2 \<and> a1 = a2 \<and> musl o1 l1 = musl o2 l2" by simp
  show "AssetName v1 o1 a1 l1 = AssetName v1 o2 a2 l2 \<longleftrightarrow>
      o1 = o2 \<and> a1 = a2 \<and> musl o1 l1 = musl o2 l2"
    using same by (simp add: AssetName_cell)
qed

theorem cells_distinct_witness:
  "CacheSubdir Version ''linux'' ''amd64'' ''musl'' \<noteq> CacheSubdir Version ''linux'' ''amd64'' ''glibc'' \<and>
   AssetName Version ''darwin'' ''arm64'' [] = AssetName Version ''darwin'' ''arm64'' ''musl''"
  using cells_distinct [of Version Version "''linux''" "''linux''" "''amd64''" "''amd64''" "''musl''" "''glibc''"]
    cells_distinct [of Version Version "''darwin''" "''darwin''" "''arm64''" "''arm64''" "[]" "''musl''"]
  by (simp add: musl_def Version_def LibcMusl_def)

end
