(* ===== verification/Fetch.thy ===== *)
theory Fetch
  imports Release
begin

text \<open>
  \<open>cmd/imbhgo-fetch/main.go\<close>: the tool that downloads, verifies and installs the prebuilt archive. The
  host is explicit state (files, directories, output, requests made); what it answers is a record of
  functions: HTTP replies, system-call failures, the SHA-256 digest, the zstd decoder. The theorems hold
  for every choice of them. Paths are slash-separated, as on the systems where the separator is a slash.
\<close>

section \<open>The host\<close>

datatype http_reply = GetError string | Response nat string "string + bytes"

text \<open>The system calls that can fail, with the path they are applied to.\<close>

datatype sysop = SysStat | SysRead | SysMkdir | SysCreate | SysWrite | SysClose | SysRename | SysRemove
  | SysOpenWrite

record host_env =
  e_cache_root :: "string + string"
  e_http :: "string \<Rightarrow> http_reply"
  e_fail :: "sysop \<Rightarrow> string \<Rightarrow> string option"
  e_written :: nat
  e_temp :: string
  e_sha256 :: "bytes \<Rightarrow> bytes"
  e_zstd_init :: "string option"
  e_zstd :: "bytes \<Rightarrow> string + bytes"
  e_glob :: "string \<Rightarrow> bool"
  e_build :: "string option"
  e_goos :: string
  e_goarch :: string
  e_ulow :: "string \<Rightarrow> string"
  e_quote :: "string \<Rightarrow> string"
  e_usage :: string

type_synonym files = "string \<Rightarrow> bytes option"

record host =
  h_files :: files
  h_hist :: "files list"
  h_dirs :: "string set"
  h_gets :: "string list"
  h_out :: string
  h_err :: string

text \<open>Every change of the files is also recorded, as the states a crash could leave behind.\<close>

definition put_file :: "string \<Rightarrow> bytes option \<Rightarrow> host \<Rightarrow> host" where
  "put_file p c h = (let fs = (h_files h)(p := c) in h\<lparr>h_files := fs, h_hist := h_hist h @ [fs]\<rparr>)"

definition exists_path :: "string \<Rightarrow> host \<Rightarrow> bool" where
  "exists_path p h \<longleftrightarrow> h_files h p \<noteq> None \<or> path_Clean p \<in> h_dirs h"

definition os_Stat :: "host_env \<Rightarrow> string \<Rightarrow> host \<Rightarrow> bool" where
  "os_Stat ev p h \<longleftrightarrow> e_fail ev SysStat p = None \<and> exists_path p h"

definition os_ReadFile :: "host_env \<Rightarrow> string \<Rightarrow> host \<Rightarrow> bytes option" where
  "os_ReadFile ev p h = (case e_fail ev SysRead p of Some _ \<Rightarrow> None | None \<Rightarrow> h_files h p)"

definition os_MkdirAll :: "host_env \<Rightarrow> string \<Rightarrow> host \<Rightarrow> (string + unit) \<times> host" where
  "os_MkdirAll ev p h =
     (case e_fail ev SysMkdir p of
        Some e \<Rightarrow> (Inl e, h)
      | None \<Rightarrow> (Inr (), h\<lparr>h_dirs := insert (path_Clean p) (h_dirs h)\<rparr>))"

definition os_CreateTemp :: "host_env \<Rightarrow> string \<Rightarrow> string \<Rightarrow> string \<Rightarrow> host \<Rightarrow> (string + string) \<times> host" where
  "os_CreateTemp ev dir pre suf h =
     (let p = dir @ ''/'' @ pre @ e_temp ev @ suf in
      case e_fail ev SysCreate p of
        Some e \<Rightarrow> (Inl e, h)
      | None \<Rightarrow>
          if path_Clean dir \<notin> h_dirs h then (Inl ''no such file or directory'', h)
          else if exists_path p h then (Inl ''file exists'', h)
          else (Inr p, put_file p (Some []) h))"

definition file_Write :: "host_env \<Rightarrow> string \<Rightarrow> bytes \<Rightarrow> host \<Rightarrow> (string + unit) \<times> host" where
  "file_Write ev p data h =
     (case e_fail ev SysWrite p of
        Some e \<Rightarrow> (Inl e, put_file p (Some (take (e_written ev) data)) h)
      | None \<Rightarrow> (Inr (), put_file p (Some data) h))"

definition os_Rename :: "host_env \<Rightarrow> string \<Rightarrow> string \<Rightarrow> host \<Rightarrow> (string + unit) \<times> host" where
  "os_Rename ev p q h =
     (case e_fail ev SysRename q of
        Some e \<Rightarrow> (Inl e, h)
      | None \<Rightarrow>
          let fs = (h_files h)(q := h_files h p, p := None)
          in (Inr (), h\<lparr>h_files := fs, h_hist := h_hist h @ [fs]\<rparr>))"

definition os_Remove :: "host_env \<Rightarrow> string \<Rightarrow> host \<Rightarrow> host" where
  "os_Remove ev p h =
     (if e_fail ev SysRemove p \<noteq> None \<or> h_files h p = None then h else put_file p None h)"

text \<open>\<open>os.WriteFile\<close> truncates the file when it opens it, so a failing write leaves a part of the data.\<close>

definition os_WriteFile :: "host_env \<Rightarrow> string \<Rightarrow> bytes \<Rightarrow> host \<Rightarrow> (string + unit) \<times> host" where
  "os_WriteFile ev p data h =
     (case e_fail ev SysOpenWrite p of
        Some e \<Rightarrow> (Inl e, h)
      | None \<Rightarrow> file_Write ev p data (put_file p (Some []) h))"

definition logf :: "string \<Rightarrow> host \<Rightarrow> host" where
  "logf msg h = h\<lparr>h_err := h_err h @ ''imbhgo-fetch: '' @ msg @ [CHR 0x0A]\<rparr>"

section \<open>Downloads and checksums\<close>

definition hex_digit :: "nat \<Rightarrow> char" where
  "hex_digit d = (if d < 10 then char_of (48 + d) else char_of (87 + d))"

definition hex_encode :: "bytes \<Rightarrow> string" where
  "hex_encode bs = concat (map (\<lambda>b. [hex_digit (byte b div 16), hex_digit (byte b mod 16)]) bs)"

definition sha256Hex :: "host_env \<Rightarrow> bytes \<Rightarrow> string" where
  "sha256Hex ev b = hex_encode (e_sha256 ev b)"

definition download :: "host_env \<Rightarrow> string \<Rightarrow> host \<Rightarrow> (string + bytes) \<times> host" where
  "download ev url h =
     (let h1 = h\<lparr>h_gets := h_gets h @ [url]\<rparr> in
      case e_http ev url of
        GetError e \<Rightarrow> (Inl (''GET '' @ url @ '': '' @ e), h1)
      | Response code status body \<Rightarrow>
          (if code \<noteq> 200 then Inl (''GET '' @ url @ '': '' @ status) else body, h1))"

text \<open>\<open>parseSums\<close> on the lines of the manifest, the first that names the asset.\<close>

fun sums_lines :: "(string \<Rightarrow> string) \<Rightarrow> string list \<Rightarrow> string \<Rightarrow> string option" where
  "sums_lines ulow [] assetName = None"
| "sums_lines ulow (l # ls) assetName =
     (let line = TrimSpace l in
      if line = [] \<or> HasPrefix line ''#'' then sums_lines ulow ls assetName
      else let fields = Fields line in
        if length fields < 2 then sums_lines ulow ls assetName
        else let name = TrimPrefix (fields ! (length fields - 1)) ''*'' in
          if path_Base name = assetName then Some (ToLower ulow (fields ! 0))
          else sums_lines ulow ls assetName)"

definition parseSums :: "(string \<Rightarrow> string) \<Rightarrow> string \<Rightarrow> string \<Rightarrow> string option" where
  "parseSums ulow manifest assetName = sums_lines ulow (SplitByte (CHR 0x0A) manifest) assetName"

definition expectedSum :: "host_env \<Rightarrow> string \<Rightarrow> string \<Rightarrow> string \<Rightarrow> host \<Rightarrow> (string + string) \<times> host" where
  "expectedSum ev baseURL version assetName h =
     (case download ev (SumsURL baseURL version) h of
        (Inl e, h1) \<Rightarrow> (Inl e, h1)
      | (Inr body, h1) \<Rightarrow>
          (case parseSums (e_ulow ev) body assetName of
             None \<Rightarrow> (Inl (''no checksum for '' @ assetName @ '' in '' @ SumsName), h1)
           | Some chk \<Rightarrow> (Inr chk, h1)))"

definition cachedMatches :: "host_env \<Rightarrow> string \<Rightarrow> string \<Rightarrow> string \<Rightarrow> host \<Rightarrow> bool" where
  "cachedMatches ev archivePath sidecarPath expected h =
     (if \<not> os_Stat ev archivePath h then False
      else case os_ReadFile ev sidecarPath h of
             None \<Rightarrow> False
           | Some got \<Rightarrow> TrimSpace got = expected)"

section \<open>Installing the archive\<close>

text \<open>
  The body of \<open>decompressToFile\<close> once the temporary file exists; the deferred \<open>os.Remove\<close> runs on every
  way out.
\<close>

definition install_from :: "host_env \<Rightarrow> bytes \<Rightarrow> string \<Rightarrow> string \<Rightarrow> host \<Rightarrow> (string + unit) \<times> host" where
  "install_from ev raw tmpName dst h =
     (case file_Write ev tmpName raw h of
        (Inl e, h1) \<Rightarrow> (Inl (''write archive: '' @ e), h1)
      | (Inr _, h1) \<Rightarrow>
          (case e_fail ev SysClose tmpName of
             Some e \<Rightarrow> (Inl (''close archive: '' @ e), h1)
           | None \<Rightarrow>
               (case os_Rename ev tmpName dst h1 of
                  (Inl e, h2) \<Rightarrow> (Inl (''install archive: '' @ e), h2)
                | (Inr _, h2) \<Rightarrow> (Inr (), h2))))"

definition decompressToFile :: "host_env \<Rightarrow> bytes \<Rightarrow> string \<Rightarrow> host \<Rightarrow> (string + unit) \<times> host" where
  "decompressToFile ev src dst h =
     (case e_zstd_init ev of
        Some e \<Rightarrow> (Inl (''init zstd: '' @ e), h)
      | None \<Rightarrow>
          (case e_zstd ev src of
             Inl e \<Rightarrow> (Inl (''zstd decode: '' @ e), h)
           | Inr raw \<Rightarrow>
               (case os_CreateTemp ev (path_Dir dst) ''.libimbhgo-'' ''.a.tmp'' h of
                  (Inl e, h1) \<Rightarrow> (Inl (''create temp: '' @ e), h1)
                | (Inr tmpName, h1) \<Rightarrow>
                    (case install_from ev raw tmpName dst h1 of
                       (r, h2) \<Rightarrow> (r, os_Remove ev tmpName h2)))))"

section \<open>The environment line\<close>

definition ldflagsFor :: "string \<Rightarrow> string" where
  "ldflagsFor cacheDir =
     (let search = ''-L'' @ cacheDir;
          search = (if CHR '' '' \<in> set search \<or> CHR 0x09 \<in> set search
                    then [CHR 0x27] @ search @ [CHR 0x27] else search)
      in search @ '' -limbhgo'')"

definition posixQuote :: "string \<Rightarrow> string" where
  "posixQuote s =
     [CHR 0x27] @ ReplaceByte (CHR 0x27) [CHR 0x27, CHR 0x5C, CHR 0x27, CHR 0x27] s @ [CHR 0x27]"

definition powerShellQuote :: "string \<Rightarrow> string" where
  "powerShellQuote s = [CHR 0x27] @ ReplaceByte (CHR 0x27) [CHR 0x27, CHR 0x27] s @ [CHR 0x27]"

definition envLine :: "string \<Rightarrow> string \<Rightarrow> string \<Rightarrow> string" where
  "envLine shell name val =
     (if shell = ''cmd'' then ''set '' @ name @ ''='' @ val
      else if shell = ''powershell'' then ''$env:'' @ name @ '' = '' @ powerShellQuote val
      else ''export '' @ name @ ''='' @ posixQuote val)"

definition libcSuffix :: "string \<Rightarrow> string" where
  "libcSuffix libc = (if libc = LibcMusl then '' (musl)'' else [])"

record options =
  o_version :: string
  o_goos :: string
  o_goarch :: string
  o_libc :: string
  o_dest :: string
  o_baseURL :: string
  o_printEnv :: bool
  o_shell :: string
  o_force :: bool

definition emit :: "host_env \<Rightarrow> options \<Rightarrow> string \<Rightarrow> host \<Rightarrow> host" where
  "emit ev opts cacheDir h =
     (let ldflags = ldflagsFor cacheDir in
      if o_printEnv opts
      then logf ''remember to build with -tags sable_extern_lib''
             (h\<lparr>h_out := h_out h @ envLine (o_shell opts) ''CGO_LDFLAGS'' ldflags @ [CHR 0x0A]\<rparr>)
      else logf (''e.g.: CGO_LDFLAGS='' @ e_quote ev ldflags @ '' go build -tags sable_extern_lib ./...'')
             (logf (''set CGO_LDFLAGS='' @ e_quote ev ldflags @ '' and build with -tags sable_extern_lib'') h))"

section \<open>fetch\<close>

definition cache_dir :: "host_env \<Rightarrow> options \<Rightarrow> string + string" where
  "cache_dir ev opts =
     (if o_dest opts \<noteq> [] then Inr (o_dest opts)
      else case e_cache_root ev of
             Inl e \<Rightarrow> Inl (''locate cache dir: '' @ e)
           | Inr root \<Rightarrow>
               Inr (path_Join [root, CacheSubdir (o_version opts) (o_goos opts) (o_goarch opts) (o_libc opts)]))"

definition archive_path :: "string \<Rightarrow> string" where
  "archive_path cacheDir = path_Join [cacheDir, ''libimbhgo.a'']"

definition sidecar_path :: "string \<Rightarrow> string" where
  "sidecar_path cacheDir = archive_path cacheDir @ ''.sha256''"

text \<open>The part of \<open>fetch\<close> after the cache has been found stale: download, verify, install, record.\<close>

definition fetch_install :: "host_env \<Rightarrow> options \<Rightarrow> string \<Rightarrow> string \<Rightarrow> host \<Rightarrow> (string + unit) \<times> host" where
  "fetch_install ev opts cacheDir expected h =
     (let assetURL = AssetURL (o_baseURL opts) (o_version opts) (o_goos opts) (o_goarch opts) (o_libc opts);
          assetName = AssetName (o_version opts) (o_goos opts) (o_goarch opts) (o_libc opts) in
      case download ev assetURL (logf (''downloading '' @ assetURL) h) of
        (Inl e, h1) \<Rightarrow> (Inl e, h1)
      | (Inr compressed, h1) \<Rightarrow>
          let got = sha256Hex ev compressed in
          if got \<noteq> expected
          then (Inl (''checksum mismatch for '' @ assetName @ '': got '' @ got @ '', want '' @ expected), h1)
          else (case os_MkdirAll ev cacheDir h1 of
             (Inl e, h2) \<Rightarrow> (Inl (''create cache dir: '' @ e), h2)
           | (Inr _, h2) \<Rightarrow>
               (case decompressToFile ev compressed (archive_path cacheDir) h2 of
                  (Inl e, h3) \<Rightarrow> (Inl e, h3)
                | (Inr _, h3) \<Rightarrow>
                    (case os_WriteFile ev (sidecar_path cacheDir) (expected @ [CHR 0x0A]) h3 of
                       (Inl e, h4) \<Rightarrow> (Inl (''write checksum sidecar: '' @ e), h4)
                     | (Inr _, h4) \<Rightarrow>
                         (Inr (), emit ev opts cacheDir (logf (''installed '' @ archive_path cacheDir) h4))))))"

definition fetch :: "host_env \<Rightarrow> options \<Rightarrow> host \<Rightarrow> (string + unit) \<times> host" where
  "fetch ev opts h =
     (case cache_dir ev opts of
        Inl e \<Rightarrow> (Inl e, h)
      | Inr cacheDir \<Rightarrow>
          let archivePath = archive_path cacheDir;
              assetName = AssetName (o_version opts) (o_goos opts) (o_goarch opts) (o_libc opts);
              h0 = logf (''target '' @ o_goos opts @ ''/'' @ o_goarch opts @ libcSuffix (o_libc opts) @
                         '', version '' @ o_version opts) h in
          (case expectedSum ev (o_baseURL opts) (o_version opts) assetName h0 of
             (Inl e, h1) \<Rightarrow>
               if \<not> o_force opts \<and> os_Stat ev archivePath h1
               then (Inr (), emit ev opts cacheDir
                       (logf (''checksum manifest unavailable ('' @ e @ ''); using cached '' @ archivePath) h1))
               else (Inl (''fetch checksum manifest: '' @ e), h1)
           | (Inr expected, h1) \<Rightarrow>
               if \<not> o_force opts \<and> cachedMatches ev archivePath (sidecar_path cacheDir) expected h1
               then (Inr (), emit ev opts cacheDir (logf (''up to date: '' @ archivePath) h1))
               else fetch_install ev opts cacheDir expected h1))"

end
