(* ===== verification/FetchSpec.thy ===== *)
theory FetchSpec
  imports Fetch
begin

text \<open>
  What \<open>imbhgo-fetch\<close> promises: an archive it installs or accepts is the decompressed form of bytes with
  the manifest's checksum, it replaces the file atomically, a second run downloads nothing, and the
  environment line survives the shell and \<open>cmd/go\<close>.
\<close>

section \<open>Frames\<close>

named_theorems fetch_frame "what an operation leaves alone"

lemma logf_frame [fetch_frame, simp]:
  "h_files (logf m h) = h_files h" "h_hist (logf m h) = h_hist h" "h_gets (logf m h) = h_gets h"
  "h_dirs (logf m h) = h_dirs h" "h_out (logf m h) = h_out h"
  by (simp_all add: logf_def)

lemma emit_frame [fetch_frame, simp]:
  "h_files (emit ev opts d h) = h_files h" "h_hist (emit ev opts d h) = h_hist h"
  "h_gets (emit ev opts d h) = h_gets h" "h_dirs (emit ev opts d h) = h_dirs h"
  by (simp_all add: emit_def Let_def)

lemma download_frame:
  assumes "download ev url h = (r, h')"
  shows "h_files h' = h_files h \<and> h_hist h' = h_hist h \<and> h_dirs h' = h_dirs h \<and>
    h_gets h' = h_gets h @ [url] \<and> h_out h' = h_out h"
  using assms by (auto simp: download_def Let_def split: http_reply.splits)

lemma download_fst: "fst (download ev url h) = fst (download ev url h')"
  by (simp add: download_def Let_def split: http_reply.splits)

lemma expectedSum_frame:
  assumes "expectedSum ev b v n h = (r, h')"
  shows "h_files h' = h_files h \<and> h_hist h' = h_hist h \<and> h_dirs h' = h_dirs h \<and>
    h_gets h' = h_gets h @ [SumsURL b v] \<and> h_out h' = h_out h"
proof -
  obtain r1 h1 where d: "download ev (SumsURL b v) h = (r1, h1)" by fastforce
  with assms have "h' = h1" by (auto simp: expectedSum_def split: sum.splits option.splits)
  with download_frame [OF d] show ?thesis by simp
qed

lemma expectedSum_fst: "fst (expectedSum ev b v n h) = fst (expectedSum ev b v n h')"
proof -
  obtain r1 h1 where d: "download ev (SumsURL b v) h = (r1, h1)" by fastforce
  moreover obtain r2 h2 where d': "download ev (SumsURL b v) h' = (r2, h2)" by fastforce
  ultimately have "r1 = r2" using download_fst [of ev "SumsURL b v" h h'] by simp
  with d d' show ?thesis by (simp add: expectedSum_def split: sum.splits option.splits)
qed

lemma os_Stat_cong: "h_files h = h_files h' \<Longrightarrow> h_dirs h = h_dirs h' \<Longrightarrow> os_Stat ev p h = os_Stat ev p h'"
  by (simp add: os_Stat_def exists_path_def)

lemma cachedMatches_cong:
  "h_files h = h_files h' \<Longrightarrow> h_dirs h = h_dirs h' \<Longrightarrow>
     cachedMatches ev a s e h = cachedMatches ev a s e h'"
  using os_Stat_cong [of h h' ev a] by (simp add: cachedMatches_def os_ReadFile_def cong: option.case_cong)

section \<open>The paths are distinct\<close>

lemma SplitByte_snoc: "c \<notin> set b \<Longrightarrow> SplitByte c (a @ c # b) = SplitByte c a @ [b]"
  by (induction a) (auto simp: SplitByte_no_sep split: list.splits)

lemma clean_elems_snoc:
  "b \<noteq> [] \<Longrightarrow> b \<noteq> ''.'' \<Longrightarrow> b \<noteq> ''..'' \<Longrightarrow>
     clean_elems r out (es @ [b]) = clean_elems r out es @ [b]"
  by (induction r out es rule: clean_elems.induct) (auto split: list.splits)

lemma join_elems_snoc: "b \<noteq> [] \<Longrightarrow> join_elems (es @ [b]) \<noteq> [] \<and> last (join_elems (es @ [b])) = last b"
  by (induction es rule: join_elems.induct) auto

lemma SplitByte_join: "SplitByte c (a @ c # b) = SplitByte c a @ SplitByte c b"
  by (induction a) (auto split: list.splits)

lemma last_path_Clean:
  assumes "b \<noteq> []" "b \<noteq> ''.''" "b \<noteq> ''..''" "CHR ''/'' \<notin> set b"
  shows "path_Clean (a @ CHR ''/'' # b) \<noteq> [] \<and> last (path_Clean (a @ CHR ''/'' # b)) = last b"
    "path_Clean b \<noteq> [] \<and> last (path_Clean b) = last b"
  using assms join_elems_snoc [OF assms(1)] clean_elems_snoc [OF assms(1-3), where es = "[]"]
  by (auto simp: path_Clean_def Let_def SplitByte_snoc SplitByte_no_sep clean_elems_snoc)

lemma last_archive_path: "archive_path d \<noteq> [] \<and> last (archive_path d) = CHR ''a''"
  using last_path_Clean(1) [of "''libimbhgo.a''" d] last_path_Clean(2) [of "''libimbhgo.a''"]
  by (cases d) (simp_all add: archive_path_def path_Join_def)

lemma last_sidecar_path: "last (sidecar_path d) = CHR ''6''"
  by (simp add: sidecar_path_def)

definition tmp_name :: "host_env \<Rightarrow> string \<Rightarrow> string" where
  "tmp_name ev dst = path_Dir dst @ ''/'' @ ''.libimbhgo-'' @ e_temp ev @ ''.a.tmp''"

lemma last_tmp_name: "last (tmp_name ev dst) = CHR ''p''"
  by (simp add: tmp_name_def)

lemma paths_distinct [simp]:
  "tmp_name ev p \<noteq> archive_path d" "archive_path d \<noteq> tmp_name ev p"
  "tmp_name ev p \<noteq> sidecar_path d" "sidecar_path d \<noteq> tmp_name ev p"
  "archive_path d \<noteq> sidecar_path d" "sidecar_path d \<noteq> archive_path d"
  using last_archive_path [of d] last_sidecar_path [of d] last_tmp_name [of ev p]
  by (auto dest: arg_cong [where f = last])

section \<open>The states a crash can leave\<close>

text \<open>\<open>keeps P h h'\<close>: from a file state with \<open>P\<close>, every file state up to \<open>h'\<close> has it.\<close>

definition keeps :: "(files \<Rightarrow> bool) \<Rightarrow> host \<Rightarrow> host \<Rightarrow> bool" where
  "keeps P h h' \<longleftrightarrow> (P (h_files h) \<longrightarrow> P (h_files h') \<and>
     (\<exists>xs. h_hist h' = h_hist h @ xs \<and> list_all P xs))"

lemma keeps_same: "h_files h' = h_files h \<Longrightarrow> h_hist h' = h_hist h \<Longrightarrow> keeps P h h'"
  by (simp add: keeps_def)

lemma keeps_trans: "keeps P h h1 \<Longrightarrow> keeps P h1 h2 \<Longrightarrow> keeps P h h2"
  by (force simp: keeps_def)

lemma keeps_put: "(\<And>fs. P fs \<Longrightarrow> P (fs(p := c))) \<Longrightarrow> keeps P h (put_file p c h)"
  by (auto simp: keeps_def put_file_def Let_def)

lemma keeps_CreateTemp:
  assumes "os_CreateTemp ev dir pre suf h = (r, h')"
    and "\<And>fs c. P fs \<Longrightarrow> P (fs(dir @ ''/'' @ pre @ e_temp ev @ suf := c))"
  shows "keeps P h h'"
  using assms by (auto simp: os_CreateTemp_def Let_def keeps_same keeps_put split: option.splits if_splits)

lemma keeps_Write:
  assumes "file_Write ev p data h = (r, h')" "\<And>fs c. P fs \<Longrightarrow> P (fs(p := c))"
  shows "keeps P h h'"
  using assms by (auto simp: file_Write_def keeps_put split: option.splits)

lemma keeps_Remove: "(\<And>fs c. P fs \<Longrightarrow> P (fs(p := c))) \<Longrightarrow> keeps P h (os_Remove ev p h)"
  by (auto simp: os_Remove_def keeps_same keeps_put)

text \<open>The whole of \<open>decompressToFile\<close>: on success exactly the destination has changed.\<close>

definition off_temp :: "host_env \<Rightarrow> string \<Rightarrow> host \<Rightarrow> host \<Rightarrow> bool" where
  "off_temp ev dst h h' \<longleftrightarrow> (\<forall>p. p \<noteq> tmp_name ev dst \<longrightarrow> h_files h' p = h_files h p)"

lemma file_Write_ok:
  "file_Write ev p data h = (Inr u, h') \<Longrightarrow> h' = put_file p (Some data) h"
  by (auto simp: file_Write_def split: option.splits)

lemma file_Write_files:
  "file_Write ev p data h = (r, h') \<Longrightarrow> q \<noteq> p \<Longrightarrow> h_files h' q = h_files h q"
  by (auto simp: file_Write_def put_file_def Let_def split: option.splits)

lemma file_Write_gets:
  "file_Write ev p data h = (r, h') \<Longrightarrow> h_gets h' = h_gets h \<and> h_dirs h' = h_dirs h"
  by (auto simp: file_Write_def put_file_def Let_def split: option.splits)

lemma CreateTemp_ok:
  assumes "os_CreateTemp ev (path_Dir dst) ''.libimbhgo-'' ''.a.tmp'' h = (r, h')"
  shows "off_temp ev dst h h' \<and> h_gets h' = h_gets h \<and> h_dirs h' = h_dirs h \<and>
    (\<forall>p. r = Inr p \<longrightarrow> p = tmp_name ev dst)"
  using assms
  by (auto simp: os_CreateTemp_def off_temp_def tmp_name_def Let_def put_file_def
      split: option.splits if_splits)

lemma os_Remove_files: "q \<noteq> p \<Longrightarrow> h_files (os_Remove ev p h) q = h_files h q"
  by (simp add: os_Remove_def put_file_def Let_def)

lemma os_Remove_gets [simp]:
  "h_gets (os_Remove ev p h) = h_gets h" "h_dirs (os_Remove ev p h) = h_dirs h"
  by (simp_all add: os_Remove_def put_file_def Let_def)

lemma install_from_result:
  assumes "install_from ev raw tmp dst h = (r, h')" "tmp \<noteq> dst"
  shows "h_gets h' = h_gets h \<and> h_dirs h' = h_dirs h \<and>
    (\<forall>p. p \<noteq> tmp \<and> p \<noteq> dst \<longrightarrow> h_files h' p = h_files h p) \<and>
    h_files h' dst = (case r of Inl _ \<Rightarrow> h_files h dst | Inr _ \<Rightarrow> Some raw)"
proof -
  obtain r1 h1 where w: "file_Write ev tmp raw h = (r1, h1)" by fastforce
  note other = file_Write_files [OF w] file_Write_gets [OF w]
  show ?thesis
  proof (cases r1)
    case (Inl e)
    with assms w other show ?thesis by (auto simp: install_from_def)
  next
    case (Inr u)
    with w have h1: "h1 = put_file tmp (Some raw) h" by (simp add: file_Write_ok)
    with Inr assms w other show ?thesis
      by (auto simp: install_from_def os_Rename_def put_file_def Let_def split: option.splits if_splits)
  qed
qed

lemma keeps_install:
  assumes "install_from ev raw tmp dst h = (r, h')"
    and tmp: "\<And>fs c. P fs \<Longrightarrow> P (fs(tmp := c))" and dst: "\<And>fs. P fs \<Longrightarrow> P (fs(dst := Some raw))"
  shows "keeps P h h'"
proof -
  obtain r1 h1 where w: "file_Write ev tmp raw h = (r1, h1)" by fastforce
  have k: "keeps P h h1" by (rule keeps_Write [OF w]) (rule tmp)
  show ?thesis
  proof (cases r1)
    case (Inl e)
    with assms(1) w k show ?thesis by (auto simp: install_from_def)
  next
    case (Inr u)
    with w have h1: "h1 = put_file tmp (Some raw) h" by (simp add: file_Write_ok)
    then have raw: "h_files h1 tmp = Some raw" by (simp add: put_file_def Let_def)
    have step: "P fs \<Longrightarrow> P (fs(dst := Some raw, tmp := None))" for fs
      by (intro tmp dst)
    have "keeps P h1 h'"
      using assms(1) w Inr raw step [of "h_files h1"]
      by (auto simp: install_from_def os_Rename_def Let_def keeps_same keeps_def split: option.splits)
    with k show ?thesis by (rule keeps_trans)
  qed
qed

lemma decompress_result:
  assumes "decompressToFile ev src dst h = (r, h')" "tmp_name ev dst \<noteq> dst"
  shows "h_gets h' = h_gets h \<and> h_dirs h' = h_dirs h \<and>
    (\<forall>p. p \<noteq> tmp_name ev dst \<and> p \<noteq> dst \<longrightarrow> h_files h' p = h_files h p) \<and>
    (case r of Inl _ \<Rightarrow> h_files h' dst = h_files h dst
     | Inr _ \<Rightarrow> \<exists>raw. e_zstd ev src = Inr raw \<and> h_files h' dst = Some raw)"
proof (cases "e_zstd_init ev = None \<and> (\<exists>raw. e_zstd ev src = Inr raw)")
  case False
  with assms(1) show ?thesis by (auto simp: decompressToFile_def split: option.splits sum.splits)
next
  case True
  then obtain raw where z: "e_zstd_init ev = None" "e_zstd ev src = Inr raw" by blast
  obtain r1 h1 where c: "os_CreateTemp ev (path_Dir dst) ''.libimbhgo-'' ''.a.tmp'' h = (r1, h1)"
    by fastforce
  note cr = CreateTemp_ok [OF c]
  show ?thesis
  proof (cases r1)
    case (Inl e)
    with assms z c cr show ?thesis by (auto simp: decompressToFile_def off_temp_def)
  next
    case (Inr tmp)
    with cr have tmp: "tmp = tmp_name ev dst" by simp
    obtain r2 h2 where i: "install_from ev raw tmp dst h1 = (r2, h2)" by fastforce
    from assms z c Inr i have "r = r2" "h' = os_Remove ev tmp h2" by (auto simp: decompressToFile_def)
    with install_from_result [OF i] tmp assms(2) cr z show ?thesis
      by (auto simp: off_temp_def os_Remove_files split: sum.splits)
  qed
qed

lemma keeps_decompress:
  assumes "decompressToFile ev src dst h = (r, h')"
    and "\<And>fs c. P fs \<Longrightarrow> P (fs(tmp_name ev dst := c))"
    and "\<And>fs raw. P fs \<Longrightarrow> e_zstd ev src = Inr raw \<Longrightarrow> P (fs(dst := Some raw))"
  shows "keeps P h h'"
proof (cases "e_zstd_init ev = None \<and> (\<exists>raw. e_zstd ev src = Inr raw)")
  case False
  with assms(1) show ?thesis
    by (auto simp: decompressToFile_def keeps_same split: option.splits sum.splits)
next
  case True
  then obtain raw where z: "e_zstd_init ev = None" "e_zstd ev src = Inr raw" by blast
  obtain r1 h1 where c: "os_CreateTemp ev (path_Dir dst) ''.libimbhgo-'' ''.a.tmp'' h = (r1, h1)"
    by fastforce
  have k1: "keeps P h h1"
    by (rule keeps_CreateTemp [OF c]) (use assms(2) in \<open>simp add: tmp_name_def\<close>)
  show ?thesis
  proof (cases r1)
    case (Inl e)
    with assms(1) z c k1 show ?thesis by (auto simp: decompressToFile_def)
  next
    case (Inr tmp)
    with CreateTemp_ok [OF c] have tmp: "tmp = tmp_name ev dst" by simp
    obtain r2 h2 where i: "install_from ev raw tmp dst h1 = (r2, h2)" by fastforce
    from assms(1) z c Inr i have h': "h' = os_Remove ev tmp h2" by (auto simp: decompressToFile_def)
    have "keeps P h1 h2"
      by (rule keeps_install [OF i]) (use assms(2,3) z tmp in auto)
    moreover have "keeps P h2 h'"
      unfolding h' by (rule keeps_Remove) (use assms(2) tmp in simp)
    ultimately show ?thesis using k1 by (blast intro: keeps_trans)
  qed
qed

section \<open>Download, verify, install, record\<close>

text \<open>\<open>verified ev c s\<close>: the contents \<open>c\<close> are the decompressed form of bytes whose checksum is \<open>s\<close>.\<close>

definition verified :: "host_env \<Rightarrow> bytes \<Rightarrow> string \<Rightarrow> bool" where
  "verified ev c s \<longleftrightarrow> (\<exists>body. sha256Hex ev body = s \<and> e_zstd ev body = Inr c)"

definition asset_url :: "options \<Rightarrow> string" where
  "asset_url opts = AssetURL (o_baseURL opts) (o_version opts) (o_goos opts) (o_goarch opts) (o_libc opts)"

definition asset_name :: "options \<Rightarrow> string" where
  "asset_name opts = AssetName (o_version opts) (o_goos opts) (o_goarch opts) (o_libc opts)"

text \<open>What \<open>fetch_install\<close> has done to the two files when it ends: nothing, or the archive is new.\<close>

definition untouched :: "string \<Rightarrow> host \<Rightarrow> host \<Rightarrow> bool" where
  "untouched d h h' \<longleftrightarrow> h_files h' (archive_path d) = h_files h (archive_path d) \<and>
     h_files h' (sidecar_path d) = h_files h (sidecar_path d)"

definition installed :: "host_env \<Rightarrow> options \<Rightarrow> string \<Rightarrow> string \<Rightarrow> host \<Rightarrow> bool" where
  "installed ev opts d s h' \<longleftrightarrow>
     (\<exists>body raw. fst (download ev (asset_url opts) h') = Inr body \<and> sha256Hex ev body = s \<and>
        e_zstd ev body = Inr raw \<and> h_files h' (archive_path d) = Some raw)"

lemma installed_verified:
  "installed ev opts d s h \<Longrightarrow> \<exists>raw. h_files h (archive_path d) = Some raw \<and> verified ev raw s"
  by (auto simp: installed_def verified_def)

lemma WriteFile_result:
  assumes "os_WriteFile ev p data h = (r, h')"
  shows "(\<forall>q. q \<noteq> p \<longrightarrow> h_files h' q = h_files h q) \<and> h_gets h' = h_gets h \<and>
    (r = Inr () \<longrightarrow> h_files h' p = Some data) \<and>
    (\<forall>e. e_fail ev SysOpenWrite p = Some e \<longrightarrow> r = Inl e \<and> h' = h) \<and>
    (e_fail ev SysOpenWrite p = None \<and> e_fail ev SysWrite p = None \<longrightarrow> r = Inr ())"
  using assms
  by (auto simp: os_WriteFile_def file_Write_def put_file_def Let_def split: option.splits)

lemma fetch_install_result:
  assumes "fetch_install ev opts d s h = (r, h')"
  shows "h_gets h' = h_gets h @ [asset_url opts] \<and>
    ((\<exists>e. r = Inl e) \<and> untouched d h h' \<or>
     installed ev opts d s h' \<and>
       (r = Inr () \<and> h_files h' (sidecar_path d) = Some (s @ [CHR 0x0A]) \<or>
        (\<exists>e. r = Inl (''write checksum sidecar: '' @ e) \<and>
          (e_fail ev SysOpenWrite (sidecar_path d) = Some e \<longrightarrow>
             h_files h' (sidecar_path d) = h_files h (sidecar_path d)) \<and>
          \<not> (e_fail ev SysOpenWrite (sidecar_path d) = None \<and> e_fail ev SysWrite (sidecar_path d) = None))))"
proof -
  let ?a = "archive_path d" and ?s = "sidecar_path d"
  obtain r1 h1 where d1: "download ev (asset_url opts) (logf (''downloading '' @ asset_url opts) h) = (r1, h1)"
    by fastforce
  from download_frame [OF d1] have f1: "h_files h1 = h_files h" "h_gets h1 = h_gets h @ [asset_url opts]"
    by simp_all
  have same: "fst (download ev (asset_url opts) h') = r1" for h'
    using download_fst [of ev "asset_url opts" h'] d1 by (metis fst_conv)
  note fi = assms [unfolded fetch_install_def Let_def, folded asset_url_def asset_name_def]
  show ?thesis
  proof (cases r1)
    case (Inl e)
    with fi d1 f1 show ?thesis by (auto simp: untouched_def)
  next
    case (Inr body)
    show ?thesis
    proof (cases "sha256Hex ev body = s")
      case False
      with fi d1 Inr f1 show ?thesis by (auto simp: untouched_def)
    next
      case sha: True
      obtain r2 h2 where m: "os_MkdirAll ev d h1 = (r2, h2)" by fastforce
      then have f2: "h_files h2 = h_files h" "h_gets h2 = h_gets h1"
        using f1 by (auto simp: os_MkdirAll_def split: option.splits)
      show ?thesis
      proof (cases r2)
        case (Inl e)
        with fi d1 Inr sha m f1 f2 show ?thesis by (auto simp: untouched_def)
      next
        case mk: (Inr u)
        obtain r3 h3 where z: "decompressToFile ev body ?a h2 = (r3, h3)" by fastforce
        note dr = decompress_result [OF z paths_distinct(1)]
        show ?thesis
        proof (cases r3)
          case (Inl e)
          with fi d1 Inr sha m mk z dr f1 f2 show ?thesis by (auto simp: untouched_def)
        next
          case un: (Inr u3)
          obtain r4 h4 where w: "os_WriteFile ev ?s (s @ [CHR 0x0A]) h3 = (r4, h4)" by fastforce
          note wr = WriteFile_result [OF w]
          from dr un obtain raw where raw: "e_zstd ev body = Inr raw" "h_files h3 ?a = Some raw" by auto
          have res: "(r, h') = (case r4 of Inl e \<Rightarrow> (Inl (''write checksum sidecar: '' @ e), h4)
              | Inr _ \<Rightarrow> (Inr (), emit ev opts d (logf (''installed '' @ ?a) h4)))"
            using fi d1 Inr sha m mk z un w by simp
          then have files: "h_files h' = h_files h4" "h_gets h' = h_gets h4" by (auto split: sum.splits)
          have "installed ev opts d s h'"
            unfolding installed_def using same Inr sha raw files wr by auto
          moreover have "h_gets h' = h_gets h @ [asset_url opts]" using files wr dr f1 f2 by simp
          moreover have "h_files h3 ?s = h_files h ?s" using dr f2 by simp
          ultimately show ?thesis
            using res files wr by (cases r4) (auto split: option.splits)
        qed
      qed
    qed
  qed
qed

lemma keeps_WriteFile:
  assumes "os_WriteFile ev p data h = (r, h')" "\<And>fs c. P fs \<Longrightarrow> P (fs(p := c))"
  shows "keeps P h h'"
proof (cases "e_fail ev SysOpenWrite p")
  case None
  with assms(1) have "file_Write ev p data (put_file p (Some []) h) = (r, h')"
    by (simp add: os_WriteFile_def)
  then have "keeps P (put_file p (Some []) h) h'" by (rule keeps_Write) (rule assms(2))
  moreover have "keeps P h (put_file p (Some []) h)" by (rule keeps_put) (rule assms(2))
  ultimately show ?thesis by (blast intro: keeps_trans)
next
  case (Some e)
  with assms(1) show ?thesis by (simp add: os_WriteFile_def keeps_same)
qed

lemma keeps_fetch_install:
  assumes "fetch_install ev opts d s h = (r, h')"
    and tmp: "\<And>fs c. P fs \<Longrightarrow> P (fs(tmp_name ev (archive_path d) := c))"
    and side: "\<And>fs c. P fs \<Longrightarrow> P (fs(sidecar_path d := c))"
    and new: "\<And>fs raw. P fs \<Longrightarrow> verified ev raw s \<Longrightarrow> P (fs(archive_path d := Some raw))"
  shows "keeps P h h'"
proof -
  let ?a = "archive_path d"
  obtain r1 h1 where d1: "download ev (asset_url opts) (logf (''downloading '' @ asset_url opts) h) = (r1, h1)"
    by fastforce
  from download_frame [OF d1] have k1: "keeps P h h1" by (auto intro: keeps_same)
  note fi = assms(1) [unfolded fetch_install_def Let_def, folded asset_url_def asset_name_def]
  show ?thesis
  proof (cases "\<exists>body. r1 = Inr body \<and> sha256Hex ev body = s")
    case False
    with fi d1 k1 show ?thesis by (auto split: sum.splits if_splits)
  next
    case True
    then obtain body where b: "r1 = Inr body" "sha256Hex ev body = s" by blast
    obtain r2 h2 where m: "os_MkdirAll ev d h1 = (r2, h2)" by fastforce
    then have k2: "keeps P h1 h2" by (auto simp: os_MkdirAll_def keeps_same split: option.splits)
    obtain r3 h3 where z: "decompressToFile ev body ?a h2 = (r3, h3)" by fastforce
    have k3: "keeps P h2 h3"
    proof (rule keeps_decompress [OF z])
      fix fs raw assume "P fs" "e_zstd ev body = Inr raw"
      moreover from this b have "verified ev raw s" by (auto simp: verified_def)
      ultimately show "P (fs(archive_path d := Some raw))" by (intro new)
    qed (rule tmp)
    obtain r4 h4 where w: "os_WriteFile ev (sidecar_path d) (s @ [CHR 0x0A]) h3 = (r4, h4)" by fastforce
    have k4: "keeps P h3 h4" by (rule keeps_WriteFile [OF w]) (rule side)
    have k12: "keeps P h h2" using k1 k2 by (rule keeps_trans)
    have k13: "keeps P h h3" using k12 k3 by (rule keeps_trans)
    have k14: "keeps P h h4" using k13 k4 by (rule keeps_trans)
    moreover have "keeps P h4 (emit ev opts d (logf m h4))" for m by (simp add: keeps_same)
    ultimately have "keeps P h (emit ev opts d (logf m h4))" for m by (rule keeps_trans)
    with fi d1 b m z w k12 k13 k14 show ?thesis by (auto split: sum.splits)
  qed
qed

section \<open>The ways a fetch can go\<close>

definition blank_host :: host where
  "blank_host = \<lparr>h_files = Map.empty, h_hist = [], h_dirs = {}, h_gets = [], h_out = [], h_err = []\<rparr>"

definition manifest_sum :: "host_env \<Rightarrow> options \<Rightarrow> string + string" where
  "manifest_sum ev opts = fst (expectedSum ev (o_baseURL opts) (o_version opts) (asset_name opts) blank_host)"

text \<open>Two hosts that differ only in the requests made and in what was printed.\<close>

definition same_disk :: "host \<Rightarrow> host \<Rightarrow> bool" where
  "same_disk h h' \<longleftrightarrow> h_files h' = h_files h \<and> h_hist h' = h_hist h \<and> h_dirs h' = h_dirs h"

lemma fetch_cases:
  assumes "fetch ev opts h = (r, h')" "cache_dir ev opts = Inr d"
  obtains (NoManifest) e where "manifest_sum ev opts = Inl e" "same_disk h h'"
      "h_gets h' = h_gets h @ [SumsURL (o_baseURL opts) (o_version opts)]"
      "r = Inr () \<and> \<not> o_force opts \<and> os_Stat ev (archive_path d) h \<or> r = Inl (''fetch checksum manifest: '' @ e)"
  | (Cached) s where "manifest_sum ev opts = Inr s" "same_disk h h'" "r = Inr ()" "\<not> o_force opts"
      "cachedMatches ev (archive_path d) (sidecar_path d) s h"
      "h_gets h' = h_gets h @ [SumsURL (o_baseURL opts) (o_version opts)]"
  | (Install) s h1 where "manifest_sum ev opts = Inr s" "same_disk h h1"
      "fetch_install ev opts d s h1 = (r, h')"
      "o_force opts \<or> \<not> cachedMatches ev (archive_path d) (sidecar_path d) s h"
      "h_gets h1 = h_gets h @ [SumsURL (o_baseURL opts) (o_version opts)]"
proof -
  let ?log = "logf (''target '' @ o_goos opts @ ''/'' @ o_goarch opts @ libcSuffix (o_libc opts) @
      '', version '' @ o_version opts) h"
  obtain x h1 where es: "expectedSum ev (o_baseURL opts) (o_version opts) (asset_name opts) ?log = (x, h1)"
    by fastforce
  from expectedSum_frame [OF es] have f: "same_disk h h1"
    "h_gets h1 = h_gets h @ [SumsURL (o_baseURL opts) (o_version opts)]" by (simp_all add: same_disk_def)
  have x: "manifest_sum ev opts = x"
    unfolding manifest_sum_def using es by (metis expectedSum_fst fst_conv)
  have stat: "os_Stat ev p h1 = os_Stat ev p h" for p
    using f(1) by (intro os_Stat_cong) (simp_all add: same_disk_def)
  have cached: "cachedMatches ev a s t h1 = cachedMatches ev a s t h" for a s t
    using f(1) by (intro cachedMatches_cong) (simp_all add: same_disk_def)
  note fe = assms(1) [unfolded fetch_def Let_def, folded asset_name_def] assms(2) es
  show ?thesis
  proof (cases x)
    case (Inl e)
    with fe stat have "r = Inr () \<and> \<not> o_force opts \<and> os_Stat ev (archive_path d) h \<or>
        r = Inl (''fetch checksum manifest: '' @ e)" "same_disk h1 h'" "h_gets h' = h_gets h1"
      by (auto simp: same_disk_def split: if_splits)
    with NoManifest Inl x f show ?thesis by (simp add: same_disk_def)
  next
    case (Inr s)
    show ?thesis
    proof (cases "\<not> o_force opts \<and> cachedMatches ev (archive_path d) (sidecar_path d) s h")
      case True
      with fe Inr cached have "r = Inr ()" "same_disk h1 h'" "h_gets h' = h_gets h1"
        by (auto simp: same_disk_def)
      with Cached Inr x f True show ?thesis by (simp add: same_disk_def)
    next
      case False
      with fe Inr cached have "fetch_install ev opts d s h1 = (r, h')" by auto
      with Install Inr x f False show ?thesis by blast
    qed
  qed
qed

lemma fetch_no_dir: "cache_dir ev opts = Inl e \<Longrightarrow> fetch ev opts h = (Inl e, h)"
  by (simp add: fetch_def)

section \<open>Hexadecimal\<close>

lemma hex_digit_graph [simp]: "d < 16 \<Longrightarrow> graph (hex_digit d)"
  by (auto simp: hex_digit_def graph_def between_def)

lemma hex_encode_graph: "list_all graph (hex_encode bs)"
proof -
  have "byte c div 16 < 16" for c
  proof -
    have "byte c < 256" by (cases c) simp
    then show ?thesis by (simp add: div_less_iff_less_mult)
  qed
  then show ?thesis by (auto simp: hex_encode_def list_all_iff)
qed

lemma TrimSpace_line: "list_all graph s \<Longrightarrow> TrimSpace (s @ [CHR 0x0A]) = s"
proof (cases "s = []")
  case True
  then show ?thesis
    by (simp add: TrimSpace_def TrimLeftSpace.simps TrimRightSpace.simps last_space_len_def)
next
  case False
  moreover assume "list_all graph s"
  ultimately show ?thesis by (intro TrimSpace_newline) (auto simp: list_all_iff)
qed

lemma TrimSpace_sum: "TrimSpace (sha256Hex ev b @ [CHR 0x0A]) = sha256Hex ev b"
  unfolding sha256Hex_def by (rule TrimSpace_line) (rule hex_encode_graph)

end
