(* ===== verification/FetchClaims.thy ===== *)
theory FetchClaims
  imports FetchSpec
begin

text \<open>
  The properties of \<open>imbhgo-fetch\<close>: integrity and atomicity of the installed archive, the cache and its
  one hole, the manifest format, and the environment line.
\<close>

section \<open>A small release for the examples\<close>

text \<open>Two versions on one mirror; the digest is the identity and the decoder adds a prefix.\<close>

definition demo_opts :: "string \<Rightarrow> options" where
  "demo_opts v = \<lparr>o_version = v, o_goos = ''linux'', o_goarch = ''amd64'', o_libc = ''glibc'',
     o_dest = ''/d'', o_baseURL = ''http://m/'', o_printEnv = True, o_shell = ''sh'', o_force = False\<rparr>"

definition demo_http :: "string \<Rightarrow> http_reply" where
  "demo_http url =
     (if url = ''http://m/v1/SHA256SUMS''
      then Response 200 [] (Inr (''# sums'' @ CHR 0x0A # ''6f31  libimbhgo-v1-linux-amd64.a.zst'' @ [CHR 0x0A]))
      else if url = ''http://m/v2/SHA256SUMS''
      then Response 200 [] (Inr (''7732 *out/libimbhgo-v2-linux-amd64.a.zst'' @ [CHR 0x0A]))
      else if url = ''http://m/v1/libimbhgo-v1-linux-amd64.a.zst'' then Response 200 [] (Inr ''o1'')
      else if url = ''http://m/v2/libimbhgo-v2-linux-amd64.a.zst'' then Response 200 [] (Inr ''w2'')
      else Response 404 ''404 Not Found'' (Inr []))"

definition demo_host_env :: "(sysop \<Rightarrow> string \<Rightarrow> string option) \<Rightarrow> host_env" where
  "demo_host_env fail = \<lparr>e_cache_root = Inr ''/root/.cache'', e_http = demo_http, e_fail = fail,
     e_written = 1, e_temp = ''17'', e_sha256 = id, e_zstd_init = None, e_zstd = (\<lambda>b. Inr (''raw:'' @ b)),
     e_glob = (\<lambda>_. False), e_build = None, e_goos = ''linux'', e_goarch = ''amd64'', e_ulow = id,
     e_quote = id, e_usage = ''usage''\<rparr>"

definition fetch_ok_env :: host_env where
  "fetch_ok_env = demo_host_env (\<lambda>_ _. None)"

text \<open>A disk on which the sidecar can no longer be opened for writing.\<close>

definition fetch_full_env :: host_env where
  "fetch_full_env = demo_host_env (\<lambda>op p. if op = SysOpenWrite then Some ''disk full'' else None)"

text \<open>The host before and after the first version has been fetched.\<close>

definition host_first :: host where
  "host_first = snd (fetch fetch_ok_env (demo_opts ''v1'') blank_host)"

definition host_v1 :: host where
  "host_v1 = blank_host\<lparr>h_files := [''/d/libimbhgo.a'' \<mapsto> ''raw:o1'',
     ''/d/libimbhgo.a.sha256'' \<mapsto> ''6f31'' @ [CHR 0x0A]], h_dirs := {''/d''}\<rparr>"

section \<open>Integrity\<close>

text \<open>The cache invariant: the archive is what the sidecar beside it says.\<close>

definition cache_ok :: "host_env \<Rightarrow> string \<Rightarrow> host \<Rightarrow> bool" where
  "cache_ok ev d h \<longleftrightarrow>
     (case (h_files h (archive_path d), h_files h (sidecar_path d)) of
        (Some c, Some t) \<Rightarrow> verified ev c (TrimSpace t)
      | _ \<Rightarrow> True)"

lemma cachedMatches_verified:
  assumes "cachedMatches ev (archive_path d) (sidecar_path d) s h" "cache_ok ev d h"
  shows "exists_path (archive_path d) h \<and> (\<forall>c. h_files h (archive_path d) = Some c \<longrightarrow> verified ev c s)"
  using assms
  by (auto simp: cachedMatches_def os_Stat_def os_ReadFile_def cache_ok_def split: option.splits if_splits)



text \<open>
  C12. The cache stays consistent through every fetch, successful or not, as long as the sidecar itself can
  be written.
\<close>
theorem fetch_keeps_cache_ok:
  assumes "fetch ev opts h = (r, h')" "cache_dir ev opts = Inr d" "cache_ok ev d h"
    and "e_fail ev SysOpenWrite (sidecar_path d) = None" "e_fail ev SysWrite (sidecar_path d) = None"
  shows "cache_ok ev d h'"
  using assms(1,2)
proof (cases rule: fetch_cases)
  case (Install s h1)
  from fetch_install_result [OF Install(3)] assms(4,5)
  consider "untouched d h1 h'" | "installed ev opts d s h'" "h_files h' (sidecar_path d) = Some (s @ [CHR 0x0A])"
    by auto
  then show ?thesis
  proof cases
    case 1
    with Install(2) assms(3) show ?thesis by (simp add: untouched_def same_disk_def cache_ok_def)
  next
    case 2
    then obtain body raw where "sha256Hex ev body = s" "e_zstd ev body = Inr raw"
      "h_files h' (archive_path d) = Some raw" by (auto simp: installed_def)
    with 2(2) TrimSpace_sum [of ev body] show ?thesis by (auto simp: cache_ok_def verified_def)
  qed
qed (use assms(3) in \<open>simp_all add: cache_ok_def same_disk_def\<close>)

theorem fetch_keeps_cache_ok_witness:
  "cache_ok fetch_ok_env ''/d'' (snd (fetch fetch_ok_env (demo_opts ''v2'') blank_host))"
proof -
  have d: "cache_dir fetch_ok_env (demo_opts v) = Inr ''/d''" for v
    by (simp add: cache_dir_def demo_opts_def)
  have nf: "e_fail fetch_ok_env p q = None" for p q by (simp add: fetch_ok_env_def demo_host_env_def)
  note keep = fetch_keeps_cache_ok [OF surjective_pairing d _ nf nf]
  show ?thesis by (rule keep) (simp add: cache_ok_def blank_host_def)
qed

text \<open>
  C13. The archive is replaced atomically: at every moment of a fetch, so also after a crash in the middle,
  the file in the cache is the old one or a verified new one, never a part of one.
\<close>
theorem fetch_atomic:
  assumes "fetch ev opts h = (r, h')" "cache_dir ev opts = Inr d"
  shows "\<exists>fss. h_hist h' = h_hist h @ fss \<and>
    list_all (\<lambda>fs. fs (archive_path d) = h_files h (archive_path d) \<or>
      (\<exists>raw s. manifest_sum ev opts = Inr s \<and> verified ev raw s \<and> fs (archive_path d) = Some raw)) fss"
  using assms
proof (cases rule: fetch_cases)
  case (Install s h1)
  let ?P = "\<lambda>fs. fs (archive_path d) = h_files h (archive_path d) \<or>
      (\<exists>raw s. manifest_sum ev opts = Inr s \<and> verified ev raw s \<and> fs (archive_path d) = Some raw)"
  have "keeps ?P h1 h'"
    by (rule keeps_fetch_install [OF Install(3)]) (use Install(1) in auto)
  with Install(2) show ?thesis by (auto simp: keeps_def same_disk_def)
qed (simp_all add: same_disk_def)

theorem fetch_atomic_witness:
  "fst (fetch fetch_ok_env (demo_opts ''v1'') blank_host) = Inr () \<and>
   (\<exists>fss. h_hist (snd (fetch fetch_ok_env (demo_opts ''v1'') blank_host)) = h_hist blank_host @ fss \<and>
     list_all (\<lambda>fs. fs ''/d/libimbhgo.a'' = h_files blank_host ''/d/libimbhgo.a'' \<or>
       (\<exists>raw s. manifest_sum fetch_ok_env (demo_opts ''v1'') = Inr s \<and> verified fetch_ok_env raw s \<and>
          fs ''/d/libimbhgo.a'' = Some raw)) fss)"
proof
  show "fst (fetch fetch_ok_env (demo_opts ''v1'') blank_host) = Inr ()" by code_simp
  have d: "cache_dir fetch_ok_env (demo_opts ''v1'') = Inr ''/d''" by code_simp
  have a: "archive_path ''/d'' = ''/d/libimbhgo.a''" by code_simp
  from fetch_atomic [OF surjective_pairing d]
  show "\<exists>fss. h_hist (snd (fetch fetch_ok_env (demo_opts ''v1'') blank_host)) = h_hist blank_host @ fss \<and>
     list_all (\<lambda>fs. fs ''/d/libimbhgo.a'' = h_files blank_host ''/d/libimbhgo.a'' \<or>
       (\<exists>raw s. manifest_sum fetch_ok_env (demo_opts ''v1'') = Inr s \<and> verified fetch_ok_env raw s \<and>
          fs ''/d/libimbhgo.a'' = Some raw)) fss"
    unfolding a .
qed

section \<open>The cache\<close>

lemma force_irrelevant [simp]:
  "manifest_sum ev (opts\<lparr>o_force := b\<rparr>) = manifest_sum ev opts"
  "cache_dir ev (opts\<lparr>o_force := b\<rparr>) = cache_dir ev opts"
  by (simp_all add: manifest_sum_def cache_dir_def asset_name_def cong: sum.case_cong)

text \<open>
  C34. A fetch repeated after a success asks for the manifest only, changes no file and succeeds: what the
  first run left is recognised as up to date.
\<close>
theorem fetch_again_cached:
  assumes "fetch ev opts h = (Inr (), h1)" "cache_dir ev opts = Inr d" "manifest_sum ev opts = Inr s"
    and "e_fail ev SysStat (archive_path d) = None" "e_fail ev SysRead (sidecar_path d) = None"
    and "fetch ev (opts\<lparr>o_force := False\<rparr>) h1 = (r, h2)"
  shows "r = Inr () \<and> h_files h2 = h_files h1 \<and>
    h_gets h2 = h_gets h1 @ [SumsURL (o_baseURL opts) (o_version opts)]"
proof -
  have opts': "manifest_sum ev (opts\<lparr>o_force := False\<rparr>) = Inr s" "cache_dir ev (opts\<lparr>o_force := False\<rparr>) = Inr d"
    using assms(2,3) by simp_all
  have m: "cachedMatches ev (archive_path d) (sidecar_path d) s h1"
    using assms(1,2)
  proof (cases rule: fetch_cases)
    case (Cached t)
    with assms(3) show ?thesis by (auto simp: same_disk_def intro: cachedMatches_cong [THEN iffD1, rotated 2])
  next
    case (Install t h0)
    with assms(3) have fi: "fetch_install ev opts d s h0 = (Inr (), h1)" by simp
    from fetch_install_result [OF fi] have i: "installed ev opts d s h1"
      and t: "h_files h1 (sidecar_path d) = Some (s @ [CHR 0x0A])" by auto
    then show ?thesis using TrimSpace_sum assms(4,5)
      by (auto simp: installed_def cachedMatches_def os_Stat_def os_ReadFile_def exists_path_def)
  qed (use assms(3) in simp)
  from assms(6) opts'(2) show ?thesis
  proof (cases rule: fetch_cases)
    case (Install t h0)
    with m opts'(1) show ?thesis by simp
  qed (use opts'(1) in \<open>simp_all add: same_disk_def\<close>)
qed

theorem fetch_again_cached_witness:
  "h_gets (snd (fetch fetch_ok_env (demo_opts ''v1'') host_first)) =
     [''http://m/v1/SHA256SUMS'', ''http://m/v1/libimbhgo-v1-linux-amd64.a.zst'', ''http://m/v1/SHA256SUMS'']"
proof -
  let ?h = "snd (fetch fetch_ok_env (demo_opts ''v1'') host_first)"
  have ok: "fst (fetch fetch_ok_env (demo_opts ''v1'') blank_host) = Inr ()" by code_simp
  then have f: "fetch fetch_ok_env (demo_opts ''v1'') blank_host = (Inr (), host_first)"
    unfolding host_first_def by (metis prod.collapse)
  have d: "cache_dir fetch_ok_env (demo_opts ''v1'') = Inr ''/d''" by code_simp
  have m: "manifest_sum fetch_ok_env (demo_opts ''v1'') = Inr ''6f31''" by code_simp
  have nf: "e_fail fetch_ok_env p q = None" for p q by (simp add: fetch_ok_env_def demo_host_env_def)
  have same: "(demo_opts ''v1'')\<lparr>o_force := False\<rparr> = demo_opts ''v1''" by (simp add: demo_opts_def)
  have "h_gets ?h = h_gets host_first @ [SumsURL ''http://m/'' ''v1'']"
    using fetch_again_cached [OF f d m nf nf, unfolded same, OF surjective_pairing]
    by (simp add: demo_opts_def)
  moreover have "h_gets host_first = [''http://m/v1/SHA256SUMS'', ''http://m/v1/libimbhgo-v1-linux-amd64.a.zst'']"
    by code_simp
  moreover have "SumsURL ''http://m/'' ''v1'' = ''http://m/v1/SHA256SUMS''" by code_simp
  ultimately show ?thesis by simp
qed

text \<open>
  C35. The hole in the cache: when the archive has been replaced and the sidecar cannot be written, the old
  sidecar stays beside the new archive, and a later fetch of the version that sidecar belongs to takes
  the new archive for the old one without downloading anything.
\<close>
theorem sidecar_failure_poisons_cache:
  assumes "fetch ev opts h = (Inl (''write checksum sidecar: '' @ e), h')" "cache_dir ev opts = Inr d"
    and "manifest_sum ev opts = Inr s"
    and "e_fail ev SysOpenWrite (sidecar_path d) = Some e" "h_files h (sidecar_path d) = Some t"
    and "e_fail ev SysStat (archive_path d) = None" "e_fail ev SysRead (sidecar_path d) = None"
    and "cache_dir ev opts2 = Inr d" "manifest_sum ev opts2 = Inr (TrimSpace t)" "\<not> o_force opts2"
    and "h_files h' (archive_path d) \<noteq> h_files h (archive_path d)"
  shows "\<exists>raw h2. h_files h' (archive_path d) = Some raw \<and> verified ev raw s \<and>
    fetch ev opts2 h' = (Inr (), h2) \<and> h_files h2 = h_files h'"
  using assms(1,2)
proof (cases rule: fetch_cases)
  case (Install s' h1)
  with assms(3) have fi: "fetch_install ev opts d s h1 = (Inl (''write checksum sidecar: '' @ e), h')" by simp
  from fetch_install_result [OF fi] assms(4,11) Install(2)
  have i: "installed ev opts d s h'" and side: "h_files h' (sidecar_path d) = Some t"
    using assms(5) by (auto simp: untouched_def same_disk_def)
  then obtain raw where raw: "h_files h' (archive_path d) = Some raw" "verified ev raw s"
    by (auto dest: installed_verified)
  have m: "cachedMatches ev (archive_path d) (sidecar_path d) (TrimSpace t) h'"
    using raw(1) side assms(6,7) by (simp add: cachedMatches_def os_Stat_def os_ReadFile_def exists_path_def)
  obtain r2 h2 where f2: "fetch ev opts2 h' = (r2, h2)" by fastforce
  from f2 assms(8) have "r2 = Inr () \<and> h_files h2 = h_files h'"
  proof (cases rule: fetch_cases)
    case (Install t' h0)
    with m assms(9,10) show ?thesis by simp
  qed (use assms(9) in \<open>simp_all add: same_disk_def\<close>)
  with raw f2 show ?thesis by blast
qed (use assms(3,11) in \<open>simp_all add: same_disk_def\<close>)

theorem sidecar_failure_poisons_cache_witness:
  "\<exists>h2. fetch fetch_full_env (demo_opts ''v1'') (snd (fetch fetch_full_env (demo_opts ''v2'') host_v1)) =
     (Inr (), h2) \<and> h_files h2 ''/d/libimbhgo.a'' = Some ''raw:w2''"
proof -
  let ?h = "snd (fetch fetch_full_env (demo_opts ''v2'') host_v1)"
  have "fst (fetch fetch_full_env (demo_opts ''v2'') host_v1) = Inl (''write checksum sidecar: '' @ ''disk full'')"
    by code_simp
  then have f: "fetch fetch_full_env (demo_opts ''v2'') host_v1 =
      (Inl (''write checksum sidecar: '' @ ''disk full''), ?h)" by (metis prod.collapse)
  have d: "cache_dir fetch_full_env (demo_opts v) = Inr ''/d''" for v
    by (simp add: cache_dir_def demo_opts_def)
  have m: "manifest_sum fetch_full_env (demo_opts ''v2'') = Inr ''7732''"
    "manifest_sum fetch_full_env (demo_opts ''v1'') = Inr (TrimSpace (''6f31'' @ [CHR 0x0A]))" by code_simp+
  have nf: "e_fail fetch_full_env SysStat p = None" "e_fail fetch_full_env SysRead p = None"
    "e_fail fetch_full_env SysOpenWrite p = Some ''disk full''" for p
    by (simp_all add: fetch_full_env_def demo_host_env_def)
  have a: "archive_path ''/d'' = ''/d/libimbhgo.a''" by code_simp
  have s: "h_files host_v1 (sidecar_path ''/d'') = Some (''6f31'' @ [CHR 0x0A])" by code_simp
  have files: "h_files ?h ''/d/libimbhgo.a'' = Some ''raw:w2''" "h_files host_v1 ''/d/libimbhgo.a'' = Some ''raw:o1''"
    by code_simp+
  from sidecar_failure_poisons_cache [OF f d m(1) nf(3) s nf(1,2) d m(2)] files
  show ?thesis by (auto simp: a demo_opts_def)
qed

end
