(* ===== verification/FetchMain.thy ===== *)
theory FetchMain
  imports FetchClaims
begin

text \<open>
  The command line of \<open>imbhgo-fetch\<close> (flags, defaults, \<open>run\<close>), the checksum manifest as a format, and the
  environment line as what the shell and then \<open>cmd/go\<close> make of it.
\<close>

section \<open>Flags\<close>

text \<open>Go's \<open>flag\<close> package: one argument, taken apart.\<close>

datatype flag_arg = NotFlag | Terminator | BadSyntax | Flag string "string option"

definition split_flag :: "string \<Rightarrow> flag_arg" where
  "split_flag s =
     (if length s < 2 \<or> hd s \<noteq> CHR ''-'' then NotFlag
      else if s = ''--'' then Terminator
      else let name = (if s ! 1 = CHR ''-'' then drop 2 s else drop 1 s) in
        if name = [] \<or> hd name = CHR ''-'' \<or> hd name = CHR ''='' then BadSyntax
        else let n = takeWhile (\<lambda>c. c \<noteq> CHR ''='') name in
          if n = name then Flag name None else Flag n (Some (drop (Suc (length n)) name)))"

definition parse_bool :: "string \<Rightarrow> bool option" where
  "parse_bool s =
     (if s \<in> {''1'', ''t'', ''T'', ''TRUE'', ''true'', ''True''} then Some True
      else if s \<in> {''0'', ''f'', ''F'', ''FALSE'', ''false'', ''False''} then Some False else None)"

definition set_string :: "string \<Rightarrow> (string \<Rightarrow> options \<Rightarrow> options) option" where
  "set_string name =
     (if name = ''version'' then Some (\<lambda>v opts. opts\<lparr>o_version := v\<rparr>)
      else if name = ''os'' then Some (\<lambda>v opts. opts\<lparr>o_goos := v\<rparr>)
      else if name = ''arch'' then Some (\<lambda>v opts. opts\<lparr>o_goarch := v\<rparr>)
      else if name = ''libc'' then Some (\<lambda>v opts. opts\<lparr>o_libc := v\<rparr>)
      else if name = ''dest'' then Some (\<lambda>v opts. opts\<lparr>o_dest := v\<rparr>)
      else if name = ''base-url'' then Some (\<lambda>v opts. opts\<lparr>o_baseURL := v\<rparr>)
      else if name = ''shell'' then Some (\<lambda>v opts. opts\<lparr>o_shell := v\<rparr>)
      else None)"

definition set_bool :: "string \<Rightarrow> (bool \<Rightarrow> options \<Rightarrow> options) option" where
  "set_bool name =
     (if name = ''print-env'' then Some (\<lambda>v opts. opts\<lparr>o_printEnv := v\<rparr>)
      else if name = ''force'' then Some (\<lambda>v opts. opts\<lparr>o_force := v\<rparr>)
      else None)"

fun parse_flags :: "host_env \<Rightarrow> string list \<Rightarrow> options \<Rightarrow> string + options" where
  "parse_flags ev [] opts = Inr opts"
| "parse_flags ev (a # as) opts =
     (case split_flag a of
        NotFlag \<Rightarrow> Inr opts
      | Terminator \<Rightarrow> Inr opts
      | BadSyntax \<Rightarrow> Inl (''bad flag syntax: '' @ a)
      | Flag name val \<Rightarrow>
          (case set_bool name of
             Some put \<Rightarrow>
               (case val of
                  None \<Rightarrow> parse_flags ev as (put True opts)
                | Some v \<Rightarrow>
                    (case parse_bool v of
                       None \<Rightarrow> Inl (''invalid boolean value '' @ e_quote ev v @ '' for -'' @ name @ '': parse error'')
                     | Some b \<Rightarrow> parse_flags ev as (put b opts)))
           | None \<Rightarrow>
               (case set_string name of
                  Some put \<Rightarrow>
                    (case val of
                       Some v \<Rightarrow> parse_flags ev as (put v opts)
                     | None \<Rightarrow>
                         (case as of
                            [] \<Rightarrow> Inl (''flag needs an argument: -'' @ name)
                          | v # as' \<Rightarrow> parse_flags ev as' (put v opts)))
                | None \<Rightarrow>
                    Inl (if name = ''help'' \<or> name = ''h'' then ''flag: help requested''
                         else ''flag provided but not defined: -'' @ name))))"

section \<open>run\<close>

definition resolveVersion :: "host_env \<Rightarrow> string" where
  "resolveVersion ev =
     (case e_build ev of
        Some v \<Rightarrow> if v \<noteq> [] \<and> v \<noteq> ''(devel)'' then v else Version
      | None \<Rightarrow> Version)"

definition default_options :: "host_env \<Rightarrow> options" where
  "default_options ev = \<lparr>o_version = resolveVersion ev, o_goos = e_goos ev, o_goarch = e_goarch ev,
     o_libc = [], o_dest = [], o_baseURL = DefaultBaseURL, o_printEnv = False, o_shell = ''sh'',
     o_force = False\<rparr>"

definition run :: "host_env \<Rightarrow> string list \<Rightarrow> host \<Rightarrow> (string + unit) \<times> host" where
  "run ev args h =
     (case parse_flags ev args (default_options ev) of
        Inl e \<Rightarrow>
          (Inl e, h\<lparr>h_err := h_err h @
             (if e = ''flag: help requested'' then [] else e @ [CHR 0x0A]) @ e_usage ev\<rparr>)
      | Inr opts \<Rightarrow>
          if o_shell opts \<notin> {''sh'', ''cmd'', ''powershell''}
          then (Inl (''unknown -shell '' @ e_quote ev (o_shell opts) @ '' (want sh, cmd, or powershell)''), h)
          else fetch ev (if o_libc opts = [] then opts\<lparr>o_libc := DefaultLibc (o_goos opts) (e_glob ev)\<rparr>
                         else opts) h)"

text \<open>The exit code and the final state of the process.\<close>

definition main :: "host_env \<Rightarrow> string list \<Rightarrow> host \<Rightarrow> nat \<times> host" where
  "main ev args h =
     (case run ev args h of
        (Inl e, h') \<Rightarrow> (1, h'\<lparr>h_err := h_err h' @ ''imbhgo-fetch: '' @ e @ [CHR 0x0A]\<rparr>)
      | (Inr _, h') \<Rightarrow> (0, h'))"

text \<open>The command line that spells every option out.\<close>

definition flag_args :: "options \<Rightarrow> string list" where
  "flag_args opts =
     [''-version'', o_version opts, ''-os'', o_goos opts, ''--arch'', o_goarch opts,
      ''-libc='' @ o_libc opts, ''-dest'', o_dest opts, ''-base-url='' @ o_baseURL opts,
      ''-print-env='' @ (if o_printEnv opts then ''true'' else ''false''), ''-shell'', o_shell opts] @
     (if o_force opts then [''-force''] else [''-force=false''])"

lemma set_flag_simps [simp]:
  "set_bool ''version'' = None" "set_bool ''os'' = None" "set_bool ''arch'' = None"
  "set_bool ''libc'' = None" "set_bool ''dest'' = None" "set_bool ''base-url'' = None"
  "set_bool ''shell'' = None"
  "set_bool ''print-env'' = Some (\<lambda>v opts. opts\<lparr>o_printEnv := v\<rparr>)"
  "set_bool ''force'' = Some (\<lambda>v opts. opts\<lparr>o_force := v\<rparr>)"
  "set_string ''version'' = Some (\<lambda>v opts. opts\<lparr>o_version := v\<rparr>)"
  "set_string ''os'' = Some (\<lambda>v opts. opts\<lparr>o_goos := v\<rparr>)"
  "set_string ''arch'' = Some (\<lambda>v opts. opts\<lparr>o_goarch := v\<rparr>)"
  "set_string ''libc'' = Some (\<lambda>v opts. opts\<lparr>o_libc := v\<rparr>)"
  "set_string ''dest'' = Some (\<lambda>v opts. opts\<lparr>o_dest := v\<rparr>)"
  "set_string ''base-url'' = Some (\<lambda>v opts. opts\<lparr>o_baseURL := v\<rparr>)"
  "set_string ''shell'' = Some (\<lambda>v opts. opts\<lparr>o_shell := v\<rparr>)"
  by (simp_all add: set_bool_def set_string_def)

lemma parse_bool_simps [simp]: "parse_bool ''true'' = Some True" "parse_bool ''false'' = Some False"
  by (simp_all add: parse_bool_def)

lemma parse_flag_args: "parse_flags ev (flag_args opts) d = Inr opts"
  by (cases "o_printEnv opts"; cases "o_force opts"; simp add: flag_args_def split_flag_def)

text \<open>
  C30. Every option can be given on the command line, in any of the forms \<open>-f v\<close>, \<open>--f v\<close>, \<open>-f=v\<close>: the
  command line spelling out a set of options runs \<open>fetch\<close> with exactly these, whatever the defaults; an
  unknown shell is refused before anything is requested or written.
\<close>
theorem run_flag_args:
  "run ev (flag_args opts) h =
     (if o_shell opts \<in> {''sh'', ''cmd'', ''powershell''}
      then fetch ev (opts\<lparr>o_libc := if o_libc opts = [] then DefaultLibc (o_goos opts) (e_glob ev)
                                    else o_libc opts\<rparr>) h
      else (Inl (''unknown -shell '' @ e_quote ev (o_shell opts) @ '' (want sh, cmd, or powershell)''), h))"
  by (simp add: run_def parse_flag_args)

section \<open>The checksum manifest\<close>

text \<open>What \<open>sha256sum\<close> writes: the digest, a blank, a blank or a star, the name.\<close>

definition sums_line :: "string \<times> bool \<times> string \<Rightarrow> string" where
  "sums_line = (\<lambda>(digest, star, name). digest @ (if star then '' *'' else ''  '') @ name)"

definition sums_file :: "(string \<times> bool \<times> string) list \<Rightarrow> string" where
  "sums_file es = concat (map (\<lambda>e. sums_line e @ [CHR 0x0A]) es)"

definition sums_ok :: "string \<times> bool \<times> string \<Rightarrow> bool" where
  "sums_ok = (\<lambda>(digest, star, name).
     digest \<noteq> [] \<and> list_all graph digest \<and> hd digest \<noteq> CHR ''#'' \<and>
     name \<noteq> [] \<and> list_all graph name \<and> (star \<or> hd name \<noteq> CHR ''*''))"

lemma graph_props:
  assumes "list_all graph s"
  shows "CHR 0x0A \<notin> set s" "CHR '' '' \<notin> set s" "ascii s"
proof -
  have "\<not> graph (CHR 0x0A)" "\<not> graph (CHR '' '')" by (simp_all add: graph_def between_def)
  then show "CHR 0x0A \<notin> set s" "CHR '' '' \<notin> set s" using assms by (auto simp: list_all_iff)
  have "graph c \<Longrightarrow> byte c < 128" for c by (simp add: graph_def between_def)
  then show "ascii s" using assms by (auto simp: list_all_iff ascii_def)
qed

lemma sums_line_fields:
  assumes "sums_ok (digest, star, name)"
  defines "l \<equiv> sums_line (digest, star, name)"
  shows "CHR 0x0A \<notin> set l" "TrimSpace l = l" "l \<noteq> []" "\<not> HasPrefix l ''#''"
    "\<exists>f. Fields l = [digest, f] \<and> TrimPrefix f ''*'' = name"
proof -
  from assms have ok: "digest \<noteq> []" "list_all graph digest" "hd digest \<noteq> CHR ''#''" "name \<noteq> []"
    "list_all graph name" "star \<or> hd name \<noteq> CHR ''*''" by (simp_all add: sums_ok_def)
  have l: "l = digest @ (if star then '' *'' else ''  '') @ name" by (simp add: l_def sums_line_def)
  with ok graph_props [OF ok(2)] graph_props [OF ok(5)] show "CHR 0x0A \<notin> set l" by auto
  from l ok have "l \<noteq> []" "hd l = hd digest" "last l = last name" by simp_all
  then show "TrimSpace l = l" using ok by (intro TrimSpace_graph) (auto simp: list_all_iff)
  show "l \<noteq> []" by fact
  show "\<not> HasPrefix l ''#''"
    using \<open>l \<noteq> []\<close> \<open>hd l = hd digest\<close> ok(3) by (cases l) (simp_all add: HasPrefix_def)
  have star: "graph (CHR ''*'')" by (simp add: graph_def between_def)
  show "\<exists>f. Fields l = [digest, f] \<and> TrimPrefix f ''*'' = name"
  proof (cases star)
    case True
    with ok star Fields_two(1) [of digest "CHR ''*'' # name"]
    have "Fields l = [digest, CHR ''*'' # name]" by (simp add: l)
    moreover have "TrimPrefix (CHR ''*'' # name) ''*'' = name" by (simp add: TrimPrefix_def HasPrefix_def)
    ultimately show ?thesis by blast
  next
    case False
    with ok Fields_two(2) [of digest name] have "Fields l = [digest, name]" by (simp add: l)
    moreover from ok False have "TrimPrefix name ''*'' = name"
      by (cases name) (simp_all add: TrimPrefix_def HasPrefix_def)
    ultimately show ?thesis by blast
  qed
qed

lemma SplitByte_sums: "list_all sums_ok es \<Longrightarrow> SplitByte (CHR 0x0A) (sums_file es) = map sums_line es @ [[]]"
proof (induction es)
  case (Cons e es)
  obtain digest star name where e: "e = (digest, star, name)" by (cases e)
  from Cons sums_line_fields(1) [of digest star name] show ?case
    by (simp add: sums_file_def SplitByte_app e)
qed (simp add: sums_file_def)

text \<open>
  C36. On a manifest as \<open>sha256sum\<close> writes it (text or binary mode, names with or without a directory),
  \<open>parseSums\<close> returns the lower-case digest of the first entry whose base name is the asset, and nothing
  when there is none.
\<close>
theorem parseSums_first:
  assumes "list_all sums_ok es"
  shows "parseSums ulow (sums_file es) asset =
    map_option (\<lambda>(digest, star, name). map lower_byte digest)
      (find (\<lambda>(digest, star, name). path_Base name = asset) es)"
proof -
  have "sums_lines ulow (map sums_line es @ [[]]) asset =
    map_option (\<lambda>(digest, star, name). map lower_byte digest)
      (find (\<lambda>(digest, star, name). path_Base name = asset) es)"
    using assms
  proof (induction es)
    case Nil
    then show ?case by simp
  next
    case (Cons e es)
    obtain digest star name where e: "e = (digest, star, name)" by (cases e)
    with Cons.prems have ok: "sums_ok (digest, star, name)" by simp
    note f = sums_line_fields [OF ok]
    from f(5) obtain x where x: "Fields (sums_line e) = [digest, x]" "TrimPrefix x ''*'' = name"
      by (auto simp: e)
    have "ascii digest" using ok graph_props(3) [of digest] by (simp add: sums_ok_def)
    with Cons x f show ?case by (simp add: e ToLower_def)
  qed
  with SplitByte_sums [OF assms] show ?thesis by (simp add: parseSums_def)
qed

theorem parseSums_first_witness:
  "parseSums id (sums_file [(''AB01'', False, ''a.zst''), (''CD02'', True, ''out/b.zst''), (''EE'', False, ''b.zst'')])
     ''b.zst'' = Some ''cd02''"
proof -
  let ?es = "[(''AB01'', False, ''a.zst''), (''CD02'', True, ''out/b.zst''), (''EE'', False, ''b.zst'')]"
  have ok: "list_all sums_ok ?es" by code_simp
  show ?thesis unfolding parseSums_first [OF ok] by code_simp
qed

section \<open>Reading the environment line\<close>

text \<open>
  How a POSIX shell reads one word: single quotes quote everything, a backslash the next byte, and an
  unquoted blank or newline ends the word. Any other byte special to the shell is outside this reader
  (\<open>None\<close>), so a line that reads under it has no hidden expansion.
\<close>

definition sh_special :: "char \<Rightarrow> bool" where
  "sh_special c \<longleftrightarrow> c \<in> set ''$`*?[~#&;|<>()!{}'' \<or> c = CHR 0x22"

fun sh_word :: "bool \<Rightarrow> string \<Rightarrow> (string \<times> string) option" where
  "sh_word True [] = None"
| "sh_word True (c # s) =
     (if c = CHR 0x27 then sh_word False s
      else map_option (\<lambda>(w, r). (c # w, r)) (sh_word True s))"
| "sh_word False [] = Some ([], [])"
| "sh_word False (c # s) =
     (if c = CHR 0x27 then sh_word True s
      else if c = CHR 0x5C then
        (case s of [] \<Rightarrow> None | d # s' \<Rightarrow> if d = CHR 0x0A then None
           else map_option (\<lambda>(w, r). (d # w, r)) (sh_word False s'))
      else if c = CHR '' '' \<or> c = CHR 0x09 \<or> c = CHR 0x0A then Some ([], c # s)
      else if sh_special c then None
      else map_option (\<lambda>(w, r). (c # w, r)) (sh_word False s))"

text \<open>PowerShell's single-quoted string: a doubled quote is a quote, a single one ends the string.\<close>

fun ps_quoted :: "string \<Rightarrow> (string \<times> string) option" where
  "ps_quoted [] = None"
| "ps_quoted [c] = (if c = CHR 0x27 then Some ([], []) else None)"
| "ps_quoted (c # d # s) =
     (if c = CHR 0x27
      then if d = CHR 0x27 then map_option (\<lambda>(w, r). (CHR 0x27 # w, r)) (ps_quoted s)
           else Some ([], d # s)
      else map_option (\<lambda>(w, r). (c # w, r)) (ps_quoted (d # s)))"

definition ps_string :: "string \<Rightarrow> string option" where
  "ps_string s =
     (case s of
        [] \<Rightarrow> None
      | c # r \<Rightarrow> if c = CHR 0x27 then (case ps_quoted r of Some (w, []) \<Rightarrow> Some w | _ \<Rightarrow> None) else None)"

definition word_end :: "string \<Rightarrow> bool" where
  "word_end r \<longleftrightarrow> r = [] \<or> hd r \<in> {CHR '' '', CHR 0x09, CHR 0x0A}"

lemma ReplaceByte_simps [simp]:
  "ReplaceByte c by [] = []"
  "ReplaceByte c by (x # s) = (if x = c then by @ ReplaceByte c by s else x # ReplaceByte c by s)"
  by (simp_all add: ReplaceByte_def)

lemma sh_word_end: "word_end r \<Longrightarrow> sh_word False r = Some ([], r)"
  by (cases r) (auto simp: word_end_def)

lemma sh_word_quoted:
  "word_end r \<Longrightarrow>
     sh_word True (ReplaceByte (CHR 0x27) [CHR 0x27, CHR 0x5C, CHR 0x27, CHR 0x27] s @ CHR 0x27 # r) = Some (s, r)"
  by (induction s) (simp_all add: sh_word_end)

lemma sh_posixQuote: "word_end r \<Longrightarrow> sh_word False (posixQuote s @ r) = Some (s, r)"
  by (simp add: posixQuote_def sh_word_quoted)

lemma ps_quoted_replace:
  "ps_quoted (ReplaceByte (CHR 0x27) [CHR 0x27, CHR 0x27] s @ [CHR 0x27]) = Some (s, [])"
proof (induction s)
  case (Cons c s)
  obtain d t where "ReplaceByte (CHR 0x27) [CHR 0x27, CHR 0x27] s @ [CHR 0x27] = d # t"
    by (cases "ReplaceByte (CHR 0x27) [CHR 0x27, CHR 0x27] s") auto
  with Cons show ?case by simp
qed simp

interpretation posix_quoting: codec "\<lambda>_. True" posixQuote
    "\<lambda>q. case sh_word False q of Some (v, []) \<Rightarrow> Some v | _ \<Rightarrow> None"
proof unfold_locales
  fix s show "(case sh_word False (posixQuote s) of Some (v, []) \<Rightarrow> Some v | _ \<Rightarrow> None) = Some s"
    using sh_posixQuote [of "[]" s] by (simp add: word_end_def)
qed

interpretation powershell_quoting: codec "\<lambda>_. True" powerShellQuote ps_string
  by unfold_locales (simp add: powerShellQuote_def ps_string_def ps_quoted_replace)

text \<open>
  How \<open>cmd/go\<close> splits \<open>CGO_LDFLAGS\<close>: fields between blanks, a quote counts only where it opens a field,
  and the field ends at the next such quote.
\<close>

definition field_space :: "char \<Rightarrow> bool" where
  "field_space c \<longleftrightarrow> c \<in> {CHR '' '', CHR 0x09, CHR 0x0A, CHR 0x0D}"

function quoted_split :: "string \<Rightarrow> string list option" where
  "quoted_split [] = Some []"
| "quoted_split (c # s) =
     (if field_space c then quoted_split s
      else if c = CHR 0x27 \<or> c = CHR 0x22 then
        (if c \<in> set s
         then map_option (Cons (takeWhile (\<lambda>x. x \<noteq> c) s))
                (quoted_split (drop (Suc (length (takeWhile (\<lambda>x. x \<noteq> c) s))) s))
         else None)
      else map_option (Cons (takeWhile (\<lambda>x. \<not> field_space x) (c # s)))
             (quoted_split (dropWhile (\<lambda>x. \<not> field_space x) s)))"
  by pat_completeness auto
termination
  by (relation "measure length") (auto simp: le_imp_less_Suc length_dropWhile_le)

lemma quoted_split_word:
  assumes "w \<noteq> []" "\<forall>c\<in>set w. \<not> field_space c" "hd w \<noteq> CHR 0x27" "hd w \<noteq> CHR 0x22"
  shows "quoted_split (w @ CHR '' '' # s) = map_option (Cons w) (quoted_split s)"
    "quoted_split w = Some [w]"
proof -
  obtain c v where w: "w = c # v" using assms(1) by (cases w) auto
  have space: "field_space (CHR '' '')" by (simp add: field_space_def)
  have "takeWhile (\<lambda>x. \<not> field_space x) (v @ CHR '' '' # s) = v"
    "dropWhile (\<lambda>x. \<not> field_space x) (v @ CHR '' '' # s) = CHR '' '' # s"
    "takeWhile (\<lambda>x. \<not> field_space x) v = v" "dropWhile (\<lambda>x. \<not> field_space x) v = []"
    using assms(2) w space by (auto simp: takeWhile_append2 dropWhile_append2)
  with assms w space show "quoted_split (w @ CHR '' '' # s) = map_option (Cons w) (quoted_split s)"
    "quoted_split w = Some [w]" by (simp_all del: dropWhile_eq_Nil_conv)
qed

lemma quoted_split_lib: "quoted_split '' -limbhgo'' = Some [''-limbhgo'']"
  by (simp add: field_space_def)

lemma takeWhile_quote: "c \<notin> set s \<Longrightarrow> takeWhile (\<lambda>x. x \<noteq> c) (s @ c # r) = s"
  by (subst takeWhile_append2) auto

definition blank_in :: "string \<Rightarrow> bool" where
  "blank_in s \<longleftrightarrow> CHR '' '' \<in> set s \<or> CHR 0x09 \<in> set s"

text \<open>
  C37. For a directory without line breaks, \<open>cmd/go\<close> splits the value \<open>ldflagsFor\<close> builds into the search path
  and the library exactly when the directory does not contain both a blank and a single quote.
\<close>
theorem ldflags_split:
  assumes "CHR 0x0A \<notin> set dir" "CHR 0x0D \<notin> set dir"
  shows "quoted_split (ldflagsFor dir) = Some [''-L'' @ dir, ''-limbhgo''] \<longleftrightarrow>
    \<not> (blank_in dir \<and> CHR 0x27 \<in> set dir)"
proof (cases "blank_in dir")
  case False
  then have l: "ldflagsFor dir = (''-L'' @ dir) @ CHR '' '' # ''-limbhgo''"
    by (simp add: ldflagsFor_def blank_in_def)
  have "\<forall>c\<in>set (''-L'' @ dir). \<not> field_space c" using assms False
    by (auto simp: field_space_def blank_in_def)
  from quoted_split_word(1) [OF _ this, of "''-limbhgo''"] False
  show ?thesis unfolding l by (simp add: field_space_def)
next
  case True
  let ?d = "''-L'' @ dir"
  have l: "ldflagsFor dir = CHR 0x27 # (?d @ CHR 0x27 # '' -limbhgo'')"
    using True by (simp add: ldflagsFor_def blank_in_def Let_def)
  have split: "quoted_split (ldflagsFor dir) =
      (let w = takeWhile (\<lambda>x. x \<noteq> CHR 0x27) (?d @ CHR 0x27 # '' -limbhgo'') in
       map_option (Cons w) (quoted_split (drop (Suc (length w)) (?d @ CHR 0x27 # '' -limbhgo''))))"
    unfolding l by (simp add: field_space_def Let_def)
  show ?thesis
  proof (cases "CHR 0x27 \<in> set dir")
    case False
    then have "takeWhile (\<lambda>x. x \<noteq> CHR 0x27) (?d @ CHR 0x27 # '' -limbhgo'') = ?d"
      by (intro takeWhile_quote) simp
    with False quoted_split_lib show ?thesis unfolding split Let_def by simp
  next
    case quote: True
    have "takeWhile (\<lambda>x. x \<noteq> CHR 0x27) (?d @ CHR 0x27 # '' -limbhgo'') \<noteq> ?d"
    proof
      assume eq: "takeWhile (\<lambda>x. x \<noteq> CHR 0x27) (?d @ CHR 0x27 # '' -limbhgo'') = ?d"
      have "\<forall>x\<in>set (takeWhile (\<lambda>x. x \<noteq> CHR 0x27) (?d @ CHR 0x27 # '' -limbhgo'')). x \<noteq> CHR 0x27"
        by (blast dest: set_takeWhileD)
      from this [unfolded eq] quote show False by auto
    qed
    with True quote show ?thesis unfolding split Let_def by (auto simp: map_option_case split: option.splits)
  qed
qed

theorem ldflags_split_witness:
  "quoted_split (ldflagsFor ''/Users/a b/cache'') = Some [''-L/Users/a b/cache'', ''-limbhgo''] \<and>
   quoted_split (ldflagsFor (''/o'' @ CHR 0x27 # ''b c'')) \<noteq> Some [''-L/o'' @ CHR 0x27 # ''b c'', ''-limbhgo'']"
  using ldflags_split [of "''/Users/a b/cache''"] ldflags_split [of "''/o'' @ CHR 0x27 # ''b c''"]
  by (simp add: blank_in_def)

text \<open>
  C38. With \<open>-print-env\<close>, what a fetch prints last is one line that a POSIX shell reads as an assignment of
  exactly the flags to \<open>CGO_LDFLAGS\<close>, whatever bytes the directory contains, and PowerShell reads its
  dialect back the same way.
\<close>
theorem print_env_line:
  assumes "o_printEnv opts" "o_shell opts \<noteq> ''cmd''"
  shows "\<exists>q. h_out (emit ev opts dir h) = h_out h @
      (if o_shell opts = ''powershell'' then ''$env:CGO_LDFLAGS = '' else ''export CGO_LDFLAGS='') @ q @ [CHR 0x0A] \<and>
    (if o_shell opts = ''powershell'' then ps_string q = Some (ldflagsFor dir)
     else sh_word False (q @ [CHR 0x0A]) = Some (ldflagsFor dir, [CHR 0x0A]))"
proof (cases "o_shell opts = ''powershell''")
  case True
  with assms powershell_quoting.dec_enc [of "ldflagsFor dir"] show ?thesis
    by (intro exI [of _ "powerShellQuote (ldflagsFor dir)"]) (simp add: emit_def envLine_def logf_def)
next
  case False
  with assms sh_posixQuote [of "[CHR 0x0A]" "ldflagsFor dir"] show ?thesis
    by (intro exI [of _ "posixQuote (ldflagsFor dir)"]) (simp add: emit_def envLine_def logf_def word_end_def)
qed

theorem print_env_line_witness:
  "\<exists>q. h_out (emit fetch_ok_env (demo_opts ''v1'') (''/it'' @ CHR 0x27 # ''s'') blank_host) =
      ''export CGO_LDFLAGS='' @ q @ [CHR 0x0A] \<and>
    sh_word False (q @ [CHR 0x0A]) = Some (ldflagsFor (''/it'' @ CHR 0x27 # ''s''), [CHR 0x0A])"
  using print_env_line [of "demo_opts ''v1''" fetch_ok_env "''/it'' @ CHR 0x27 # ''s''" blank_host]
  by (simp add: demo_opts_def blank_host_def)

end
