(* ===== verification/Json.thy ===== *)
theory Json
  imports GoStrings
begin

text \<open>
  \<open>encoding/json\<close> as the package uses it: the values, the text \<open>json.Marshal\<close> writes (compact, with its
  HTML-safe string escapes) and a parser of JSON texts, proved to read back what is written. \<open>JLit\<close> is a
  token written verbatim: a number, or the raw message of a cursor.
\<close>

section \<open>Values and their text\<close>

datatype json =
    JNull
  | JBool bool
  | JLit string
  | JStr string
  | JArr "json list"
  | JObj "(string \<times> json) list"

abbreviation quote :: char where
  "quote \<equiv> CHR 0x22"

abbreviation backslash :: char where
  "backslash \<equiv> CHR 0x5C"

definition hex_nibble :: "nat \<Rightarrow> char" where
  "hex_nibble d = (if d < 10 then char_of (48 + d) else char_of (87 + d))"

text \<open>The escape of one ASCII byte.\<close>

definition esc_byte :: "char \<Rightarrow> string" where
  "esc_byte c =
     (if c = quote \<or> c = backslash then [backslash, c]
      else if byte c = 8 then [backslash, CHR ''b'']
      else if byte c = 12 then [backslash, CHR ''f'']
      else if byte c = 10 then [backslash, CHR ''n'']
      else if byte c = 13 then [backslash, CHR ''r'']
      else if byte c = 9 then [backslash, CHR ''t'']
      else if byte c < 32 \<or> c = CHR ''<'' \<or> c = CHR ''>'' \<or> c = CHR ''&''
        then backslash # ''u00'' @ [hex_nibble (byte c div 16), hex_nibble (byte c mod 16)]
      else [c])"

text \<open>
  The line and paragraph separators U+2028 and U+2029 are escaped too; a byte that starts no UTF-8
  sequence becomes the replacement character's escape.
\<close>

definition line_sep :: string where
  "line_sep = [char_of (226::nat), char_of (128::nat), char_of (168::nat)]"

definition para_sep :: string where
  "para_sep = [char_of (226::nat), char_of (128::nat), char_of (169::nat)]"

function escape :: "string \<Rightarrow> string" where
  "escape s =
     (case s of
        [] \<Rightarrow> []
      | c # r \<Rightarrow>
          if byte c < 128 then esc_byte c @ escape r
          else if utf8_len s = 0 then backslash # ''ufffd'' @ escape r
          else let x = take (utf8_len s) s in
            (if x = line_sep then backslash # ''u2028''
             else if x = para_sep then backslash # ''u2029'' else x) @ escape (drop (utf8_len s) s))"
  by pat_completeness auto
termination
  by (relation "measure length") auto

declare escape.simps [simp del]

definition json_string :: "string \<Rightarrow> string" where
  "json_string s = quote # escape s @ [quote]"

fun commas :: "string list \<Rightarrow> string" where
  "commas [] = []"
| "commas [x] = x"
| "commas (x # y # xs) = x @ CHR '','' # commas (y # xs)"

fun print_json :: "json \<Rightarrow> string" where
  "print_json JNull = ''null''"
| "print_json (JBool b) = (if b then ''true'' else ''false'')"
| "print_json (JLit l) = l"
| "print_json (JStr s) = json_string s"
| "print_json (JArr xs) = CHR ''['' # commas (map print_json xs) @ '']''"
| "print_json (JObj ms) =
     CHR ''{'' # commas (map (\<lambda>(k, v). json_string k @ CHR '':'' # print_json v) ms) @ ''}''"

section \<open>Parsing\<close>

definition hex_val :: "char \<Rightarrow> nat option" where
  "hex_val c =
     (if between 48 57 c then Some (byte c - 48)
      else if between 97 102 c then Some (byte c - 87)
      else if between 65 70 c then Some (byte c - 55)
      else None)"

definition hex4 :: "string \<Rightarrow> (nat \<times> string) option" where
  "hex4 s =
     (case s of
        a # b # c # d # r \<Rightarrow>
          do { w \<leftarrow> hex_val a; x \<leftarrow> hex_val b; y \<leftarrow> hex_val c; z \<leftarrow> hex_val d;
               Some (((w * 16 + x) * 16 + y) * 16 + z, r) }
      | _ \<Rightarrow> None)"

definition utf8_enc :: "nat \<Rightarrow> string" where
  "utf8_enc n =
     (if n < 128 then [char_of n]
      else if n < 2048 then [char_of (192 + n div 64), char_of (128 + n mod 64)]
      else if n < 65536 then
        [char_of (224 + n div 4096), char_of (128 + n div 64 mod 64), char_of (128 + n mod 64)]
      else [char_of (240 + n div 262144), char_of (128 + n div 4096 mod 64),
            char_of (128 + n div 64 mod 64), char_of (128 + n mod 64)])"

definition replacement :: string where
  "replacement = utf8_enc 65533"

text \<open>
  After \<open>\u\<close>: the code unit, joined with a low surrogate that follows a high one; a lone surrogate is the
  replacement character.
\<close>

definition p_unicode :: "string \<Rightarrow> (string \<times> string) option" where
  "p_unicode s =
     (case hex4 s of
        None \<Rightarrow> None
      | Some (u, r) \<Rightarrow>
          if u < 55296 \<or> 57343 < u then Some (utf8_enc u, r)
          else (case r of
                  b # c # r' \<Rightarrow>
                    (case hex4 r' of
                       Some (l, r'') \<Rightarrow>
                         if b = backslash \<and> c = CHR ''u'' \<and> u < 56320 \<and> 56320 \<le> l \<and> l \<le> 57343
                         then Some (utf8_enc (65536 + (u - 55296) * 1024 + (l - 56320)), r'')
                         else Some (replacement, r)
                     | None \<Rightarrow> Some (replacement, r))
                | _ \<Rightarrow> Some (replacement, r)))"

definition p_escape :: "string \<Rightarrow> (string \<times> string) option" where
  "p_escape s =
     (case s of
        [] \<Rightarrow> None
      | e # r \<Rightarrow>
          if e = quote \<or> e = backslash \<or> e = CHR ''/'' then Some ([e], r)
          else if e = CHR ''b'' then Some ([CHR 0x08], r)
          else if e = CHR ''f'' then Some ([CHR 0x0C], r)
          else if e = CHR ''n'' then Some ([CHR 0x0A], r)
          else if e = CHR ''r'' then Some ([CHR 0x0D], r)
          else if e = CHR ''t'' then Some ([CHR 0x09], r)
          else if e = CHR ''u'' then p_unicode r
          else None)"

lemma hex4_length: "hex4 s = Some (u, r) \<Longrightarrow> length r < length s"
  by (auto simp: hex4_def split: list.splits Option.bind_splits)

lemma p_unicode_length: "p_unicode s = Some (x, r) \<Longrightarrow> length r < length s"
  by (auto simp: p_unicode_def split: option.splits list.splits if_splits dest!: hex4_length)

lemma p_escape_length: "p_escape s = Some (x, r) \<Longrightarrow> length r < length s"
  by (auto simp: p_escape_def split: list.splits if_splits dest: p_unicode_length)

text \<open>The rest of a string after its opening quote.\<close>

function p_string :: "string \<Rightarrow> (string \<times> string) option" where
  "p_string s =
     (case s of
        [] \<Rightarrow> None
      | c # r \<Rightarrow>
          if c = quote then Some ([], r)
          else if c = backslash then
            (case p_escape r of
               None \<Rightarrow> None
             | Some (x, r') \<Rightarrow> map_option (\<lambda>(t, q). (x @ t, q)) (p_string r'))
          else if byte c < 32 then None
          else if utf8_len s = 0 then map_option (\<lambda>(t, q). (replacement @ t, q)) (p_string r)
          else map_option (\<lambda>(t, q). (take (utf8_len s) s @ t, q)) (p_string (drop (utf8_len s) s)))"
  by pat_completeness auto
termination
  by (relation "measure length") (auto dest: p_escape_length)

declare p_string.simps [simp del]

text \<open>Numbers: the longest prefix that is one.\<close>

definition p_digits :: "string \<Rightarrow> (string \<times> string) option" where
  "p_digits s = (let d = takeWhile is_digit s in if d = [] then None else Some (d, dropWhile is_digit s))"

definition p_int :: "string \<Rightarrow> (string \<times> string) option" where
  "p_int s =
     (case s of
        [] \<Rightarrow> None
      | c # r \<Rightarrow> if c = CHR ''0'' then Some ([c], r) else p_digits s)"

definition p_frac :: "string \<Rightarrow> (string \<times> string) option" where
  "p_frac s =
     (case s of
        [] \<Rightarrow> Some ([], [])
      | c # r \<Rightarrow> if c = CHR ''.'' then map_option (\<lambda>(d, q). (c # d, q)) (p_digits r) else Some ([], s))"

definition p_exp :: "string \<Rightarrow> (string \<times> string) option" where
  "p_exp s =
     (case s of
        [] \<Rightarrow> Some ([], [])
      | c # r \<Rightarrow>
          if c = CHR ''e'' \<or> c = CHR ''E'' then
            (case r of
               [] \<Rightarrow> None
             | g # r' \<Rightarrow>
                 if g = CHR ''+'' \<or> g = CHR ''-'' then map_option (\<lambda>(d, q). (c # g # d, q)) (p_digits r')
                 else map_option (\<lambda>(d, q). (c # d, q)) (p_digits r))
          else Some ([], s))"

definition p_number :: "string \<Rightarrow> (string \<times> string) option" where
  "p_number s =
     (let (sgn, s0) = (case s of c # r \<Rightarrow> if c = CHR ''-'' then ([c], r) else ([], s) | [] \<Rightarrow> ([], s)) in
      do { (i, s1) \<leftarrow> p_int s0; (f, s2) \<leftarrow> p_frac s1; (e, s3) \<leftarrow> p_exp s2; Some (sgn @ i @ f @ e, s3) })"

definition is_ws :: "char \<Rightarrow> bool" where
  "is_ws c \<longleftrightarrow> byte c = 32 \<or> byte c = 9 \<or> byte c = 10 \<or> byte c = 13"

abbreviation skip_ws :: "string \<Rightarrow> string" where
  "skip_ws \<equiv> dropWhile is_ws"

text \<open>
  Values, the elements of an array from an element on, and the members of an object from a key on, with
  the first argument bounding the depth of the recursion.
\<close>

fun p_value :: "nat \<Rightarrow> string \<Rightarrow> (json \<times> string) option"
  and p_elems :: "nat \<Rightarrow> string \<Rightarrow> (json list \<times> string) option"
  and p_members :: "nat \<Rightarrow> string \<Rightarrow> ((string \<times> json) list \<times> string) option" where
  "p_value 0 s = None"
| "p_value (Suc n) s =
     (case skip_ws s of
        [] \<Rightarrow> None
      | c # r \<Rightarrow>
          if c = quote then map_option (\<lambda>(x, q). (JStr x, q)) (p_string r)
          else if c = CHR ''['' then
            (case skip_ws r of
               [] \<Rightarrow> None
             | d # r' \<Rightarrow> if d = CHR '']'' then Some (JArr [], r')
                 else map_option (\<lambda>(xs, q). (JArr xs, q)) (p_elems n (d # r')))
          else if c = CHR ''{'' then
            (case skip_ws r of
               [] \<Rightarrow> None
             | d # r' \<Rightarrow> if d = CHR ''}'' then Some (JObj [], r')
                 else map_option (\<lambda>(xs, q). (JObj xs, q)) (p_members n (d # r')))
          else if take 4 (c # r) = ''null'' then Some (JNull, drop 4 (c # r))
          else if take 4 (c # r) = ''true'' then Some (JBool True, drop 4 (c # r))
          else if take 5 (c # r) = ''false'' then Some (JBool False, drop 5 (c # r))
          else map_option (\<lambda>(l, q). (JLit l, q)) (p_number (c # r)))"
| "p_elems 0 s = None"
| "p_elems (Suc n) s =
     (case p_value n s of
        None \<Rightarrow> None
      | Some (x, r) \<Rightarrow>
          (case skip_ws r of
             [] \<Rightarrow> None
           | d # r' \<Rightarrow>
               if d = CHR '','' then map_option (\<lambda>(xs, q). (x # xs, q)) (p_elems n r')
               else if d = CHR '']'' then Some ([x], r') else None))"
| "p_members 0 s = None"
| "p_members (Suc n) s =
     (case skip_ws s of
        [] \<Rightarrow> None
      | c # r \<Rightarrow>
          if c \<noteq> quote then None
          else (case p_string r of
             None \<Rightarrow> None
           | Some (k, r1) \<Rightarrow>
               (case skip_ws r1 of
                  [] \<Rightarrow> None
                | d # r2 \<Rightarrow>
                    if d \<noteq> CHR '':'' then None
                    else (case p_value n r2 of
                       None \<Rightarrow> None
                     | Some (v, r3) \<Rightarrow>
                         (case skip_ws r3 of
                            [] \<Rightarrow> None
                          | e # r4 \<Rightarrow>
                              if e = CHR '','' then map_option (\<lambda>(ms, q). ((k, v) # ms, q)) (p_members n r4)
                              else if e = CHR ''}'' then Some ([(k, v)], r4) else None)))))"

definition parse_json :: "string \<Rightarrow> json option" where
  "parse_json s =
     (case p_value (2 * length s + 2) s of
        Some (v, r) \<Rightarrow> if skip_ws r = [] then Some v else None
      | None \<Rightarrow> None)"

section \<open>Strings read back\<close>

lemma utf8_len_le: "utf8_len s \<le> length s"
  by (cases s) (auto simp: Let_def split: list.splits)

lemma utf8_len_prefix:
  assumes "utf8_len s = n" "n \<noteq> 0"
  shows "utf8_len (take n s @ t) = n"
proof -
  obtain a r where s: "s = a # r" using assms by (cases s) auto
  show ?thesis
    using assms unfolding s
    by (auto simp: Let_def split: list.splits if_splits)
qed

lemma utf8_len_first: "byte c < 128 \<Longrightarrow> utf8_len (c # r) = 1"
  by simp

lemma utf8_len_nonascii: "utf8_len (c # r) = n \<Longrightarrow> \<not> byte c < 128 \<Longrightarrow> n \<noteq> 0 \<Longrightarrow> 2 \<le> n"
  by (auto simp: Let_def split: list.splits if_splits)

lemma hex_val_nibble: "d < 16 \<Longrightarrow> hex_val (hex_nibble d) = Some d"
  by (auto simp: hex_val_def hex_nibble_def between_def)

lemma p_string_plain:
  "byte c < 128 \<Longrightarrow> 32 \<le> byte c \<Longrightarrow> c \<noteq> quote \<Longrightarrow> c \<noteq> backslash \<Longrightarrow>
     p_string (c # r) = map_option (\<lambda>(t, q). (c # t, q)) (p_string r)"
  by (subst p_string.simps) simp

lemma p_string_esc: "p_string (backslash # r) =
    (case p_escape r of None \<Rightarrow> None | Some (x, r') \<Rightarrow> map_option (\<lambda>(t, q). (x @ t, q)) (p_string r'))"
  by (subst p_string.simps) (simp add: case_prod_beta split: option.splits)

lemma p_escape_u00:
  assumes "n < 256"
  shows "p_escape (''u00'' @ hex_nibble (n div 16) # hex_nibble (n mod 16) # r) = Some (utf8_enc n, r)"
proof -
  have "hex_val CHR ''0'' = Some 0" by (simp add: hex_val_def between_def)
  moreover have "n div 16 < 16" using assms by (simp add: div_less_iff_less_mult)
  ultimately have "hex4 (''00'' @ hex_nibble (n div 16) # hex_nibble (n mod 16) # r) = Some (n, r)"
    by (simp add: hex4_def hex_val_nibble)
  with assms show ?thesis by (simp add: p_escape_def p_unicode_def)
qed

lemma p_string_esc_byte:
  assumes "byte c < 128"
  shows "p_string (esc_byte c @ r) = map_option (\<lambda>(t, q). (c # t, q)) (p_string r)"
proof -
  have c: "c = char_of (byte c)" by simp
  consider "c = quote \<or> c = backslash" | "byte c \<in> {8, 12, 10, 13, 9}"
    | "byte c \<notin> {8, 12, 10, 13, 9}" "byte c < 32 \<or> c = CHR ''<'' \<or> c = CHR ''>'' \<or> c = CHR ''&''"
    | "c \<noteq> quote" "c \<noteq> backslash" "byte c \<notin> {8, 12, 10, 13, 9}"
      "\<not> (byte c < 32 \<or> c = CHR ''<'' \<or> c = CHR ''>'' \<or> c = CHR ''&'')"
    by blast
  then show ?thesis
  proof cases
    case 1
    then show ?thesis by (auto simp: esc_byte_def p_string_esc p_escape_def)
  next
    case 2
    then have "c \<in> char_of ` {8::nat, 12, 10, 13, 9}" using c by (metis imageI)
    moreover have "char_of ` {8::nat, 12, 10, 13, 9} = {CHR 0x08, CHR 0x0C, CHR 0x0A, CHR 0x0D, CHR 0x09}"
      by code_simp
    ultimately consider "c = CHR 0x08" | "c = CHR 0x0C" | "c = CHR 0x0A" | "c = CHR 0x0D" | "c = CHR 0x09"
      by blast
    then show ?thesis by cases (simp_all add: esc_byte_def p_string_esc p_escape_def)
  next
    case 3
    then have "c \<noteq> quote" "c \<noteq> backslash" by auto
    with 3 have e: "esc_byte c = backslash # ''u00'' @ [hex_nibble (byte c div 16), hex_nibble (byte c mod 16)]"
      by (auto simp: esc_byte_def)
    have "utf8_enc (byte c) = [c]" using assms by (simp add: utf8_enc_def)
    with e p_escape_u00 [of "byte c" r] assms show ?thesis by (simp add: p_string_esc)
  next
    case 4
    then have "esc_byte c = [c]" by (simp add: esc_byte_def)
    with 4 show ?thesis using assms by (simp add: p_string_plain)
  qed
qed

lemma p_string_copy:
  assumes "x = c # y" "c \<noteq> quote" "c \<noteq> backslash" "\<not> byte c < 32"
    "utf8_len (x @ r) = length x"
  shows "p_string (x @ r) = map_option (\<lambda>(t, q). (x @ t, q)) (p_string r)"
proof -
  from assms have "p_string (x @ r) = map_option (\<lambda>(t, q). (take (length x) (x @ r) @ t, q))
      (p_string (drop (length x) (x @ r)))"
    by (subst p_string.simps) (simp del: utf8_len.simps)
  then show ?thesis by simp
qed

lemma p_string_escape:
  "utf8_valid s \<Longrightarrow> p_string (escape s @ quote # r) = Some (s, r)"
proof (induction "length s" arbitrary: s rule: less_induct)
  case less
  show ?case
  proof (cases s)
    case Nil
    then show ?thesis by (simp add: escape.simps p_string.simps)
  next
    case (Cons c t)
    from less.prems have len: "utf8_len s \<noteq> 0" "utf8_valid (drop (utf8_len s) s)"
      using Cons utf8_valid.simps [of s] by (auto split: if_splits)
    let ?n = "utf8_len s"
    have shorter: "length (drop ?n s) < length s" using len(1) Cons by simp
    note ih = less.hyps [OF shorter len(2)]
    show ?thesis
    proof (cases "byte c < 128")
      case True
      then have n: "?n = 1" using Cons by simp
      then have "escape s = esc_byte c @ escape t"
        using True Cons by (subst escape.simps) simp
      with p_string_esc_byte [OF True] ih n Cons show ?thesis by simp
    next
      case False
      let ?x = "take ?n s"
      have esc: "escape s = (if ?x = line_sep then backslash # ''u2028''
             else if ?x = para_sep then backslash # ''u2029'' else ?x) @ escape (drop ?n s)"
        using False len(1) Cons by (subst escape.simps) (simp add: Let_def)
      have u: "p_escape (''u2028'' @ q) = Some (line_sep, q)" "p_escape (''u2029'' @ q) = Some (para_sep, q)" for q
        by (simp_all add: p_escape_def p_unicode_def hex4_def hex_val_def between_def utf8_enc_def
            line_sep_def para_sep_def)
      show ?thesis
      proof (cases "?x = line_sep \<or> ?x = para_sep")
        case True
        then have "line_sep @ drop ?n s = s \<and> ?x = line_sep \<or> para_sep @ drop ?n s = s \<and> ?x \<noteq> line_sep \<and> ?x = para_sep"
          by (metis append_take_drop_id)
        with esc u ih show ?thesis by (elim disjE conjE) (simp_all add: p_string_esc)
      next
        case plain: False
        have hd: "take ?n s = c # take (?n - 1) t" using Cons len(1) by (cases ?n) auto
        have "utf8_len (?x @ escape (drop ?n s) @ quote # r) = ?n"
          by (rule utf8_len_prefix) (use len in auto)
        moreover have "length ?x = ?n" using utf8_len_le [of s] by simp
        moreover have "c \<noteq> quote" "c \<noteq> backslash" "\<not> byte c < 32" using False by auto
        ultimately have "p_string (?x @ escape (drop ?n s) @ quote # r) =
            map_option (\<lambda>(t, q). (?x @ t, q)) (p_string (escape (drop ?n s) @ quote # r))"
          using len(1) hd by (intro p_string_copy) simp_all
        with ih esc plain show ?thesis by simp
      qed
    qed
  qed
qed

section \<open>Numbers read back\<close>

definition delim :: "string \<Rightarrow> bool" where
  "delim r \<longleftrightarrow> (case r of [] \<Rightarrow> True | c # _ \<Rightarrow> c = CHR '','' \<or> c = CHR '']'' \<or> c = CHR ''}'')"

lemma delim_simps [simp]:
  "delim []" "delim (CHR '','' # r)" "delim (CHR '']'' # r)" "delim (CHR ''}'' # r)"
  by (simp_all add: delim_def)

lemma delim_cases:
  assumes "delim r"
  obtains "r = []" | c q where "r = c # q" "c = CHR '','' \<or> c = CHR '']'' \<or> c = CHR ''}''"
  using assms by (auto simp: delim_def split: list.splits)

lemma p_digits_delim:
  assumes "p_digits s = Some (x, q)" "delim r"
  shows "p_digits (s @ r) = Some (x, q @ r)"
proof -
  have r: "takeWhile is_digit r = []" "dropWhile is_digit r = r"
    using assms(2) by (auto elim!: delim_cases simp: is_digit_def between_def)
  have x: "x = takeWhile is_digit s" "x \<noteq> []" "q = dropWhile is_digit s"
    using assms(1) by (auto simp: p_digits_def Let_def split: if_splits)
  show ?thesis
  proof (cases "\<forall>c\<in>set s. is_digit c")
    case True
    then have "takeWhile is_digit (s @ r) = s @ takeWhile is_digit r"
      "dropWhile is_digit (s @ r) = dropWhile is_digit r"
      by (auto simp: takeWhile_append2 dropWhile_append2)
    with True r x show ?thesis by (simp add: p_digits_def takeWhile_eq_all_conv [THEN iffD2])
  next
    case False
    then obtain c where "c \<in> set s" "\<not> is_digit c" by blast
    with x show ?thesis by (simp add: p_digits_def takeWhile_append1 dropWhile_append1)
  qed
qed

lemma p_digits_delim_Cons:
  "p_digits (c # s) = Some (x, q) \<Longrightarrow> delim r \<Longrightarrow> p_digits (c # s @ r) = Some (x, q @ r)"
  using p_digits_delim [of "c # s"] by simp

lemma p_int_delim: "p_int s = Some (x, q) \<Longrightarrow> delim r \<Longrightarrow> p_int (s @ r) = Some (x, q @ r)"
  using p_digits_delim [of s x q r] by (auto simp: p_int_def split: list.splits if_splits)

lemma p_frac_delim:
  assumes "p_frac s = Some (x, q)" "delim r"
  shows "p_frac (s @ r) = Some (x, q @ r)"
proof (cases s)
  case Nil
  with assms show ?thesis by (auto elim!: delim_cases simp: p_frac_def)
next
  case (Cons c t)
  with assms show ?thesis
    by (auto simp: p_frac_def p_digits_delim split: if_splits)
qed

lemma p_exp_delim:
  assumes "p_exp s = Some (x, q)" "delim r"
  shows "p_exp (s @ r) = Some (x, q @ r)"
proof (cases s)
  case Nil
  with assms show ?thesis by (auto elim!: delim_cases simp: p_exp_def)
next
  case (Cons c t)
  with assms show ?thesis
    by (auto simp: p_exp_def p_digits_delim p_digits_delim_Cons split: if_splits list.splits)
qed

lemma p_number_delim:
  assumes "p_number s = Some (x, q)" "delim r"
  shows "p_number (s @ r) = Some (x, q @ r)"
proof (cases s)
  case Nil
  with assms show ?thesis by (simp add: p_number_def p_int_def)
next
  case (Cons c t)
  define sgn s0 where "sgn = (if c = CHR ''-'' then [c] else [])" and "s0 = (if c = CHR ''-'' then t else s)"
  have num: "p_number (s @ u) = do { (i, s1) \<leftarrow> p_int (s0 @ u); (f, s2) \<leftarrow> p_frac s1; (e, s3) \<leftarrow> p_exp s2;
      Some (sgn @ i @ f @ e, s3) }" for u
    by (simp add: p_number_def sgn_def s0_def Cons)
  from assms(1) num [of "[]"] obtain i s1 f s2 e where
    "p_int s0 = Some (i, s1)" "p_frac s1 = Some (f, s2)" "p_exp s2 = Some (e, q)" "x = sgn @ i @ f @ e"
    by (auto split: Option.bind_splits)
  with num [of r] show ?thesis
    by (simp add: p_int_delim [OF _ assms(2)] p_frac_delim [OF _ assms(2)] p_exp_delim [OF _ assms(2)])
qed

text \<open>The literals \<open>json.Marshal\<close> may write verbatim: a number and nothing after it.\<close>

definition is_number :: "string \<Rightarrow> bool" where
  "is_number l \<longleftrightarrow> p_number l = Some (l, [])"

lemma p_number_hd: "p_number (c # t) \<noteq> None \<Longrightarrow> c = CHR ''-'' \<or> is_digit c"
  by (auto simp: p_number_def p_int_def p_digits_def Let_def is_digit_def between_def
      split: Option.bind_splits if_splits)

lemma is_number_hd:
  assumes "is_number l"
  obtains c t where "l = c # t" "c = CHR ''-'' \<or> is_digit c"
proof (cases l)
  case Nil
  with assms show ?thesis by (simp add: is_number_def p_number_def p_int_def)
next
  case (Cons c t)
  with assms p_number_hd [of c t] that show ?thesis by (simp add: is_number_def)
qed

section \<open>Values read back\<close>

fun wf_json :: "json \<Rightarrow> bool" where
  "wf_json (JLit l) = is_number l"
| "wf_json (JStr s) = utf8_valid s"
| "wf_json (JArr xs) = list_all wf_json xs"
| "wf_json (JObj ms) = list_all (\<lambda>(k, v). utf8_valid k \<and> wf_json v) ms"
| "wf_json _ = True"

fun depth_need :: "json \<Rightarrow> nat" where
  "depth_need (JArr xs) = Suc (sum_list (map (\<lambda>x. Suc (depth_need x)) xs))"
| "depth_need (JObj ms) = Suc (sum_list (map (\<lambda>(k, v). Suc (depth_need v)) ms))"
| "depth_need _ = 1"

lemma print_json_hd:
  assumes "wf_json j"
  obtains c t where "print_json j = c # t" "\<not> is_ws c" "c \<noteq> CHR '']''"
proof (cases j)
  case (JLit l)
  with assms obtain c t where "l = c # t" "c = CHR ''-'' \<or> is_digit c" by (auto elim: is_number_hd)
  moreover from this have "\<not> is_ws c" "c \<noteq> CHR '']''" by (auto simp: is_ws_def is_digit_def between_def)
  ultimately show ?thesis using that JLit by simp
next
  case (JBool b)
  with that show ?thesis by (cases b) (auto simp: is_ws_def)
qed (use that in \<open>auto simp: is_ws_def json_string_def\<close>)

lemma p_elems_print:
  assumes "\<And>x m q. x \<in> set xs \<Longrightarrow> depth_need x \<le> m \<Longrightarrow> delim q \<Longrightarrow> p_value m (print_json x @ q) = Some (x, q)"
    and "xs \<noteq> []" and "sum_list (map (\<lambda>x. Suc (depth_need x)) xs) \<le> n"
  shows "p_elems n (commas (map print_json xs) @ CHR '']'' # r) = Some (xs, r)"
  using assms
proof (induction xs arbitrary: n)
  case (Cons x xs)
  from Cons.prems(3) obtain m where n: "n = Suc m" "depth_need x \<le> m" by (cases n) auto
  show ?case
  proof (cases xs)
    case Nil
    with n Cons.prems(1) [of x m] show ?thesis by (simp add: is_ws_def)
  next
    case (Cons y ys)
    have "p_elems m (commas (map print_json xs) @ CHR '']'' # r) = Some (xs, r)"
      by (rule Cons.IH) (use Cons.prems n Cons in auto)
    with n Cons.prems(1) [of x m] Cons show ?thesis by (simp add: is_ws_def)
  qed
qed simp

abbreviation print_member :: "string \<times> json \<Rightarrow> string" where
  "print_member \<equiv> (\<lambda>(k, v). json_string k @ CHR '':'' # print_json v)"

lemma p_members_print:
  assumes "\<And>k v m q. (k, v) \<in> set ms \<Longrightarrow> depth_need v \<le> m \<Longrightarrow> delim q \<Longrightarrow> p_value m (print_json v @ q) = Some (v, q)"
    and "list_all (\<lambda>(k, v). utf8_valid k) ms"
    and "ms \<noteq> []" and "sum_list (map (\<lambda>(k, v). Suc (depth_need v)) ms) \<le> n"
  shows "p_members n (commas (map print_member ms) @ CHR ''}'' # r) = Some (ms, r)"
  using assms
proof (induction ms arbitrary: n)
  case (Cons kv ms)
  obtain k v where kv: "kv = (k, v)" by force
  from Cons.prems(4) kv obtain m where n: "n = Suc m" "depth_need v \<le> m" by (cases n) auto
  have k: "p_string (escape k @ quote # q) = Some (k, q)" for q
    using Cons.prems(2) kv by (simp add: p_string_escape)
  show ?case
  proof (cases ms)
    case Nil
    with n kv k Cons.prems(1) [of k v m] show ?thesis by (simp add: is_ws_def json_string_def)
  next
    case (Cons y ys)
    have "p_members m (commas (map print_member ms) @ CHR ''}'' # r) = Some (ms, r)"
      by (rule Cons.IH) (use Cons.prems n kv Cons in auto)
    with n kv k Cons.prems(1) [of k v m] Cons show ?thesis by (simp add: is_ws_def json_string_def)
  qed
qed simp

lemma p_value_print:
  "wf_json j \<Longrightarrow> depth_need j \<le> n \<Longrightarrow> delim r \<Longrightarrow> p_value n (print_json j @ r) = Some (j, r)"
proof (induction j arbitrary: n r)
  case (JLit l)
  then obtain c t where l: "l = c # t" "c = CHR ''-'' \<or> is_digit c" by (auto elim: is_number_hd)
  then have c: "\<not> is_ws c" "c \<noteq> quote" "c \<noteq> CHR ''[''" "c \<noteq> CHR ''{''" "c \<noteq> CHR ''n''" "c \<noteq> CHR ''t''" "c \<noteq> CHR ''f''"
    by (auto simp: is_ws_def is_digit_def between_def)
  have "p_number (l @ r) = Some (l, r)"
    using JLit p_number_delim [of l l "[]" r] by (simp add: is_number_def)
  with c l JLit show ?case by (cases n) auto
next
  case (JStr s)
  then show ?case by (cases n) (auto simp: is_ws_def json_string_def p_string_escape)
next
  case (JArr xs)
  then obtain m where n: "n = Suc m" by (cases n) auto
  show ?case
  proof (cases xs)
    case Nil
    with n show ?thesis by (simp add: is_ws_def)
  next
    case (Cons x ys)
    have e: "p_elems m (commas (map print_json xs) @ CHR '']'' # r) = Some (xs, r)"
      by (rule p_elems_print) (use JArr n Cons in \<open>auto simp: list_all_iff\<close>)
    obtain c t where "print_json x = c # t" "\<not> is_ws c" "c \<noteq> CHR '']''"
      by (rule print_json_hd [of x]) (use JArr Cons in auto)
    then obtain t' where "commas (map print_json xs) @ CHR '']'' # r = c # t'"
      using Cons by (cases ys) auto
    with e n \<open>\<not> is_ws c\<close> \<open>c \<noteq> CHR '']''\<close> show ?thesis by (simp add: is_ws_def)
  qed
next
  case (JObj ms)
  then obtain m where n: "n = Suc m" by (cases n) auto
  show ?case
  proof (cases ms)
    case Nil
    with n show ?thesis by (simp add: is_ws_def)
  next
    case (Cons x ys)
    have e: "p_members m (commas (map print_member ms) @ CHR ''}'' # r) = Some (ms, r)"
      by (rule p_members_print) (use JObj n Cons in \<open>force simp: list_all_iff\<close>)+
    obtain k v where "x = (k, v)" by force
    then obtain t' where "commas (map print_member ms) @ CHR ''}'' # r = quote # t'"
      using Cons by (cases ys) (simp_all add: json_string_def)
    with e n show ?thesis by (simp add: is_ws_def)
  qed
qed (auto simp: is_ws_def neq0_conv gr0_conv_Suc Suc_le_eq)

lemma sum_need_le:
  assumes "\<And>x. x \<in> set xs \<Longrightarrow> f x \<le> 2 * length (g x)"
  shows "sum_list (map (\<lambda>x. Suc (f x)) xs) \<le> 2 * length (commas (map g xs)) + 1"
  using assms
proof (induction xs rule: induct_list012)
  case (3 x y zs)
  then have "sum_list (map (\<lambda>x. Suc (f x)) (y # zs)) \<le> 2 * length (commas (map g (y # zs))) + 1" by simp
  with 3(3) [of x] show ?case by simp
qed force+

lemma depth_need_le: "wf_json j \<Longrightarrow> depth_need j \<le> 2 * length (print_json j)"
proof (induction j)
  case (JLit l)
  then show ?case by (auto elim: is_number_hd)
next
  case (JArr xs)
  then have "sum_list (map (\<lambda>x. Suc (depth_need x)) xs) \<le> 2 * length (commas (map print_json xs)) + 1"
    by (intro sum_need_le) (auto simp: list_all_iff)
  then show ?case by simp
next
  case (JObj ms)
  then have "sum_list (map (\<lambda>x. Suc ((\<lambda>(k, v). depth_need v) x)) ms) \<le> 2 * length (commas (map print_member ms)) + 1"
    by (intro sum_need_le) (fastforce simp: list_all_iff)
  then show ?case by (simp add: case_prod_unfold)
qed (auto simp: json_string_def)

text \<open>The parser reads back every value written.\<close>

lemma parse_print: "wf_json j \<Longrightarrow> parse_json (print_json j) = Some j"
  using p_value_print [of j "2 * length (print_json j) + 2" "[]"] depth_need_le [of j]
  by (simp add: parse_json_def)

end
