(* ===== verification/Requests.thy ===== *)
theory Requests
  imports Json Results
begin

text \<open>
  The request structs of the Go package and their JSON form: \<open>LogQuery\<close>, \<open>MetricQuery\<close>, \<open>MetricPointsQuery\<close>
  (\<open>query.go\<close>), \<open>TraceQuery\<close> (\<open>traces_search.go\<close>), \<open>lgtmReq\<close> and \<open>getTraceReq\<close> (\<open>lgtm.go\<close>), \<open>logVolumeRequest\<close>
  (\<open>discovery.go\<close>), \<open>logPageReq\<close> (\<open>logpage.go\<close>) and \<open>DbOptions\<close> (\<open>admin.go\<close>), written by \<open>json.Marshal\<close> and
  read back by the wire structs of \<open>rust/src/lib.rs\<close> (serde's derived reader: an absent field takes its
  default, a repeated one is an error, an unknown one is skipped). The text of a float, the parser of
  \<open>serde_json\<close> and the wording of \<open>encoding/json\<close>'s errors are parameters.
\<close>

section \<open>What \<open>json.Marshal\<close> does with a struct\<close>

text \<open>
  A Go map is given by its pairs, with distinct keys in ascending order; \<open>map[string][]string\<close> may hold a
  \<open>nil\<close> slice, which is written \<open>null\<close>.
\<close>

type_synonym 'v gomap = "(string \<times> 'v) list"
type_synonym members = "(string \<times> json) list"

datatype goval =
    GStr string
  | GInt int
  | GBool bool
  | GStrs "string list"
  | GMap "string gomap"
  | GSets "string list option gomap"
  | GFloats "f64 gomap"
  | GRaw bytes

text \<open>A struct: for each field its JSON name, whether it is tagged \<open>omitempty\<close>, and its value.\<close>

type_synonym gostruct = "(string \<times> bool \<times> goval) list"

record gojson =
  gj_float :: "f64 \<Rightarrow> string"
  gj_syntax :: "bytes \<Rightarrow> string"
  gj_mismatch :: string

definition int_text :: "int \<Rightarrow> string" where
  "int_text n = (if n < 0 then CHR ''-'' # itoa (nat (- n)) else itoa (nat n))"

definition f64_finite :: "f64 \<Rightarrow> bool" where
  "f64_finite x \<longleftrightarrow> unat x div 2 ^ 52 mod 2048 \<noteq> 2047"

definition f64_special :: "f64 \<Rightarrow> string" where
  "f64_special x =
     (if unat x mod 2 ^ 52 \<noteq> 0 then ''NaN'' else if unat x < 2 ^ 63 then ''+Inf'' else ''-Inf'')"

text \<open>\<open>encoding/json\<close>'s compaction of a raw message; the flags say: inside a string, after a backslash.\<close>

fun compact :: "bool \<Rightarrow> bool \<Rightarrow> bytes \<Rightarrow> bytes" where
  "compact s e [] = []"
| "compact s e (c # r) =
     (if c = CHR ''<'' \<or> c = CHR ''>'' \<or> c = CHR ''&'' then esc_byte c @ compact s False r
      else if take 3 (c # r) = line_sep then backslash # ''u2028'' @ compact s False (drop 2 r)
      else if take 3 (c # r) = para_sep then backslash # ''u2029'' @ compact s False (drop 2 r)
      else if \<not> s \<and> is_ws c then compact s False r
      else c # compact (if s then e \<or> c \<noteq> quote else c = quote) (s \<and> \<not> e \<and> c = backslash) r)"

fun float_members :: "gojson \<Rightarrow> f64 gomap \<Rightarrow> members result" where
  "float_members g [] = Inr []"
| "float_members g ((k, x) # m) =
     (if f64_finite x then map_sum id (Cons (k, JLit (gj_float g x))) (float_members g m)
      else Inl (ErrorString (''json: unsupported value: '' @ f64_special x)))"

definition strs_json :: "string list \<Rightarrow> json" where
  "strs_json xs = JArr (map JStr xs)"

fun goval_json :: "gojson \<Rightarrow> goval \<Rightarrow> json result" where
  "goval_json g (GStr s) = Inr (JStr s)"
| "goval_json g (GInt n) = Inr (JLit (int_text n))"
| "goval_json g (GBool b) = Inr (JBool b)"
| "goval_json g (GStrs xs) = Inr (strs_json xs)"
| "goval_json g (GMap m) = Inr (JObj (map (\<lambda>(k, v). (k, JStr v)) (sort_key fst m)))"
| "goval_json g (GSets m) =
     Inr (JObj (map (\<lambda>(k, v). (k, case v of None \<Rightarrow> JNull | Some xs \<Rightarrow> strs_json xs)) (sort_key fst m)))"
| "goval_json g (GFloats m) = map_sum id JObj (float_members g (sort_key fst m))"
| "goval_json g (GRaw c) =
     (if c = [] then Inr JNull
      else case parse_json c of
        Some _ \<Rightarrow> Inr (JLit (compact False False c))
      | None \<Rightarrow> Inl (ErrorWrap ''json: error calling MarshalJSON for type json.RawMessage''
                    (ErrorString (gj_syntax g c))))"

fun go_empty :: "goval \<Rightarrow> bool" where
  "go_empty (GStr s) \<longleftrightarrow> s = []"
| "go_empty (GInt n) \<longleftrightarrow> n = 0"
| "go_empty (GBool b) \<longleftrightarrow> \<not> b"
| "go_empty (GStrs xs) \<longleftrightarrow> xs = []"
| "go_empty (GMap m) \<longleftrightarrow> m = []"
| "go_empty (GSets m) \<longleftrightarrow> m = []"
| "go_empty (GFloats m) \<longleftrightarrow> m = []"
| "go_empty (GRaw c) \<longleftrightarrow> c = []"

fun marshal_members :: "gojson \<Rightarrow> gostruct \<Rightarrow> members result" where
  "marshal_members g [] = Inr []"
| "marshal_members g ((k, om, v) # fs) =
     (if om \<and> go_empty v then marshal_members g fs
      else case goval_json g v of
        Inl e \<Rightarrow> Inl e
      | Inr j \<Rightarrow> map_sum id (Cons (k, j)) (marshal_members g fs))"

definition marshal :: "gojson \<Rightarrow> gostruct \<Rightarrow> bytes result" where
  "marshal g fs = map_sum id (\<lambda>ms. print_json (JObj ms)) (marshal_members g fs)"

section \<open>Reading a wire struct\<close>

record rustjson =
  rj_parse :: "bytes \<Rightarrow> json option"
  rj_float :: "string \<Rightarrow> f64 option"

definition named :: "string \<Rightarrow> members \<Rightarrow> json list" where
  "named k ms = map snd (filter (\<lambda>m. fst m = k) ms)"

definition read_field :: "(json \<Rightarrow> 'a option) \<Rightarrow> 'a \<Rightarrow> json list \<Rightarrow> 'a option" where
  "read_field rd d js = (case js of [] \<Rightarrow> Some d | [j] \<Rightarrow> rd j | _ \<Rightarrow> None)"

definition field :: "string \<Rightarrow> (json \<Rightarrow> 'a option) \<Rightarrow> 'a \<Rightarrow> members \<Rightarrow> 'a option" where
  "field k rd d ms = read_field rd d (named k ms)"

definition int_of_text :: "string \<Rightarrow> int option" where
  "int_of_text s =
     (case s of
        [] \<Rightarrow> None
      | c # r \<Rightarrow>
          if c = CHR ''-''
          then if r \<noteq> [] \<and> list_all is_digit r \<and> atoi r \<noteq> 0 then Some (- int (atoi r)) else None
          else if list_all is_digit s then Some (int (atoi s)) else None)"

definition r_bounded :: "int \<Rightarrow> int \<Rightarrow> json \<Rightarrow> 'a::len word option" where
  "r_bounded lo hi j =
     (case j of
        JLit l \<Rightarrow>
          (case int_of_text l of
             Some n \<Rightarrow> if lo \<le> n \<and> n \<le> hi then Some (word_of_int n) else None
           | None \<Rightarrow> None)
      | _ \<Rightarrow> None)"

definition r_i64 :: "json \<Rightarrow> i64 option" where
  "r_i64 = r_bounded (- (2 ^ 63)) (2 ^ 63 - 1)"

definition r_u64 :: "json \<Rightarrow> u64 option" where
  "r_u64 = r_bounded 0 (2 ^ 64 - 1)"

definition r_i32 :: "json \<Rightarrow> 32 word option" where
  "r_i32 = r_bounded (- (2 ^ 31)) (2 ^ 31 - 1)"

fun r_bool :: "json \<Rightarrow> bool option" where
  "r_bool (JBool b) = Some b"
| "r_bool _ = None"

fun r_str :: "json \<Rightarrow> string option" where
  "r_str (JStr s) = Some s"
| "r_str _ = None"

fun r_strs :: "json \<Rightarrow> string list option" where
  "r_strs (JArr xs) = mapM r_str xs"
| "r_strs _ = None"

definition r_set :: "json \<Rightarrow> string list option option" where
  "r_set j = map_option Some (r_strs j)"

fun r_float :: "rustjson \<Rightarrow> json \<Rightarrow> f64 option" where
  "r_float u (JLit l) = rj_float u l"
| "r_float u _ = None"

text \<open>A \<open>HashMap\<close> keeps the last value of a key; it too is given by its pairs in key order.\<close>

definition hash_map :: "(string \<times> 'v) list \<Rightarrow> 'v gomap" where
  "hash_map kvs = map (\<lambda>k. (k, the (map_of (rev kvs) k))) (sort (remdups (map fst kvs)))"

fun r_map :: "(json \<Rightarrow> 'v option) \<Rightarrow> json \<Rightarrow> 'v gomap option" where
  "r_map rd (JObj ms) = map_option hash_map (mapM (\<lambda>(k, j). map_option (Pair k) (rd j)) ms)"
| "r_map rd _ = None"

text \<open>An \<open>Option<Value>\<close>: absent and \<open>null\<close> are both \<open>None\<close>.\<close>

definition r_value :: "json \<Rightarrow> json option option" where
  "r_value j = Some (if j = JNull then None else Some j)"

definition serde_object :: "rustjson \<Rightarrow> bytes \<Rightarrow> members option" where
  "serde_object u text = (case rj_parse u text of Some (JObj ms) \<Rightarrow> Some ms | _ \<Rightarrow> None)"

section \<open>Values read back\<close>

definition map_ok :: "('v \<Rightarrow> bool) \<Rightarrow> 'v gomap \<Rightarrow> bool" where
  "map_ok P m \<longleftrightarrow> sorted (map fst m) \<and> distinct (map fst m) \<and> list_all (\<lambda>(k, v). utf8_valid k \<and> P v) m"

text \<open>A float whose text the other side reads as the same float.\<close>

definition float_ok :: "gojson \<Rightarrow> rustjson \<Rightarrow> f64 \<Rightarrow> bool" where
  "float_ok g u x \<longleftrightarrow> f64_finite x \<and> is_number (gj_float g x) \<and> rj_float u (gj_float g x) = Some x"

definition set_ok :: "string list option \<Rightarrow> bool" where
  "set_ok v \<longleftrightarrow> (case v of None \<Rightarrow> False | Some xs \<Rightarrow> list_all utf8_valid xs)"

fun goval_ok :: "gojson \<Rightarrow> rustjson \<Rightarrow> goval \<Rightarrow> bool" where
  "goval_ok g u (GStr s) \<longleftrightarrow> utf8_valid s"
| "goval_ok g u (GStrs xs) \<longleftrightarrow> list_all utf8_valid xs"
| "goval_ok g u (GMap m) \<longleftrightarrow> map_ok utf8_valid m"
| "goval_ok g u (GSets m) \<longleftrightarrow> map_ok set_ok m"
| "goval_ok g u (GFloats m) \<longleftrightarrow> map_ok (float_ok g u) m"
| "goval_ok g u (GRaw c) \<longleftrightarrow> c = [] \<or> c = itoa (atoi c)"
| "goval_ok g u _ \<longleftrightarrow> True"

definition struct_ok :: "gojson \<Rightarrow> rustjson \<Rightarrow> gostruct \<Rightarrow> bool" where
  "struct_ok g u fs \<longleftrightarrow> list_all (\<lambda>(k, om, v). utf8_valid k \<and> goval_ok g u v) fs"

text \<open>The parser reads what is written; this is what \<open>serde_json\<close> promises of every JSON text.\<close>

definition serde_reads :: "rustjson \<Rightarrow> bool" where
  "serde_reads u \<longleftrightarrow> (\<forall>j. wf_json j \<longrightarrow> rj_parse u (print_json j) = Some j)"

text \<open>The value written for a field that marshals.\<close>

definition val_json :: "gojson \<Rightarrow> goval \<Rightarrow> json" where
  "val_json g v = (case goval_json g v of Inr j \<Rightarrow> j | Inl _ \<Rightarrow> JNull)"

definition written :: "gojson \<Rightarrow> gostruct \<Rightarrow> members" where
  "written g fs = map (\<lambda>(k, om, v). (k, val_json g v)) (filter (\<lambda>(k, om, v). \<not> (om \<and> go_empty v)) fs)"

lemma map_ok_sorted [simp]: "map_ok P m \<Longrightarrow> sort_key fst m = m"
  unfolding map_ok_def
  by (rule properties_for_sort_key) auto

lemma map_ok_hash_map: 
  assumes "map_ok P m"
  shows "hash_map m = m"
proof -
  have d: "distinct (map fst m)" and s: "sorted (map fst m)" using assms by (auto simp: map_ok_def)
  then have "sort (remdups (map fst m)) = map fst m" by (simp add: sorted_sort_id)
  moreover have "map_of (rev m) = map_of m" using d by (subst map_of_inject_set) (simp_all add: rev_map [symmetric])
  moreover have "map (\<lambda>k. (k, the (map_of m k))) (map fst m) = m"
    using d by (auto simp: map_of_eq_Some_iff intro!: map_idI)
  ultimately show ?thesis by (simp add: hash_map_def)
qed

lemma float_members_ok: "list_all (\<lambda>(k, x). utf8_valid k \<and> float_ok g u x) m \<Longrightarrow>
   float_members g m = Inr (map (\<lambda>(k, x). (k, JLit (gj_float g x))) m)"
  by (induction g m rule: float_members.induct) (auto simp: float_ok_def)

lemma itoa_hd:
  assumes "0 < n"
  obtains c r where "itoa n = c # r" "is_digit c" "c \<noteq> CHR ''0''"
proof -
  have "itoa n = [] \<or> hd (itoa n) \<noteq> CHR ''0''" if "0 < n" for n
    using that
  proof (induction n rule: itoa.induct)
    case (1 n)
    show ?case
    proof (cases "n < 10")
      case True
      with 1(2) show ?thesis
        by (subst (1 2) itoa.simps) (auto simp: digit_def dest: arg_cong [of "char_of (48 + n)" _ "of_char :: char \<Rightarrow> nat"])
    next
      case False
      with 1 have "hd (itoa (n div 10)) \<noteq> CHR ''0''" by simp
      with False show ?thesis by (subst (2) itoa.simps) simp
    qed
  qed
  with assms have "hd (itoa n) \<noteq> CHR ''0''" by auto
  with that itoa_digits [of _ n] show ?thesis by (cases "itoa n") auto
qed

lemma itoa_list_all: "list_all is_digit (itoa n)"
  by (simp add: list_all_iff itoa_digits)

lemma p_digits_itoa: "p_digits (itoa n) = Some (itoa n, [])"
proof -
  have "takeWhile is_digit (itoa n) = itoa n" "dropWhile is_digit (itoa n) = []"
    by (simp_all add: takeWhile_eq_all_conv itoa_digits)
  then show ?thesis by (simp only: p_digits_def Let_def itoa_not_Nil if_False)
qed

lemma p_int_itoa: "p_int (itoa n) = Some (itoa n, [])"
proof (cases "n = 0")
  case True
  moreover have "itoa 0 = ''0''" by code_simp
  ultimately show ?thesis by (simp add: p_int_def)
next
  case False
  then obtain c r where "itoa n = c # r" "c \<noteq> CHR ''0''" by (auto elim: itoa_hd)
  then show ?thesis using p_digits_itoa [of n] by (simp add: p_int_def)
qed

lemma itoa_no_minus: "itoa n \<noteq> CHR ''-'' # r"
  using itoa_digits [of "CHR ''-''" n] by (auto simp: is_digit_def between_def)

lemma itoa_is_number: "is_number (itoa n)"
proof (cases "itoa n")
  case (Cons c r)
  with itoa_no_minus have "c \<noteq> CHR ''-''" by metis
  with Cons p_int_itoa [of n] show ?thesis by (simp add: is_number_def p_number_def p_frac_def p_exp_def)
qed simp

lemma int_text_is_number: "is_number (int_text n)"
  by (simp add: int_text_def itoa_is_number)
    (simp add: is_number_def p_number_def p_int_itoa p_frac_def p_exp_def)

lemma int_of_int_text [simp]: "int_of_text (int_text n) = Some n"
proof (cases "n < 0")
  case True
  then show ?thesis by (simp add: int_of_text_def int_text_def itoa_list_all)
next
  case False
  then obtain c r where "itoa (nat n) = c # r" by (cases "itoa (nat n)") auto
  moreover from this have "c \<noteq> CHR ''-''" using itoa_no_minus by metis
  ultimately show ?thesis
    using itoa_list_all [of "nat n"] atoi_itoa [of "nat n"] False by (simp add: int_of_text_def int_text_def)
qed

lemma compact_digits: "list_all is_digit s \<Longrightarrow> compact False False s = s"
proof (induction s)
  case (Cons c s)
  then have "c \<noteq> char_of (226 :: nat)" "\<not> is_ws c" "c \<noteq> CHR ''<''" "c \<noteq> CHR ''>''" "c \<noteq> CHR ''&''" "c \<noteq> quote"
    "c \<noteq> backslash"
    by (auto simp: is_digit_def between_def is_ws_def)
  with Cons show ?case by (simp add: line_sep_def para_sep_def)
qed simp

lemma wf_strs [simp]: "wf_json (strs_json xs) = list_all utf8_valid xs"
  by (simp add: strs_json_def list_all_iff)

lemma raw_cursor: "c = itoa n \<Longrightarrow> parse_json c = Some (JLit c) \<and> compact False False c = c \<and> is_number c"
  using parse_print [of "JLit c"] by (simp add: itoa_is_number compact_digits itoa_list_all)

lemma goval_json_ok:
  assumes "goval_ok g u v"
  shows "goval_json g v = Inr (val_json g v) \<and> wf_json (val_json g v)"
proof (cases v)
  case (GInt n)
  then show ?thesis by (simp add: val_json_def int_text_is_number)
next
  case (GMap m)
  with assms show ?thesis by (auto simp: val_json_def map_ok_def list_all_iff)
next
  case (GSets m)
  with assms show ?thesis
    by (auto simp: val_json_def map_ok_def set_ok_def list_all_iff strs_json_def split: option.splits)
next
  case (GFloats m)
  with assms have "float_members g m = Inr (map (\<lambda>(k, x). (k, JLit (gj_float g x))) m)"
    by (intro float_members_ok [of g u]) (simp add: map_ok_def)
  moreover have "list_all (\<lambda>(k, x). utf8_valid k \<and> is_number (gj_float g x)) m"
    using assms GFloats by (auto simp: map_ok_def float_ok_def elim!: list.pred_mono_strong)
  ultimately show ?thesis
    using assms GFloats by (simp add: val_json_def list.pred_map comp_def case_prod_unfold)
next
  case (GRaw c)
  show ?thesis
  proof (cases "c = []")
    case False
    with assms GRaw raw_cursor [of c "atoi c"] show ?thesis by (simp add: val_json_def)
  qed (use GRaw in \<open>simp add: val_json_def\<close>)
qed (use assms in \<open>auto simp: val_json_def\<close>)

lemma val_json_raw: "goval_ok g u (GRaw c) \<Longrightarrow> c \<noteq> [] \<Longrightarrow> val_json g (GRaw c) = JLit c"
  using raw_cursor [of c "atoi c"] by (simp add: val_json_def)

lemma marshal_members_ok: "struct_ok g u fs \<Longrightarrow> marshal_members g fs = Inr (written g fs)"
proof (induction g fs rule: marshal_members.induct)
  case (2 g k om v fs)
  with goval_json_ok [of g u v] show ?case by (auto simp: struct_ok_def written_def)
qed (simp add: written_def)

lemma written_wf: "struct_ok g u fs \<Longrightarrow> wf_json (JObj (written g fs))"
  by (auto simp: struct_ok_def written_def list_all_iff dest!: bspec goval_json_ok)

lemma marshal_ok: "struct_ok g u fs \<Longrightarrow> marshal g fs = Inr (print_json (JObj (written g fs)))"
  by (simp add: marshal_def marshal_members_ok)

lemma serde_object_marshal:
  "serde_reads u \<Longrightarrow> struct_ok g u fs \<Longrightarrow> serde_object u (print_json (JObj (written g fs))) = Some (written g fs)"
  using written_wf [of g u fs] by (simp add: serde_object_def serde_reads_def del: print_json.simps)

text \<open>What a field contributes to the object.\<close>

definition slot :: "gojson \<Rightarrow> bool \<Rightarrow> goval \<Rightarrow> json list" where
  "slot g om v = (if om \<and> go_empty v then [] else [val_json g v])"

text \<open>A field of a struct whose names are distinct is looked up by its name.\<close>

lemma named_written:
  assumes "distinct (map fst fs)"
  shows "named k (written g fs) =
    (case map_of fs k of None \<Rightarrow> [] | Some (om, v) \<Rightarrow> slot g om v)"
  using assms
proof (induction fs)
  case (Cons f fs)
  obtain k' om v where f: "f = (k', om, v)" by (cases f)
  have "k \<notin> fst ` set fs \<Longrightarrow> named k (written g fs) = []"
    by (force simp: named_def written_def filter_empty_conv)
  with Cons f show ?case by (auto simp: named_def written_def slot_def)
qed (simp add: named_def written_def)

named_theorems read_back "what the readers return for a written field"

lemma read_field_simps [simp]: "read_field rd d [] = Some d" "read_field rd d [j] = rd j"
  by (simp_all add: read_field_def)

lemma back_str [read_back]:
  "read_field r_str [] (slot g om (GStr s)) = Some s"
  by (auto simp: slot_def val_json_def)

lemma back_bool [read_back]:
  "read_field r_bool False (slot g om (GBool b)) = Some b"
  by (auto simp: slot_def val_json_def)

lemma back_i64 [read_back]:
  "read_field r_i64 0 (slot g om (GInt (sint w))) = Some w"
  using sint_greater_eq [of w] sint_less [of w]
  by (auto simp: slot_def val_json_def r_i64_def r_bounded_def signed_eq_0_iff)

lemma back_u64 [read_back]:
  "read_field r_u64 0 (slot g om (GInt (uint w))) = Some w"
  using uint_bounded [of w] by (auto simp: slot_def val_json_def r_u64_def r_bounded_def unsigned_eq_0_iff)

lemma back_i32 [read_back]:
  "read_field r_i32 0 (slot g om (GInt (sint w))) = Some w"
  using sint_greater_eq [of w] sint_less [of w]
  by (auto simp: slot_def val_json_def r_i32_def r_bounded_def signed_eq_0_iff)

lemma r_strs_json [simp]: "r_strs (strs_json xs) = Some xs"
  by (induction xs) (auto simp: strs_json_def mapM_map)

lemma back_strs [read_back]:
  "read_field r_strs [] (slot g om (GStrs xs)) = Some xs"
  by (auto simp: slot_def val_json_def)

lemma r_map_back:
  assumes "map_ok P m" and "\<And>k v. (k, v) \<in> set m \<Longrightarrow> rd (f v) = Some v"
  shows "r_map rd (JObj (map (\<lambda>(k, v). (k, f v)) m)) = Some m"
proof -
  have "mapM (\<lambda>(k, j). map_option (Pair k) (rd j)) (map (\<lambda>(k, v). (k, f v)) m) = Some (map id m)"
    unfolding mapM_map by (rule mapM_Some_map) (use assms(2) in auto)
  with map_ok_hash_map [OF assms(1)] show ?thesis by simp
qed

lemma back_map [read_back]:
  "map_ok utf8_valid m \<Longrightarrow>
     read_field (r_map r_str) [] (slot g om (GMap m)) = Some m"
  using r_map_back [of utf8_valid m r_str JStr] by (auto simp: slot_def val_json_def simp del: r_map.simps)

lemma back_sets [read_back]:
  assumes ok: "map_ok set_ok m"
  shows "read_field (r_map r_set) [] (slot g om (GSets m)) = Some m"
proof -
  let ?f = "\<lambda>v. case v of None \<Rightarrow> JNull | Some xs \<Rightarrow> strs_json xs"
  from ok have "r_map r_set (JObj (map (\<lambda>(k, v). (k, ?f v)) m)) = Some m"
    by (rule r_map_back)
      (use ok in \<open>fastforce simp: map_ok_def set_ok_def r_set_def list_all_iff split: option.splits\<close>)
  with ok show ?thesis by (auto simp: slot_def val_json_def simp del: r_map.simps)
qed

lemma back_floats [read_back]:
  assumes ok: "map_ok (float_ok g u) m"
  shows "read_field (r_map (r_float u)) [] (slot g om (GFloats m)) = Some m"
proof -
  from ok have "float_members g m = Inr (map (\<lambda>(k, x). (k, JLit (gj_float g x))) m)"
    by (intro float_members_ok [of g u]) (simp add: map_ok_def)
  moreover have "r_map (r_float u) (JObj (map (\<lambda>(k, x). (k, JLit (gj_float g x))) m)) = Some m"
    using ok by (rule r_map_back) (use ok in \<open>auto simp: map_ok_def float_ok_def list_all_iff\<close>)
  ultimately show ?thesis using ok by (auto simp: slot_def val_json_def simp del: r_map.simps)
qed

lemma back_value [read_back]:
  "read_field r_value None (slot g om (GRaw c)) =
     Some (if c = [] then None else if val_json g (GRaw c) = JNull then None else Some (val_json g (GRaw c)))"
  by (auto simp: slot_def val_json_def r_value_def)

section \<open>The request structs\<close>

text \<open>A log query; the zero value matches every record. Times are Unix nanoseconds.\<close>

record LogQuery =
  lq_Service :: string
  lq_Match :: string
  lq_AttrEq :: "string gomap"
  lq_Start :: i64
  lq_End :: i64
  lq_Limit :: i64
  lq_Backward :: bool
  lq_TraceID :: string
  lq_SpanID :: string
  lq_SeverityAtLeast :: i64
  lq_AttrExists :: "string list"
  lq_AttrMatches :: "string gomap"
  lq_AttrIn :: "string list option gomap"
  lq_AttrNotIn :: "string list option gomap"
  lq_AttrGt :: "f64 gomap"
  lq_AttrGe :: "f64 gomap"
  lq_AttrLt :: "f64 gomap"
  lq_AttrLe :: "f64 gomap"
  lq_AttrRegex :: "string gomap"
  lq_ObservedAfter :: i64
  lq_OrderBy :: string

definition LogQuery_fields :: "LogQuery \<Rightarrow> gostruct" where
  "LogQuery_fields q = [
     (''service'', True, GStr (lq_Service q)),
     (''match'', True, GStr (lq_Match q)),
     (''attr_eq'', True, GMap (lq_AttrEq q)),
     (''start'', True, GInt (sint (lq_Start q))),
     (''end'', True, GInt (sint (lq_End q))),
     (''limit'', True, GInt (sint (lq_Limit q))),
     (''backward'', True, GBool (lq_Backward q)),
     (''trace_id'', True, GStr (lq_TraceID q)),
     (''span_id'', True, GStr (lq_SpanID q)),
     (''severity_at_least'', True, GInt (sint (lq_SeverityAtLeast q))),
     (''attr_exists'', True, GStrs (lq_AttrExists q)),
     (''attr_matches'', True, GMap (lq_AttrMatches q)),
     (''attr_in'', True, GSets (lq_AttrIn q)),
     (''attr_not_in'', True, GSets (lq_AttrNotIn q)),
     (''attr_gt'', True, GFloats (lq_AttrGt q)),
     (''attr_ge'', True, GFloats (lq_AttrGe q)),
     (''attr_lt'', True, GFloats (lq_AttrLt q)),
     (''attr_le'', True, GFloats (lq_AttrLe q)),
     (''attr_regex'', True, GMap (lq_AttrRegex q)),
     (''observed_after'', True, GInt (sint (lq_ObservedAfter q))),
     (''order_by'', True, GStr (lq_OrderBy q))]"

definition LogQuery_wire :: "rustjson \<Rightarrow> members \<Rightarrow> LogQuery option" where
  "LogQuery_wire u ms = do {
     service' \<leftarrow> field ''service'' r_str [] ms;
     match' \<leftarrow> field ''match'' r_str [] ms;
     attrEq' \<leftarrow> field ''attr_eq'' (r_map r_str) [] ms;
     start' \<leftarrow> field ''start'' r_i64 0 ms;
     end' \<leftarrow> field ''end'' r_i64 0 ms;
     limit' \<leftarrow> field ''limit'' r_i64 0 ms;
     backward' \<leftarrow> field ''backward'' r_bool False ms;
     traceID' \<leftarrow> field ''trace_id'' r_str [] ms;
     spanID' \<leftarrow> field ''span_id'' r_str [] ms;
     severityAtLeast' \<leftarrow> field ''severity_at_least'' r_i64 0 ms;
     attrExists' \<leftarrow> field ''attr_exists'' r_strs [] ms;
     attrMatches' \<leftarrow> field ''attr_matches'' (r_map r_str) [] ms;
     attrIn' \<leftarrow> field ''attr_in'' (r_map r_set) [] ms;
     attrNotIn' \<leftarrow> field ''attr_not_in'' (r_map r_set) [] ms;
     attrGt' \<leftarrow> field ''attr_gt'' (r_map (r_float u)) [] ms;
     attrGe' \<leftarrow> field ''attr_ge'' (r_map (r_float u)) [] ms;
     attrLt' \<leftarrow> field ''attr_lt'' (r_map (r_float u)) [] ms;
     attrLe' \<leftarrow> field ''attr_le'' (r_map (r_float u)) [] ms;
     attrRegex' \<leftarrow> field ''attr_regex'' (r_map r_str) [] ms;
     observedAfter' \<leftarrow> field ''observed_after'' r_i64 0 ms;
     orderBy' \<leftarrow> field ''order_by'' r_str [] ms;
     Some \<lparr>lq_Service = service', lq_Match = match', lq_AttrEq = attrEq', lq_Start = start',
       lq_End = end', lq_Limit = limit', lq_Backward = backward', lq_TraceID = traceID',
       lq_SpanID = spanID', lq_SeverityAtLeast = severityAtLeast', lq_AttrExists = attrExists',
       lq_AttrMatches = attrMatches', lq_AttrIn = attrIn', lq_AttrNotIn = attrNotIn',
       lq_AttrGt = attrGt', lq_AttrGe = attrGe', lq_AttrLt = attrLt', lq_AttrLe = attrLe',
       lq_AttrRegex = attrRegex', lq_ObservedAfter = observedAfter', lq_OrderBy = orderBy'\<rparr> }"

text \<open>A range query over a gauge or a sum.\<close>

record MetricQuery =
  mq_Metric :: string
  mq_Sum :: bool
  mq_Step :: i64
  mq_Start :: i64
  mq_End :: i64
  mq_GroupBy :: "string list"

definition MetricQuery_fields :: "MetricQuery \<Rightarrow> gostruct" where
  "MetricQuery_fields q = [
     (''metric'', False, GStr (mq_Metric q)),
     (''sum'', True, GBool (mq_Sum q)),
     (''step'', True, GInt (sint (mq_Step q))),
     (''start'', True, GInt (sint (mq_Start q))),
     (''end'', True, GInt (sint (mq_End q))),
     (''group_by'', True, GStrs (mq_GroupBy q))]"

definition MetricQuery_wire :: "rustjson \<Rightarrow> members \<Rightarrow> MetricQuery option" where
  "MetricQuery_wire u ms = do {
     metric' \<leftarrow> field ''metric'' r_str [] ms;
     sum' \<leftarrow> field ''sum'' r_bool False ms;
     step' \<leftarrow> field ''step'' r_i64 0 ms;
     start' \<leftarrow> field ''start'' r_i64 0 ms;
     end' \<leftarrow> field ''end'' r_i64 0 ms;
     groupBy' \<leftarrow> field ''group_by'' r_strs [] ms;
     Some \<lparr>mq_Metric = metric', mq_Sum = sum', mq_Step = step', mq_Start = start',
       mq_End = end', mq_GroupBy = groupBy'\<rparr> }"

text \<open>A span (RED) metrics query.\<close>

record SpanMetricsQuery =
  sq_Service :: string
  sq_Name :: string
  sq_Kind :: string
  sq_Status :: string
  sq_GroupBy :: "string list"
  sq_Step :: i64
  sq_Start :: i64
  sq_End :: i64

definition SpanMetricsQuery_fields :: "SpanMetricsQuery \<Rightarrow> gostruct" where
  "SpanMetricsQuery_fields q = [
     (''service'', True, GStr (sq_Service q)),
     (''name'', True, GStr (sq_Name q)),
     (''kind'', True, GStr (sq_Kind q)),
     (''status'', True, GStr (sq_Status q)),
     (''group_by'', True, GStrs (sq_GroupBy q)),
     (''step'', True, GInt (sint (sq_Step q))),
     (''start'', True, GInt (sint (sq_Start q))),
     (''end'', True, GInt (sint (sq_End q)))]"

definition SpanMetricsQuery_wire :: "rustjson \<Rightarrow> members \<Rightarrow> SpanMetricsQuery option" where
  "SpanMetricsQuery_wire u ms = do {
     service' \<leftarrow> field ''service'' r_str [] ms;
     name' \<leftarrow> field ''name'' r_str [] ms;
     kind' \<leftarrow> field ''kind'' r_str [] ms;
     status' \<leftarrow> field ''status'' r_str [] ms;
     groupBy' \<leftarrow> field ''group_by'' r_strs [] ms;
     step' \<leftarrow> field ''step'' r_i64 0 ms;
     start' \<leftarrow> field ''start'' r_i64 0 ms;
     end' \<leftarrow> field ''end'' r_i64 0 ms;
     Some \<lparr>sq_Service = service', sq_Name = name', sq_Kind = kind', sq_Status = status',
       sq_GroupBy = groupBy', sq_Step = step', sq_Start = start', sq_End = end'\<rparr> }"

text \<open>Raw metric samples.\<close>

record MetricPointsQuery =
  pq_Metric :: string
  pq_Kind :: string
  pq_Filters :: "string gomap"
  pq_Start :: i64
  pq_End :: i64
  pq_Limit :: i64

definition MetricPointsQuery_fields :: "MetricPointsQuery \<Rightarrow> gostruct" where
  "MetricPointsQuery_fields q = [
     (''metric'', False, GStr (pq_Metric q)),
     (''kind'', True, GStr (pq_Kind q)),
     (''filters'', True, GMap (pq_Filters q)),
     (''start'', True, GInt (sint (pq_Start q))),
     (''end'', True, GInt (sint (pq_End q))),
     (''limit'', True, GInt (sint (pq_Limit q)))]"

definition MetricPointsQuery_wire :: "rustjson \<Rightarrow> members \<Rightarrow> MetricPointsQuery option" where
  "MetricPointsQuery_wire u ms = do {
     metric' \<leftarrow> field ''metric'' r_str [] ms;
     kind' \<leftarrow> field ''kind'' r_str [] ms;
     filters' \<leftarrow> field ''filters'' (r_map r_str) [] ms;
     start' \<leftarrow> field ''start'' r_i64 0 ms;
     end' \<leftarrow> field ''end'' r_i64 0 ms;
     limit' \<leftarrow> field ''limit'' r_i64 0 ms;
     Some \<lparr>pq_Metric = metric', pq_Kind = kind', pq_Filters = filters', pq_Start = start',
       pq_End = end', pq_Limit = limit'\<rparr> }"

text \<open>A trace search.\<close>

record TraceQuery =
  tq_Service :: string
  tq_Name :: string
  tq_Status :: string
  tq_Kind :: string
  tq_MinDurationNs :: i64
  tq_MaxDurationNs :: i64
  tq_AttrEq :: "string gomap"
  tq_AttrExists :: "string list"
  tq_AttrMatches :: "string gomap"
  tq_AttrIn :: "string list option gomap"
  tq_AttrNotIn :: "string list option gomap"
  tq_AttrGt :: "f64 gomap"
  tq_AttrGe :: "f64 gomap"
  tq_AttrLt :: "f64 gomap"
  tq_AttrLe :: "f64 gomap"
  tq_AttrRegex :: "string gomap"
  tq_Start :: i64
  tq_End :: i64
  tq_Limit :: i64

definition TraceQuery_fields :: "TraceQuery \<Rightarrow> gostruct" where
  "TraceQuery_fields q = [
     (''service'', True, GStr (tq_Service q)),
     (''name'', True, GStr (tq_Name q)),
     (''status'', True, GStr (tq_Status q)),
     (''kind'', True, GStr (tq_Kind q)),
     (''min_duration_ns'', True, GInt (sint (tq_MinDurationNs q))),
     (''max_duration_ns'', True, GInt (sint (tq_MaxDurationNs q))),
     (''attr_eq'', True, GMap (tq_AttrEq q)),
     (''attr_exists'', True, GStrs (tq_AttrExists q)),
     (''attr_matches'', True, GMap (tq_AttrMatches q)),
     (''attr_in'', True, GSets (tq_AttrIn q)),
     (''attr_not_in'', True, GSets (tq_AttrNotIn q)),
     (''attr_gt'', True, GFloats (tq_AttrGt q)),
     (''attr_ge'', True, GFloats (tq_AttrGe q)),
     (''attr_lt'', True, GFloats (tq_AttrLt q)),
     (''attr_le'', True, GFloats (tq_AttrLe q)),
     (''attr_regex'', True, GMap (tq_AttrRegex q)),
     (''start'', True, GInt (sint (tq_Start q))),
     (''end'', True, GInt (sint (tq_End q))),
     (''limit'', True, GInt (sint (tq_Limit q)))]"

definition TraceQuery_wire :: "rustjson \<Rightarrow> members \<Rightarrow> TraceQuery option" where
  "TraceQuery_wire u ms = do {
     service' \<leftarrow> field ''service'' r_str [] ms;
     name' \<leftarrow> field ''name'' r_str [] ms;
     status' \<leftarrow> field ''status'' r_str [] ms;
     kind' \<leftarrow> field ''kind'' r_str [] ms;
     minDurationNs' \<leftarrow> field ''min_duration_ns'' r_i64 0 ms;
     maxDurationNs' \<leftarrow> field ''max_duration_ns'' r_i64 0 ms;
     attrEq' \<leftarrow> field ''attr_eq'' (r_map r_str) [] ms;
     attrExists' \<leftarrow> field ''attr_exists'' r_strs [] ms;
     attrMatches' \<leftarrow> field ''attr_matches'' (r_map r_str) [] ms;
     attrIn' \<leftarrow> field ''attr_in'' (r_map r_set) [] ms;
     attrNotIn' \<leftarrow> field ''attr_not_in'' (r_map r_set) [] ms;
     attrGt' \<leftarrow> field ''attr_gt'' (r_map (r_float u)) [] ms;
     attrGe' \<leftarrow> field ''attr_ge'' (r_map (r_float u)) [] ms;
     attrLt' \<leftarrow> field ''attr_lt'' (r_map (r_float u)) [] ms;
     attrLe' \<leftarrow> field ''attr_le'' (r_map (r_float u)) [] ms;
     attrRegex' \<leftarrow> field ''attr_regex'' (r_map r_str) [] ms;
     start' \<leftarrow> field ''start'' r_i64 0 ms;
     end' \<leftarrow> field ''end'' r_i64 0 ms;
     limit' \<leftarrow> field ''limit'' r_i64 0 ms;
     Some \<lparr>tq_Service = service', tq_Name = name', tq_Status = status', tq_Kind = kind',
       tq_MinDurationNs = minDurationNs', tq_MaxDurationNs = maxDurationNs', tq_AttrEq = attrEq',
       tq_AttrExists = attrExists', tq_AttrMatches = attrMatches', tq_AttrIn = attrIn',
       tq_AttrNotIn = attrNotIn', tq_AttrGt = attrGt', tq_AttrGe = attrGe', tq_AttrLt = attrLt',
       tq_AttrLe = attrLe', tq_AttrRegex = attrRegex', tq_Start = start', tq_End = end',
       tq_Limit = limit'\<rparr> }"

text \<open>A query text with its evaluation window.\<close>

record lgtmReq =
  lr_Query :: string
  lr_Start :: i64
  lr_End :: i64
  lr_Step :: i64
  lr_Limit :: i64

definition lgtmReq_fields :: "lgtmReq \<Rightarrow> gostruct" where
  "lgtmReq_fields q = [
     (''query'', False, GStr (lr_Query q)),
     (''start'', False, GInt (sint (lr_Start q))),
     (''end'', False, GInt (sint (lr_End q))),
     (''step'', False, GInt (sint (lr_Step q))),
     (''limit'', True, GInt (sint (lr_Limit q)))]"

definition lgtmReq_wire :: "rustjson \<Rightarrow> members \<Rightarrow> lgtmReq option" where
  "lgtmReq_wire u ms = do {
     query' \<leftarrow> field ''query'' r_str [] ms;
     start' \<leftarrow> field ''start'' r_i64 0 ms;
     end' \<leftarrow> field ''end'' r_i64 0 ms;
     step' \<leftarrow> field ''step'' r_i64 0 ms;
     limit' \<leftarrow> field ''limit'' r_i64 0 ms;
     Some \<lparr>lr_Query = query', lr_Start = start', lr_End = end', lr_Step = step',
       lr_Limit = limit'\<rparr> }"

text \<open>The options of a durable open.\<close>

record DbOptions =
  do_Path :: string
  do_ReadOnly :: bool
  do_AllowStaleReads :: bool
  do_MemoryBudgetBytes :: u64
  do_Compression :: string
  do_ZstdLevel :: "32 word"
  do_WalMode :: string
  do_WalIntervalNs :: i64
  do_RetentionDays :: u64
  do_MaxDiskBytes :: u64
  do_Refresh :: string
  do_RefreshTtlNs :: i64
  do_MaintenanceBackgroundNs :: i64
  do_Flush :: string
  do_Duplicates :: string
  do_PromoteKeys :: "string list"

definition DbOptions_fields :: "DbOptions \<Rightarrow> gostruct" where
  "DbOptions_fields q = [
     (''path'', False, GStr (do_Path q)),
     (''read_only'', True, GBool (do_ReadOnly q)),
     (''allow_stale_reads'', True, GBool (do_AllowStaleReads q)),
     (''memory_budget_bytes'', True, GInt (uint (do_MemoryBudgetBytes q))),
     (''compression'', True, GStr (do_Compression q)),
     (''zstd_level'', True, GInt (sint (do_ZstdLevel q))),
     (''wal_mode'', True, GStr (do_WalMode q)),
     (''wal_interval_ns'', True, GInt (sint (do_WalIntervalNs q))),
     (''retention_days'', True, GInt (uint (do_RetentionDays q))),
     (''max_disk_bytes'', True, GInt (uint (do_MaxDiskBytes q))),
     (''refresh'', True, GStr (do_Refresh q)),
     (''refresh_ttl_ns'', True, GInt (sint (do_RefreshTtlNs q))),
     (''maintenance_background_ns'', True, GInt (sint (do_MaintenanceBackgroundNs q))),
     (''flush'', True, GStr (do_Flush q)),
     (''duplicates'', True, GStr (do_Duplicates q)),
     (''promote_keys'', True, GStrs (do_PromoteKeys q))]"

definition DbOptions_wire :: "rustjson \<Rightarrow> members \<Rightarrow> DbOptions option" where
  "DbOptions_wire u ms = do {
     path' \<leftarrow> field ''path'' r_str [] ms;
     readOnly' \<leftarrow> field ''read_only'' r_bool False ms;
     allowStaleReads' \<leftarrow> field ''allow_stale_reads'' r_bool False ms;
     memoryBudgetBytes' \<leftarrow> field ''memory_budget_bytes'' r_u64 0 ms;
     compression' \<leftarrow> field ''compression'' r_str [] ms;
     zstdLevel' \<leftarrow> field ''zstd_level'' r_i32 0 ms;
     walMode' \<leftarrow> field ''wal_mode'' r_str [] ms;
     walIntervalNs' \<leftarrow> field ''wal_interval_ns'' r_i64 0 ms;
     retentionDays' \<leftarrow> field ''retention_days'' r_u64 0 ms;
     maxDiskBytes' \<leftarrow> field ''max_disk_bytes'' r_u64 0 ms;
     refresh' \<leftarrow> field ''refresh'' r_str [] ms;
     refreshTtlNs' \<leftarrow> field ''refresh_ttl_ns'' r_i64 0 ms;
     maintenanceBackgroundNs' \<leftarrow> field ''maintenance_background_ns'' r_i64 0 ms;
     flush' \<leftarrow> field ''flush'' r_str [] ms;
     duplicates' \<leftarrow> field ''duplicates'' r_str [] ms;
     promoteKeys' \<leftarrow> field ''promote_keys'' r_strs [] ms;
     Some \<lparr>do_Path = path', do_ReadOnly = readOnly', do_AllowStaleReads = allowStaleReads',
       do_MemoryBudgetBytes = memoryBudgetBytes', do_Compression = compression',
       do_ZstdLevel = zstdLevel', do_WalMode = walMode', do_WalIntervalNs = walIntervalNs',
       do_RetentionDays = retentionDays', do_MaxDiskBytes = maxDiskBytes', do_Refresh = refresh',
       do_RefreshTtlNs = refreshTtlNs', do_MaintenanceBackgroundNs = maintenanceBackgroundNs',
       do_Flush = flush', do_Duplicates = duplicates', do_PromoteKeys = promoteKeys'\<rparr> }"

text \<open>One trace by its id.\<close>

record getTraceReq =
  gt_TraceID :: string

definition getTraceReq_fields :: "getTraceReq \<Rightarrow> gostruct" where
  "getTraceReq_fields q = [
     (''trace_id'', False, GStr (gt_TraceID q))]"

definition getTraceReq_wire :: "rustjson \<Rightarrow> members \<Rightarrow> getTraceReq option" where
  "getTraceReq_wire u ms = do {
     traceID' \<leftarrow> field ''trace_id'' r_str [] ms;
     Some \<lparr>gt_TraceID = traceID'\<rparr> }"

text \<open>The anonymous request struct of \<open>AttrValues\<close>.\<close>

record attrValuesReq =
  ar_Key :: string

definition attrValuesReq_fields :: "attrValuesReq \<Rightarrow> gostruct" where
  "attrValuesReq_fields q = [
     (''key'', False, GStr (ar_Key q))]"

definition attrValuesReq_wire :: "rustjson \<Rightarrow> members \<Rightarrow> attrValuesReq option" where
  "attrValuesReq_wire u ms = do {
     key' \<leftarrow> field ''key'' r_str [] ms;
     Some \<lparr>ar_Key = key'\<rparr> }"

text \<open>That of \<open>MetricSeries\<close> and \<open>MetricExemplars\<close>.\<close>

record metricSeriesReq =
  mr_Metric :: string

definition metricSeriesReq_fields :: "metricSeriesReq \<Rightarrow> gostruct" where
  "metricSeriesReq_fields q = [
     (''metric'', False, GStr (mr_Metric q))]"

definition metricSeriesReq_wire :: "rustjson \<Rightarrow> members \<Rightarrow> metricSeriesReq option" where
  "metricSeriesReq_wire u ms = do {
     metric' \<leftarrow> field ''metric'' r_str [] ms;
     Some \<lparr>mr_Metric = metric'\<rparr> }"

text \<open>The two requests that embed a \<open>LogQuery\<close>; its fields come first, flattened.\<close>

record logVolumeRequest =
  lv_LogQuery :: LogQuery
  lv_StepNs :: i64
  lv_GroupBy :: "string list"

definition logVolumeRequest_fields :: "logVolumeRequest \<Rightarrow> gostruct" where
  "logVolumeRequest_fields q = LogQuery_fields (lv_LogQuery q) @ [
     (''step_ns'', False, GInt (sint (lv_StepNs q))),
     (''group_by'', True, GStrs (lv_GroupBy q))]"

definition logVolumeRequest_wire :: "rustjson \<Rightarrow> members \<Rightarrow> logVolumeRequest option" where
  "logVolumeRequest_wire u ms = do {
     q \<leftarrow> LogQuery_wire u ms;
     step \<leftarrow> field ''step_ns'' r_i64 0 ms;
     groupBy \<leftarrow> field ''group_by'' r_strs [] ms;
     Some \<lparr>lv_LogQuery = q, lv_StepNs = step, lv_GroupBy = groupBy\<rparr> }"

record logPageReq =
  lp_LogQuery :: LogQuery
  lp_After :: bytes

definition logPageReq_fields :: "logPageReq \<Rightarrow> gostruct" where
  "logPageReq_fields q = LogQuery_fields (lp_LogQuery q) @ [(''after'', True, GRaw (lp_After q))]"

text \<open>The wire form keeps the cursor as a JSON value, \<open>LogPageWire.after\<close>.\<close>

definition logPageReq_wire :: "rustjson \<Rightarrow> members \<Rightarrow> (LogQuery \<times> json option) option" where
  "logPageReq_wire u ms = do {
     q \<leftarrow> LogQuery_wire u ms;
     after \<leftarrow> field ''after'' r_value None ms;
     Some (q, after) }"

section \<open>Every request is read back\<close>

lemma struct_ok_vals: "struct_ok g u fs \<Longrightarrow> list_all (\<lambda>f. goval_ok g u (snd (snd f))) fs"
  by (auto simp: struct_ok_def list_all_iff)

lemma LogQuery_back:
  assumes "struct_ok g u (LogQuery_fields q)" "distinct (map fst (LogQuery_fields q @ ext))"
  shows "LogQuery_wire u (written g (LogQuery_fields q @ ext)) = Some q"
  using struct_ok_vals [OF assms(1)]
  by (simp only: LogQuery_wire_def field_def named_written [OF assms(2)])
    (simp add: LogQuery_fields_def read_back)

lemma LogQuery_names: "map fst (LogQuery_fields q) = map fst (LogQuery_fields r)"
  by (simp add: LogQuery_fields_def)

text \<open>
  A request type: the wire struct reads what is written for its fields.
\<close>

locale wire_struct =
  fixes fields :: "'q \<Rightarrow> gostruct"
    and wire :: "rustjson \<Rightarrow> members \<Rightarrow> 'w option"
    and view :: "'q \<Rightarrow> 'w"
  assumes wire_back: "struct_ok g u (fields q) \<Longrightarrow> wire u (written g (fields q)) = Some (view q)"
begin

definition reads :: "gojson \<Rightarrow> rustjson \<Rightarrow> 'q \<Rightarrow> bool" where
  "reads g u q \<longleftrightarrow> (\<exists>t. marshal g (fields q) = Inr t \<and> Option.bind (serde_object u t) (wire u) = Some (view q))"

lemma round_trip: "serde_reads u \<Longrightarrow> struct_ok g u (fields q) \<Longrightarrow> reads g u q"
  by (simp add: reads_def marshal_ok serde_object_marshal wire_back del: print_json.simps)

lemma same_text:
  assumes "serde_reads u" "struct_ok g u (fields p)" "struct_ok g u (fields q)"
    and "marshal g (fields p) = marshal g (fields q)"
  shows "view p = view q"
  using round_trip [OF assms(1,2)] round_trip [OF assms(1,3)] assms(4) by (auto simp: reads_def)

end

interpretation log_query: wire_struct LogQuery_fields LogQuery_wire "\<lambda>q. q"
  by unfold_locales (use LogQuery_back [where ext = "[]"] in \<open>simp add: LogQuery_fields_def\<close>)

lemma MetricQuery_back:
  assumes "struct_ok g u (MetricQuery_fields q)"
  shows "MetricQuery_wire u (written g (MetricQuery_fields q)) = Some q"
proof -
  have "distinct (map fst (MetricQuery_fields q))" by (simp add: MetricQuery_fields_def)
  with struct_ok_vals [OF assms] show ?thesis
    by (simp only: MetricQuery_wire_def field_def named_written)
      (simp add: MetricQuery_fields_def read_back)
qed

interpretation metric_query: wire_struct MetricQuery_fields MetricQuery_wire "\<lambda>q. q"
  by unfold_locales (rule MetricQuery_back)

lemma SpanMetricsQuery_back:
  assumes "struct_ok g u (SpanMetricsQuery_fields q)"
  shows "SpanMetricsQuery_wire u (written g (SpanMetricsQuery_fields q)) = Some q"
proof -
  have "distinct (map fst (SpanMetricsQuery_fields q))" by (simp add: SpanMetricsQuery_fields_def)
  with struct_ok_vals [OF assms] show ?thesis
    by (simp only: SpanMetricsQuery_wire_def field_def named_written)
      (simp add: SpanMetricsQuery_fields_def read_back)
qed

interpretation span_metrics_query: wire_struct SpanMetricsQuery_fields SpanMetricsQuery_wire "\<lambda>q. q"
  by unfold_locales (rule SpanMetricsQuery_back)

lemma MetricPointsQuery_back:
  assumes "struct_ok g u (MetricPointsQuery_fields q)"
  shows "MetricPointsQuery_wire u (written g (MetricPointsQuery_fields q)) = Some q"
proof -
  have "distinct (map fst (MetricPointsQuery_fields q))" by (simp add: MetricPointsQuery_fields_def)
  with struct_ok_vals [OF assms] show ?thesis
    by (simp only: MetricPointsQuery_wire_def field_def named_written)
      (simp add: MetricPointsQuery_fields_def read_back)
qed

interpretation points_query: wire_struct MetricPointsQuery_fields MetricPointsQuery_wire "\<lambda>q. q"
  by unfold_locales (rule MetricPointsQuery_back)

lemma TraceQuery_back:
  assumes "struct_ok g u (TraceQuery_fields q)"
  shows "TraceQuery_wire u (written g (TraceQuery_fields q)) = Some q"
proof -
  have "distinct (map fst (TraceQuery_fields q))" by (simp add: TraceQuery_fields_def)
  with struct_ok_vals [OF assms] show ?thesis
    by (simp only: TraceQuery_wire_def field_def named_written)
      (simp add: TraceQuery_fields_def read_back)
qed

interpretation trace_query: wire_struct TraceQuery_fields TraceQuery_wire "\<lambda>q. q"
  by unfold_locales (rule TraceQuery_back)

lemma lgtmReq_back:
  assumes "struct_ok g u (lgtmReq_fields q)"
  shows "lgtmReq_wire u (written g (lgtmReq_fields q)) = Some q"
proof -
  have "distinct (map fst (lgtmReq_fields q))" by (simp add: lgtmReq_fields_def)
  with struct_ok_vals [OF assms] show ?thesis
    by (simp only: lgtmReq_wire_def field_def named_written)
      (simp add: lgtmReq_fields_def read_back)
qed

interpretation lgtm_request: wire_struct lgtmReq_fields lgtmReq_wire "\<lambda>q. q"
  by unfold_locales (rule lgtmReq_back)

lemma DbOptions_back:
  assumes "struct_ok g u (DbOptions_fields q)"
  shows "DbOptions_wire u (written g (DbOptions_fields q)) = Some q"
proof -
  have "distinct (map fst (DbOptions_fields q))" by (simp add: DbOptions_fields_def)
  with struct_ok_vals [OF assms] show ?thesis
    by (simp only: DbOptions_wire_def field_def named_written)
      (simp add: DbOptions_fields_def read_back)
qed

interpretation db_options: wire_struct DbOptions_fields DbOptions_wire "\<lambda>q. q"
  by unfold_locales (rule DbOptions_back)

lemma getTraceReq_back:
  assumes "struct_ok g u (getTraceReq_fields q)"
  shows "getTraceReq_wire u (written g (getTraceReq_fields q)) = Some q"
proof -
  have "distinct (map fst (getTraceReq_fields q))" by (simp add: getTraceReq_fields_def)
  with struct_ok_vals [OF assms] show ?thesis
    by (simp only: getTraceReq_wire_def field_def named_written)
      (simp add: getTraceReq_fields_def read_back)
qed

interpretation get_trace: wire_struct getTraceReq_fields getTraceReq_wire "\<lambda>q. q"
  by unfold_locales (rule getTraceReq_back)

lemma attrValuesReq_back:
  assumes "struct_ok g u (attrValuesReq_fields q)"
  shows "attrValuesReq_wire u (written g (attrValuesReq_fields q)) = Some q"
proof -
  have "distinct (map fst (attrValuesReq_fields q))" by (simp add: attrValuesReq_fields_def)
  with struct_ok_vals [OF assms] show ?thesis
    by (simp only: attrValuesReq_wire_def field_def named_written)
      (simp add: attrValuesReq_fields_def read_back)
qed

interpretation attr_values: wire_struct attrValuesReq_fields attrValuesReq_wire "\<lambda>q. q"
  by unfold_locales (rule attrValuesReq_back)

lemma metricSeriesReq_back:
  assumes "struct_ok g u (metricSeriesReq_fields q)"
  shows "metricSeriesReq_wire u (written g (metricSeriesReq_fields q)) = Some q"
proof -
  have "distinct (map fst (metricSeriesReq_fields q))" by (simp add: metricSeriesReq_fields_def)
  with struct_ok_vals [OF assms] show ?thesis
    by (simp only: metricSeriesReq_wire_def field_def named_written)
      (simp add: metricSeriesReq_fields_def read_back)
qed

interpretation metric_series: wire_struct metricSeriesReq_fields metricSeriesReq_wire "\<lambda>q. q"
  by unfold_locales (rule metricSeriesReq_back)

lemma struct_ok_append [simp]: "struct_ok g u (fs @ fs') \<longleftrightarrow> struct_ok g u fs \<and> struct_ok g u fs'"
  by (simp add: struct_ok_def)

interpretation log_volume: wire_struct logVolumeRequest_fields logVolumeRequest_wire "\<lambda>q. q"
proof unfold_locales
  fix g u q
  assume ok: "struct_ok g u (logVolumeRequest_fields q)"
  let ?ext = "[(''step_ns'', False, GInt (sint (lv_StepNs q))), (''group_by'', True, GStrs (lv_GroupBy q))]"
  have d: "distinct (map fst (LogQuery_fields (lv_LogQuery q) @ ?ext))" by (simp add: LogQuery_fields_def)
  have "LogQuery_wire u (written g (logVolumeRequest_fields q)) = Some (lv_LogQuery q)"
    unfolding logVolumeRequest_fields_def
    by (rule LogQuery_back) (use ok d in \<open>simp_all add: logVolumeRequest_fields_def\<close>)
  moreover have "map_of (LogQuery_fields (lv_LogQuery q) @ ?ext) ''step_ns'' = Some (False, GInt (sint (lv_StepNs q)))"
    "map_of (LogQuery_fields (lv_LogQuery q) @ ?ext) ''group_by'' = Some (True, GStrs (lv_GroupBy q))"
    by (simp_all add: LogQuery_fields_def)
  ultimately show "logVolumeRequest_wire u (written g (logVolumeRequest_fields q)) = Some q"
    by (simp add: logVolumeRequest_wire_def logVolumeRequest_fields_def field_def named_written [OF d] read_back
        del: map_of_append)
qed

text \<open>The cursor of a page request arrives as the number it is, and no cursor as \<open>None\<close>.\<close>

definition cursor_value :: "bytes \<Rightarrow> json option" where
  "cursor_value c = (if c = [] then None else Some (JLit c))"

interpretation log_page: wire_struct logPageReq_fields logPageReq_wire
  "\<lambda>q. (lp_LogQuery q, cursor_value (lp_After q))"
proof unfold_locales
  fix g u q
  assume ok: "struct_ok g u (logPageReq_fields q)"
  let ?ext = "[(''after'', True, GRaw (lp_After q))]"
  have d: "distinct (map fst (LogQuery_fields (lp_LogQuery q) @ ?ext))" by (simp add: LogQuery_fields_def)
  have q: "LogQuery_wire u (written g (logPageReq_fields q)) = Some (lp_LogQuery q)"
    unfolding logPageReq_fields_def
    by (rule LogQuery_back) (use ok d in \<open>simp_all add: logPageReq_fields_def\<close>)
  have m: "map_of (LogQuery_fields (lp_LogQuery q) @ ?ext) ''after'' = Some (True, GRaw (lp_After q))"
    by (simp add: LogQuery_fields_def)
  have "goval_ok g u (GRaw (lp_After q))" using ok by (simp add: logPageReq_fields_def struct_ok_def)
  then have c: "lp_After q \<noteq> [] \<Longrightarrow> val_json g (GRaw (lp_After q)) = JLit (lp_After q)" by (rule val_json_raw)
  show "logPageReq_wire u (written g (logPageReq_fields q)) = Some (lp_LogQuery q, cursor_value (lp_After q))"
    using q c
    by (simp add: logPageReq_wire_def logPageReq_fields_def field_def named_written [OF d] m read_back cursor_value_def
        del: map_of_append)
qed

end
