(* ===== verification/Replies.thy ===== *)
theory Replies
  imports Requests
begin

text \<open>
  The reply structs of \<open>ops.go\<close> and \<open>logpage.go\<close>, what \<open>json.Unmarshal\<close> makes of a JSON text for them, and the
  objects the wire structs of \<open>rust/src/lib.rs\<close> serialize to. \<open>json.Unmarshal\<close> first checks the whole text;
  it then takes the members of an object in order, looks each up among the fields (the exact name, else
  one that differs in ASCII case only), skips the unknown ones, and stores the value; \<open>null\<close> leaves a
  field alone, a value of another type is an error.
\<close>

section \<open>\<open>json.Unmarshal\<close>\<close>

type_synonym 'r setter = "json \<Rightarrow> 'r \<Rightarrow> 'r result"

definition find_field :: "(string \<times> 'r setter) list \<Rightarrow> string \<Rightarrow> 'r setter option" where
  "find_field fs k =
     (case map_of fs k of
        Some f \<Rightarrow> Some f
      | None \<Rightarrow> map_option snd (find (\<lambda>(n, f). map lower_byte n = map lower_byte k) fs))"

fun u_members :: "(string \<times> 'r setter) list \<Rightarrow> members \<Rightarrow> 'r \<Rightarrow> 'r result" where
  "u_members fs [] r = Inr r"
| "u_members fs ((k, j) # ms) r =
     (case find_field fs k of
        None \<Rightarrow> u_members fs ms r
      | Some f \<Rightarrow> (case f j r of Inl e \<Rightarrow> Inl e | Inr r' \<Rightarrow> u_members fs ms r'))"

definition mismatch :: "gojson \<Rightarrow> 'a result" where
  "mismatch g = Inl (ErrorString (gj_mismatch g))"

definition u_object :: "gojson \<Rightarrow> (string \<times> 'r setter) list \<Rightarrow> 'r setter" where
  "u_object g fs j r = (case j of JNull \<Rightarrow> Inr r | JObj ms \<Rightarrow> u_members fs ms r | _ \<Rightarrow> mismatch g)"

definition u_bool :: "gojson \<Rightarrow> (bool \<Rightarrow> 'r \<Rightarrow> 'r) \<Rightarrow> 'r setter" where
  "u_bool g put j r = (case j of JNull \<Rightarrow> Inr r | JBool b \<Rightarrow> Inr (put b r) | _ \<Rightarrow> mismatch g)"

definition u_str :: "gojson \<Rightarrow> (string \<Rightarrow> 'r \<Rightarrow> 'r) \<Rightarrow> 'r setter" where
  "u_str g put j r = (case j of JNull \<Rightarrow> Inr r | JStr s \<Rightarrow> Inr (put s r) | _ \<Rightarrow> mismatch g)"

definition u_int :: "gojson \<Rightarrow> int \<Rightarrow> int \<Rightarrow> (64 word \<Rightarrow> 'r \<Rightarrow> 'r) \<Rightarrow> 'r setter" where
  "u_int g lo hi put j r =
     (case j of
        JNull \<Rightarrow> Inr r
      | JLit l \<Rightarrow>
          (case (if l = ''-0'' \<and> lo < 0 then Some 0 else int_of_text l) of
             Some n \<Rightarrow> if lo \<le> n \<and> n \<le> hi then Inr (put (word_of_int n) r) else mismatch g
           | None \<Rightarrow> mismatch g)
      | _ \<Rightarrow> mismatch g)"

definition u_i64 :: "gojson \<Rightarrow> (i64 \<Rightarrow> 'r \<Rightarrow> 'r) \<Rightarrow> 'r setter" where
  "u_i64 g = u_int g (- (2 ^ 63)) (2 ^ 63 - 1)"

definition u_u64 :: "gojson \<Rightarrow> (u64 \<Rightarrow> 'r \<Rightarrow> 'r) \<Rightarrow> 'r setter" where
  "u_u64 g = u_int g 0 (2 ^ 64 - 1)"

text \<open>A pointer field: \<open>null\<close> makes it \<open>nil\<close>.\<close>

definition u_opt :: "((64 word \<Rightarrow> 'r \<Rightarrow> 'r) \<Rightarrow> 'r setter) \<Rightarrow> (64 word option \<Rightarrow> 'r \<Rightarrow> 'r) \<Rightarrow> 'r setter" where
  "u_opt u put j r = (if j = JNull then Inr (put None r) else u (\<lambda>v. put (Some v)) j r)"

fun u_elems :: "'e setter \<Rightarrow> 'e \<Rightarrow> json list \<Rightarrow> 'e list result" where
  "u_elems u z [] = Inr []"
| "u_elems u z (j # js) =
     (case u j z of Inl e \<Rightarrow> Inl e | Inr x \<Rightarrow> map_sum id (Cons x) (u_elems u z js))"

definition u_list :: "gojson \<Rightarrow> 'e setter \<Rightarrow> 'e \<Rightarrow> ('e list \<Rightarrow> 'r \<Rightarrow> 'r) \<Rightarrow> 'r setter" where
  "u_list g u z put j r =
     (case j of
        JNull \<Rightarrow> Inr (put [] r)
      | JArr js \<Rightarrow> map_sum id (\<lambda>xs. put xs r) (u_elems u z js)
      | _ \<Rightarrow> mismatch g)"

definition unmarshal :: "gojson \<Rightarrow> 'r setter \<Rightarrow> 'r \<Rightarrow> bytes \<Rightarrow> 'r result" where
  "unmarshal g u z text =
     (case parse_json text of None \<Rightarrow> Inl (ErrorString (gj_syntax g text)) | Some j \<Rightarrow> u j z)"

text \<open>The JSON of the Rust fields.\<close>

definition u64_json :: "u64 \<Rightarrow> json" where
  "u64_json n = JLit (int_text (uint n))"

definition i64_json :: "i64 \<Rightarrow> json" where
  "i64_json n = JLit (int_text (sint n))"

definition opt_json :: "('a \<Rightarrow> json) \<Rightarrow> 'a option \<Rightarrow> json" where
  "opt_json f v = (case v of None \<Rightarrow> JNull | Some x \<Rightarrow> f x)"

named_theorems stored "what a setter stores for a value the Rust side wrote"

lemma int_text_not_minus_zero: "int_text n \<noteq> ''-0''"
proof
  assume "int_text n = ''-0''"
  moreover have "int_of_text ''-0'' = None" by code_simp
  ultimately show False using int_of_int_text [of n] by simp
qed

lemma u_u64_json [stored]: "u_u64 g put (u64_json n) r = Inr (put n r)"
  using uint_bounded [of n] by (simp add: u_u64_def u_int_def u64_json_def)

lemma u_i64_json [stored]: "u_i64 g put (i64_json n) r = Inr (put n r)"
  using sint_greater_eq [of n] sint_less [of n] int_text_not_minus_zero [of "sint n"]
  by (simp add: u_i64_def u_int_def i64_json_def)

lemma u_opt_u64 [stored]: "u_opt (u_u64 g) put (opt_json u64_json v) r = Inr (put v r)"
  by (cases v) (simp_all add: u_opt_def opt_json_def u_u64_json, simp add: u64_json_def)

lemma u_opt_i64 [stored]: "u_opt (u_i64 g) put (opt_json i64_json v) r = Inr (put v r)"
  by (cases v) (simp_all add: u_opt_def opt_json_def u_i64_json, simp add: i64_json_def)

lemma u_scalars [stored]: "u_bool g bput (JBool b) r = Inr (bput b r)" "u_str g sput (JStr s) r = Inr (sput s r)"
  by (simp_all add: u_bool_def u_str_def)

lemma u_elems_map: "(\<And>x. x \<in> set xs \<Longrightarrow> u (f x) z = Inr x) \<Longrightarrow> u_elems u z (map f xs) = Inr xs"
  by (induction xs) auto

lemma u_list_map:
  "(\<And>x. u (f x) z = Inr x) \<Longrightarrow> u_list g u z put (JArr (map f xs)) r = Inr (put xs r)"
  by (simp add: u_list_def u_elems_map)

section \<open>The reply structs\<close>

record TableStats =
  ta_Table :: string
  ta_SegmentCount :: u64
  ta_SegmentRows :: u64
  ta_BufferRows :: u64
  ta_MinTimeUnixNano :: "i64 option"
  ta_MaxTimeUnixNano :: "i64 option"

definition TableStats_zero :: TableStats where
  "TableStats_zero = \<lparr>ta_Table = [], ta_SegmentCount = 0, ta_SegmentRows = 0, ta_BufferRows = 0,
     ta_MinTimeUnixNano = None, ta_MaxTimeUnixNano = None\<rparr>"

definition TableStats_un :: "gojson \<Rightarrow> TableStats setter" where
  "TableStats_un g = u_object g [
     (''table'', u_str g (\<lambda>v r. r\<lparr>ta_Table := v\<rparr>)),
     (''segment_count'', u_u64 g (\<lambda>v r. r\<lparr>ta_SegmentCount := v\<rparr>)),
     (''segment_rows'', u_u64 g (\<lambda>v r. r\<lparr>ta_SegmentRows := v\<rparr>)),
     (''buffer_rows'', u_u64 g (\<lambda>v r. r\<lparr>ta_BufferRows := v\<rparr>)),
     (''min_time_unix_nano'', u_opt (u_i64 g) (\<lambda>v r. r\<lparr>ta_MinTimeUnixNano := v\<rparr>)),
     (''max_time_unix_nano'', u_opt (u_i64 g) (\<lambda>v r. r\<lparr>ta_MaxTimeUnixNano := v\<rparr>))]"

definition TableStats_json :: "TableStats \<Rightarrow> json" where
  "TableStats_json t = JObj [
     (''table'', JStr (ta_Table t)),
     (''segment_count'', u64_json (ta_SegmentCount t)),
     (''segment_rows'', u64_json (ta_SegmentRows t)),
     (''buffer_rows'', u64_json (ta_BufferRows t)),
     (''min_time_unix_nano'', opt_json i64_json (ta_MinTimeUnixNano t)),
     (''max_time_unix_nano'', opt_json i64_json (ta_MaxTimeUnixNano t))]"

record DbStats =
  ds_Tables :: "TableStats list"
  ds_BufferBytes :: u64
  ds_WalBytes :: u64
  ds_DurableLSN :: "u64 option"
  ds_IngestQueueDepth :: u64
  ds_IngestDropped :: u64
  ds_IngestErrors :: u64
  ds_IngestRejected :: u64

definition DbStats_zero :: DbStats where
  "DbStats_zero = \<lparr>ds_Tables = [], ds_BufferBytes = 0, ds_WalBytes = 0, ds_DurableLSN = None,
     ds_IngestQueueDepth = 0, ds_IngestDropped = 0, ds_IngestErrors = 0, ds_IngestRejected = 0\<rparr>"

definition DbStats_un :: "gojson \<Rightarrow> DbStats setter" where
  "DbStats_un g = u_object g [
     (''tables'', u_list g (TableStats_un g) TableStats_zero (\<lambda>v r. r\<lparr>ds_Tables := v\<rparr>)),
     (''buffer_bytes'', u_u64 g (\<lambda>v r. r\<lparr>ds_BufferBytes := v\<rparr>)),
     (''wal_bytes'', u_u64 g (\<lambda>v r. r\<lparr>ds_WalBytes := v\<rparr>)),
     (''durable_lsn'', u_opt (u_u64 g) (\<lambda>v r. r\<lparr>ds_DurableLSN := v\<rparr>)),
     (''ingest_queue_depth'', u_u64 g (\<lambda>v r. r\<lparr>ds_IngestQueueDepth := v\<rparr>)),
     (''ingest_dropped'', u_u64 g (\<lambda>v r. r\<lparr>ds_IngestDropped := v\<rparr>)),
     (''ingest_errors'', u_u64 g (\<lambda>v r. r\<lparr>ds_IngestErrors := v\<rparr>)),
     (''ingest_rejected'', u_u64 g (\<lambda>v r. r\<lparr>ds_IngestRejected := v\<rparr>))]"

definition DbStats_json :: "DbStats \<Rightarrow> json" where
  "DbStats_json s = JObj [
     (''tables'', JArr (map TableStats_json (ds_Tables s))),
     (''buffer_bytes'', u64_json (ds_BufferBytes s)),
     (''wal_bytes'', u64_json (ds_WalBytes s)),
     (''durable_lsn'', opt_json u64_json (ds_DurableLSN s)),
     (''ingest_queue_depth'', u64_json (ds_IngestQueueDepth s)),
     (''ingest_dropped'', u64_json (ds_IngestDropped s)),
     (''ingest_errors'', u64_json (ds_IngestErrors s)),
     (''ingest_rejected'', u64_json (ds_IngestRejected s))]"

record MaintenanceReport =
  mn_Sealed :: bool
  mn_SegmentsDropped :: u64
  mn_BytesFreed :: u64

definition MaintenanceReport_zero :: MaintenanceReport where
  "MaintenanceReport_zero = \<lparr>mn_Sealed = False, mn_SegmentsDropped = 0, mn_BytesFreed = 0\<rparr>"

definition MaintenanceReport_un :: "gojson \<Rightarrow> MaintenanceReport setter" where
  "MaintenanceReport_un g = u_object g [
     (''sealed'', u_bool g (\<lambda>v r. r\<lparr>mn_Sealed := v\<rparr>)),
     (''segments_dropped'', u_u64 g (\<lambda>v r. r\<lparr>mn_SegmentsDropped := v\<rparr>)),
     (''bytes_freed'', u_u64 g (\<lambda>v r. r\<lparr>mn_BytesFreed := v\<rparr>))]"

definition MaintenanceReport_json :: "MaintenanceReport \<Rightarrow> json" where
  "MaintenanceReport_json m = JObj [
     (''sealed'', JBool (mn_Sealed m)),
     (''segments_dropped'', u64_json (mn_SegmentsDropped m)),
     (''bytes_freed'', u64_json (mn_BytesFreed m))]"

record CompactionReport =
  co_SegmentsMerged :: u64
  co_SegmentsCreated :: u64

definition CompactionReport_zero :: CompactionReport where
  "CompactionReport_zero = \<lparr>co_SegmentsMerged = 0, co_SegmentsCreated = 0\<rparr>"

definition CompactionReport_un :: "gojson \<Rightarrow> CompactionReport setter" where
  "CompactionReport_un g = u_object g [
     (''segments_merged'', u_u64 g (\<lambda>v r. r\<lparr>co_SegmentsMerged := v\<rparr>)),
     (''segments_created'', u_u64 g (\<lambda>v r. r\<lparr>co_SegmentsCreated := v\<rparr>))]"

definition CompactionReport_json :: "CompactionReport \<Rightarrow> json" where
  "CompactionReport_json c = JObj [
     (''segments_merged'', u64_json (co_SegmentsMerged c)),
     (''segments_created'', u64_json (co_SegmentsCreated c))]"

record SnapshotInfo =
  sn_Dir :: string
  sn_Segments :: u64

definition SnapshotInfo_zero :: SnapshotInfo where
  "SnapshotInfo_zero = \<lparr>sn_Dir = [], sn_Segments = 0\<rparr>"

definition SnapshotInfo_un :: "gojson \<Rightarrow> SnapshotInfo setter" where
  "SnapshotInfo_un g = u_object g [
     (''dir'', u_str g (\<lambda>v r. r\<lparr>sn_Dir := v\<rparr>)),
     (''segments'', u_u64 g (\<lambda>v r. r\<lparr>sn_Segments := v\<rparr>))]"

definition SnapshotInfo_json :: "SnapshotInfo \<Rightarrow> json" where
  "SnapshotInfo_json s = JObj [(''dir'', JStr (sn_Dir s)), (''segments'', u64_json (sn_Segments s))]"

record SegmentRef =
  sr_RelativePath :: string
  sr_MinTimeUnixNano :: i64
  sr_MaxTimeUnixNano :: i64
  sr_Rows :: u64

definition SegmentRef_zero :: SegmentRef where
  "SegmentRef_zero = \<lparr>sr_RelativePath = [], sr_MinTimeUnixNano = 0, sr_MaxTimeUnixNano = 0, sr_Rows = 0\<rparr>"

definition SegmentRef_un :: "gojson \<Rightarrow> SegmentRef setter" where
  "SegmentRef_un g = u_object g [
     (''relative_path'', u_str g (\<lambda>v r. r\<lparr>sr_RelativePath := v\<rparr>)),
     (''min_time_unix_nano'', u_i64 g (\<lambda>v r. r\<lparr>sr_MinTimeUnixNano := v\<rparr>)),
     (''max_time_unix_nano'', u_i64 g (\<lambda>v r. r\<lparr>sr_MaxTimeUnixNano := v\<rparr>)),
     (''rows'', u_u64 g (\<lambda>v r. r\<lparr>sr_Rows := v\<rparr>))]"

definition SegmentRef_json :: "SegmentRef \<Rightarrow> json" where
  "SegmentRef_json s = JObj [
     (''relative_path'', JStr (sr_RelativePath s)),
     (''min_time_unix_nano'', i64_json (sr_MinTimeUnixNano s)),
     (''max_time_unix_nano'', i64_json (sr_MaxTimeUnixNano s)),
     (''rows'', u64_json (sr_Rows s))]"

definition segments_un :: "gojson \<Rightarrow> SegmentRef list setter" where
  "segments_un g = u_list g (SegmentRef_un g) SegmentRef_zero (\<lambda>v _. v)"

definition files_un :: "gojson \<Rightarrow> string list setter" where
  "files_un g = u_list g (u_str g (\<lambda>v _. v)) [] (\<lambda>v _. v)"

text \<open>The anonymous struct of \<open>DurableThrough\<close> is its one field.\<close>

definition durable_un :: "gojson \<Rightarrow> u64 option setter" where
  "durable_un g = u_object g [(''durable_lsn'', u_opt (u_u64 g) (\<lambda>v _. v))]"

record QueryStats =
  qs_SegmentsScanned :: u64
  qs_SegmentsPruned :: u64
  qs_RowsScanned :: u64
  qs_RowsReturned :: u64
  qs_BytesScanned :: u64
  qs_ElapsedNs :: u64
  qs_UsedIndex :: bool

definition QueryStats_zero :: QueryStats where
  "QueryStats_zero = \<lparr>qs_SegmentsScanned = 0, qs_SegmentsPruned = 0, qs_RowsScanned = 0, qs_RowsReturned = 0,
     qs_BytesScanned = 0, qs_ElapsedNs = 0, qs_UsedIndex = False\<rparr>"

definition QueryStats_un :: "gojson \<Rightarrow> QueryStats setter" where
  "QueryStats_un g = u_object g [
     (''segments_scanned'', u_u64 g (\<lambda>v r. r\<lparr>qs_SegmentsScanned := v\<rparr>)),
     (''segments_pruned'', u_u64 g (\<lambda>v r. r\<lparr>qs_SegmentsPruned := v\<rparr>)),
     (''rows_scanned'', u_u64 g (\<lambda>v r. r\<lparr>qs_RowsScanned := v\<rparr>)),
     (''rows_returned'', u_u64 g (\<lambda>v r. r\<lparr>qs_RowsReturned := v\<rparr>)),
     (''bytes_scanned'', u_u64 g (\<lambda>v r. r\<lparr>qs_BytesScanned := v\<rparr>)),
     (''elapsed_ns'', u_u64 g (\<lambda>v r. r\<lparr>qs_ElapsedNs := v\<rparr>)),
     (''used_index'', u_bool g (\<lambda>v r. r\<lparr>qs_UsedIndex := v\<rparr>))]"

definition QueryStats_json :: "QueryStats \<Rightarrow> json" where
  "QueryStats_json s = JObj [
     (''segments_scanned'', u64_json (qs_SegmentsScanned s)),
     (''segments_pruned'', u64_json (qs_SegmentsPruned s)),
     (''rows_scanned'', u64_json (qs_RowsScanned s)),
     (''rows_returned'', u64_json (qs_RowsReturned s)),
     (''bytes_scanned'', u64_json (qs_BytesScanned s)),
     (''elapsed_ns'', u64_json (qs_ElapsedNs s)),
     (''used_index'', JBool (qs_UsedIndex s))]"

lemma wf_numbers [simp]: "wf_json (u64_json n)" "wf_json (i64_json i)"
  "wf_json (opt_json u64_json v)" "wf_json (opt_json i64_json j)"
  by (cases v; cases j; simp add: u64_json_def i64_json_def opt_json_def int_text_is_number)+

section \<open>Every reply is read back\<close>

text \<open>A reply type: what the Go side stores for the object the Rust side writes.\<close>

locale reply =
  fixes un :: "gojson \<Rightarrow> 'r setter"
    and zero :: 'r
    and wire :: "'r \<Rightarrow> json"
  assumes un_wire: "un g (wire x) zero = Inr x"
begin

lemma unmarshal_reply: "parse_json text = Some (wire x) \<Longrightarrow> unmarshal g (un g) zero text = Inr x"
  by (simp add: unmarshal_def un_wire)

end

lemma TableStats_read [stored]: "TableStats_un g (TableStats_json t) TableStats_zero = Inr t"
  by (simp add: TableStats_un_def TableStats_json_def TableStats_zero_def u_object_def find_field_def stored)

lemma SegmentRef_read: "SegmentRef_un g (SegmentRef_json s) SegmentRef_zero = Inr s"
  by (simp add: SegmentRef_un_def SegmentRef_json_def SegmentRef_zero_def u_object_def find_field_def stored)

interpretation stats: reply DbStats_un DbStats_zero DbStats_json
  by unfold_locales (simp add: DbStats_un_def DbStats_json_def DbStats_zero_def u_object_def find_field_def stored u_list_map)

interpretation maintenance: reply MaintenanceReport_un MaintenanceReport_zero MaintenanceReport_json
  by unfold_locales (simp add: MaintenanceReport_un_def MaintenanceReport_json_def MaintenanceReport_zero_def u_object_def find_field_def stored)

interpretation compaction: reply CompactionReport_un CompactionReport_zero CompactionReport_json
  by unfold_locales (simp add: CompactionReport_un_def CompactionReport_json_def CompactionReport_zero_def u_object_def find_field_def stored)

interpretation snapshot: reply SnapshotInfo_un SnapshotInfo_zero SnapshotInfo_json
  by unfold_locales (simp add: SnapshotInfo_un_def SnapshotInfo_json_def SnapshotInfo_zero_def u_object_def find_field_def stored)

interpretation segments: reply segments_un "[]" "\<lambda>xs. JArr (map SegmentRef_json xs)"
  by unfold_locales (simp add: segments_un_def u_list_map SegmentRef_read)

interpretation segment_files: reply files_un "[]" strs_json
  by unfold_locales (simp add: files_un_def strs_json_def u_list_map stored)

interpretation durable: reply durable_un None "\<lambda>v. JObj [(''durable_lsn'', opt_json u64_json v)]"
  by unfold_locales (simp add: durable_un_def u_object_def find_field_def stored)

interpretation query_stats: reply QueryStats_un QueryStats_zero QueryStats_json
  by unfold_locales (simp add: QueryStats_un_def QueryStats_json_def QueryStats_zero_def u_object_def find_field_def stored)

end
