(* ===== verification/Queries.thy ===== *)
theory Queries
  imports Requests Series System TraceTree
begin

text \<open>
  The query methods of \<open>DB\<close> (\<open>query.go\<close>, \<open>discovery.go\<close>, \<open>lgtm.go\<close>, \<open>traces_search.go\<close>, \<open>results.go\<close>,
  \<open>trace_tree.go\<close>): marshal the request, open the stream, and for the typed forms drain and decode it. Each
  takes the process state and returns it updated; the typed forms take the schedule of the environment
  during the drain and return \<open>None\<close> when a reader panics. A method that fails before it has rows returns
  the error and runs no \<open>Close\<close>.
\<close>

section \<open>Op codes\<close>

definition opQueryLogs :: u32 where "opQueryLogs = 7"
definition opQueryMetrics :: u32 where "opQueryMetrics = 8"
definition opQuerySpanMetrics :: u32 where "opQuerySpanMetrics = 9"
definition opPromQL :: u32 where "opPromQL = 10"
definition opLogQL :: u32 where "opLogQL = 11"
definition opTraceQL :: u32 where "opTraceQL = 12"
definition opGetTrace :: u32 where "opGetTrace = 13"
definition opMetricPoints :: u32 where "opMetricPoints = 14"
definition opAttrNames :: u32 where "opAttrNames = 15"
definition opAttrValues :: u32 where "opAttrValues = 16"
definition opMetricCatalog :: u32 where "opMetricCatalog = 17"
definition opMetricSeries :: u32 where "opMetricSeries = 18"
definition opMetricExemplars :: u32 where "opMetricExemplars = 19"
definition opLogVolume :: u32 where "opLogVolume = 20"
definition opTraceSearch :: u32 where "opTraceSearch = 21"
definition opMetricInstant :: u32 where "opMetricInstant = 22"

lemmas [op_defs] = opQueryLogs_def opQueryMetrics_def opQuerySpanMetrics_def opPromQL_def opLogQL_def
  opTraceQL_def opGetTrace_def opMetricPoints_def opAttrNames_def opAttrValues_def opMetricCatalog_def
  opMetricSeries_def opMetricExemplars_def opLogVolume_def opTraceSearch_def opMetricInstant_def

section \<open>The two halves of every method\<close>

type_synonym 'db opened_rows = "rows result \<times> 'db world"

text \<open>\<open>json.Marshal\<close> the request, then \<open>openStream\<close>.\<close>

definition send_query ::
  "gojson \<Rightarrow> DB \<Rightarrow> nat option \<Rightarrow> u32 \<Rightarrow> gostruct \<Rightarrow> 'db world \<Rightarrow> 'db opened_rows" where
  "send_query g db ctx op fs w =
     (case marshal g fs of Inl e \<Rightarrow> (Inl e, w) | Inr b \<Rightarrow> openStream db ctx op b w)"

text \<open>Return the error, or decode the rows.\<close>

definition collect ::
  "(rows \<Rightarrow> 'db world \<Rightarrow> 's result option \<times> rows \<times> 'db world) \<Rightarrow> 'db opened_rows \<Rightarrow>
   's result option \<times> 'db world" where
  "collect dec opn =
     (case opn of
        (Inl e, w) \<Rightarrow> (Some (Inl e), w)
      | (Inr r, w) \<Rightarrow> (case dec r w of (res, r', w') \<Rightarrow> (res, w')))"

definition drain_rows ::
  "'db env \<Rightarrow> (cols \<Rightarrow> nat \<Rightarrow> 'a option) \<Rightarrow> event list list \<Rightarrow> rows \<Rightarrow> 'db world \<Rightarrow>
   'a list result option \<times> rows \<times> 'db world" where
  "drain_rows ev row sched r w = drain ev (decode_rows row) sched r w []"

section \<open>\<open>query.go\<close>\<close>

definition QueryLogs :: "gojson \<Rightarrow> DB \<Rightarrow> nat option \<Rightarrow> LogQuery \<Rightarrow> 'db world \<Rightarrow> 'db opened_rows" where
  "QueryLogs g db ctx q = send_query g db ctx opQueryLogs (LogQuery_fields q)"

definition CountLogs ::
  "'db env \<Rightarrow> gojson \<Rightarrow> DB \<Rightarrow> nat \<Rightarrow> LogQuery \<Rightarrow> 'db world \<Rightarrow> u64 result \<times> 'db world" where
  "CountLogs ev g db ctx q w =
     (case marshal g (LogQuery_fields q) of
        Inl e \<Rightarrow> (Inl e, w)
      | Inr b \<Rightarrow>
          (case sable_call_ctx ev ctx opLogCount (call_frame (db_id db) b) w of
             (Inl e, w') \<Rightarrow> (Inl e, w')
           | (Inr resp, w') \<Rightarrow> (decodeCount resp, w')))"

definition QueryMetrics :: "gojson \<Rightarrow> DB \<Rightarrow> nat option \<Rightarrow> MetricQuery \<Rightarrow> 'db world \<Rightarrow> 'db opened_rows" where
  "QueryMetrics g db ctx q = send_query g db ctx opQueryMetrics (MetricQuery_fields q)"

definition QueryMetricInstant ::
  "'db env \<Rightarrow> gojson \<Rightarrow> event list list \<Rightarrow> DB \<Rightarrow> nat option \<Rightarrow> MetricQuery \<Rightarrow> 'db world \<Rightarrow>
   InstantSample list result option \<times> 'db world" where
  "QueryMetricInstant ev g sched db ctx q w =
     collect (drain_rows ev instant_row sched) (send_query g db ctx opMetricInstant (MetricQuery_fields q) w)"

definition QuerySpanMetrics ::
  "gojson \<Rightarrow> DB \<Rightarrow> nat option \<Rightarrow> SpanMetricsQuery \<Rightarrow> 'db world \<Rightarrow> 'db opened_rows" where
  "QuerySpanMetrics g db ctx q = send_query g db ctx opQuerySpanMetrics (SpanMetricsQuery_fields q)"

definition QueryMetricPoints ::
  "gojson \<Rightarrow> DB \<Rightarrow> nat option \<Rightarrow> MetricPointsQuery \<Rightarrow> 'db world \<Rightarrow> 'db opened_rows" where
  "QueryMetricPoints g db ctx q = send_query g db ctx opMetricPoints (MetricPointsQuery_fields q)"

definition QueryMetricPointsTyped ::
  "'db env \<Rightarrow> gojson \<Rightarrow> event list list \<Rightarrow> DB \<Rightarrow> nat option \<Rightarrow> MetricPointsQuery \<Rightarrow> 'db world \<Rightarrow>
   MetricPoint list result option \<times> 'db world" where
  "QueryMetricPointsTyped ev g sched db ctx q w =
     collect (drain_rows ev metric_point_row sched) (QueryMetricPoints g db ctx q w)"

section \<open>\<open>discovery.go\<close>\<close>

definition AttrNames ::
  "'db env \<Rightarrow> event list list \<Rightarrow> DB \<Rightarrow> nat option \<Rightarrow> 'db world \<Rightarrow> string list result option \<times> 'db world" where
  "AttrNames ev sched db ctx w =
     collect (\<lambda>r. collectStringColumn ev sched r ''name'') (openStream db ctx opAttrNames [] w)"

definition AttrValues ::
  "'db env \<Rightarrow> gojson \<Rightarrow> event list list \<Rightarrow> DB \<Rightarrow> nat option \<Rightarrow> string \<Rightarrow> 'db world \<Rightarrow>
   string list result option \<times> 'db world" where
  "AttrValues ev g sched db ctx key w =
     collect (\<lambda>r. collectStringColumn ev sched r ''value'')
       (send_query g db ctx opAttrValues (attrValuesReq_fields \<lparr>ar_Key = key\<rparr>) w)"

definition MetricCatalog ::
  "'db env \<Rightarrow> event list list \<Rightarrow> DB \<Rightarrow> nat option \<Rightarrow> 'db world \<Rightarrow> MetricInfo list result option \<times> 'db world" where
  "MetricCatalog ev sched db ctx w =
     collect (drain_rows ev metric_info_row sched) (openStream db ctx opMetricCatalog [] w)"

definition MetricSeries ::
  "'db env \<Rightarrow> gojson \<Rightarrow> event list list \<Rightarrow> DB \<Rightarrow> nat option \<Rightarrow> string \<Rightarrow> 'db world \<Rightarrow>
   string list result option \<times> 'db world" where
  "MetricSeries ev g sched db ctx metric w =
     collect (\<lambda>r. collectStringColumn ev sched r ''labels'')
       (send_query g db ctx opMetricSeries (metricSeriesReq_fields \<lparr>mr_Metric = metric\<rparr>) w)"

definition MetricExemplars ::
  "'db env \<Rightarrow> gojson \<Rightarrow> event list list \<Rightarrow> DB \<Rightarrow> nat option \<Rightarrow> string \<Rightarrow> 'db world \<Rightarrow>
   Exemplar list result option \<times> 'db world" where
  "MetricExemplars ev g sched db ctx metric w =
     collect (drain_rows ev exemplar_row sched)
       (send_query g db ctx opMetricExemplars (metricSeriesReq_fields \<lparr>mr_Metric = metric\<rparr>) w)"

definition LogVolumeBy ::
  "'db env \<Rightarrow> gojson \<Rightarrow> event list list \<Rightarrow> DB \<Rightarrow> nat option \<Rightarrow> LogQuery \<Rightarrow> i64 \<Rightarrow> string list \<Rightarrow> 'db world \<Rightarrow>
   VolumeBucket list result option \<times> 'db world" where
  "LogVolumeBy ev g sched db ctx q stepNs groupBy w =
     collect (drain_rows ev volume_row sched)
       (send_query g db ctx opLogVolume
         (logVolumeRequest_fields \<lparr>lv_LogQuery = q, lv_StepNs = stepNs, lv_GroupBy = groupBy\<rparr>) w)"

definition LogVolume ::
  "'db env \<Rightarrow> gojson \<Rightarrow> event list list \<Rightarrow> DB \<Rightarrow> nat option \<Rightarrow> LogQuery \<Rightarrow> i64 \<Rightarrow> 'db world \<Rightarrow>
   VolumeBucket list result option \<times> 'db world" where
  "LogVolume ev g sched db ctx q stepNs w = LogVolumeBy ev g sched db ctx q stepNs [] w"

section \<open>\<open>lgtm.go\<close>\<close>

definition lgtmStreamLimit ::
  "gojson \<Rightarrow> DB \<Rightarrow> nat option \<Rightarrow> u32 \<Rightarrow> string \<Rightarrow> i64 \<Rightarrow> i64 \<Rightarrow> i64 \<Rightarrow> i64 \<Rightarrow> 'db world \<Rightarrow> 'db opened_rows" where
  "lgtmStreamLimit g db ctx op query start end' step' limit =
     send_query g db ctx op (lgtmReq_fields
       \<lparr>lr_Query = query, lr_Start = start, lr_End = end', lr_Step = step', lr_Limit = limit\<rparr>)"

definition lgtmStream ::
  "gojson \<Rightarrow> DB \<Rightarrow> nat option \<Rightarrow> u32 \<Rightarrow> string \<Rightarrow> i64 \<Rightarrow> i64 \<Rightarrow> i64 \<Rightarrow> 'db world \<Rightarrow> 'db opened_rows" where
  "lgtmStream g db ctx op query start end' step' = lgtmStreamLimit g db ctx op query start end' step' 0"

definition QueryPromQL ::
  "gojson \<Rightarrow> DB \<Rightarrow> nat option \<Rightarrow> string \<Rightarrow> i64 \<Rightarrow> i64 \<Rightarrow> i64 \<Rightarrow> 'db world \<Rightarrow> 'db opened_rows" where
  "QueryPromQL g db ctx = lgtmStream g db ctx opPromQL"

definition QueryPromQLSeries ::
  "'db env \<Rightarrow> gojson \<Rightarrow> event list list \<Rightarrow> DB \<Rightarrow> nat option \<Rightarrow> string \<Rightarrow> i64 \<Rightarrow> i64 \<Rightarrow> i64 \<Rightarrow> 'db world \<Rightarrow>
   Series list result option \<times> 'db world" where
  "QueryPromQLSeries ev g sched db ctx query start end' step' w =
     collect (decodeLabeledSeries ev sched) (QueryPromQL g db ctx query start end' step' w)"

definition QueryLogQL ::
  "gojson \<Rightarrow> DB \<Rightarrow> nat option \<Rightarrow> string \<Rightarrow> i64 \<Rightarrow> i64 \<Rightarrow> i64 \<Rightarrow> 'db world \<Rightarrow> 'db opened_rows" where
  "QueryLogQL g db ctx = lgtmStream g db ctx opLogQL"

definition QueryLogQLLines ::
  "'db env \<Rightarrow> gojson \<Rightarrow> event list list \<Rightarrow> DB \<Rightarrow> nat option \<Rightarrow> string \<Rightarrow> i64 \<Rightarrow> i64 \<Rightarrow> i64 \<Rightarrow> 'db world \<Rightarrow>
   LogEntry list result option \<times> 'db world" where
  "QueryLogQLLines ev g sched db ctx query start end' limit w =
     collect (decodeLogEntries ev sched) (lgtmStreamLimit g db ctx opLogQL query start end' 0 limit w)"

definition QueryLogQLSeries ::
  "'db env \<Rightarrow> gojson \<Rightarrow> event list list \<Rightarrow> DB \<Rightarrow> nat option \<Rightarrow> string \<Rightarrow> i64 \<Rightarrow> i64 \<Rightarrow> i64 \<Rightarrow> 'db world \<Rightarrow>
   Series list result option \<times> 'db world" where
  "QueryLogQLSeries ev g sched db ctx query start end' step' w =
     collect (decodeLabeledSeries ev sched) (QueryLogQL g db ctx query start end' step' w)"

definition QueryTraceQL ::
  "gojson \<Rightarrow> DB \<Rightarrow> nat option \<Rightarrow> string \<Rightarrow> i64 \<Rightarrow> i64 \<Rightarrow> 'db world \<Rightarrow> 'db opened_rows" where
  "QueryTraceQL g db ctx query start end' = lgtmStream g db ctx opTraceQL query start end' 0"

definition QueryTraceQLMatches ::
  "'db env \<Rightarrow> gojson \<Rightarrow> event list list \<Rightarrow> DB \<Rightarrow> nat option \<Rightarrow> string \<Rightarrow> i64 \<Rightarrow> i64 \<Rightarrow> 'db world \<Rightarrow>
   TraceMatch list result option \<times> 'db world" where
  "QueryTraceQLMatches ev g sched db ctx query start end' w =
     collect (decodeTraceMatches ev sched) (QueryTraceQL g db ctx query start end' w)"

definition GetTrace :: "gojson \<Rightarrow> DB \<Rightarrow> nat option \<Rightarrow> string \<Rightarrow> 'db world \<Rightarrow> 'db opened_rows" where
  "GetTrace g db ctx traceID = send_query g db ctx opGetTrace (getTraceReq_fields \<lparr>gt_TraceID = traceID\<rparr>)"

definition GetTraceSpans ::
  "'db env \<Rightarrow> gojson \<Rightarrow> event list list \<Rightarrow> DB \<Rightarrow> nat option \<Rightarrow> string \<Rightarrow> 'db world \<Rightarrow>
   Span list result option \<times> 'db world" where
  "GetTraceSpans ev g sched db ctx traceID w =
     collect (drain_rows ev span_row sched) (GetTrace g db ctx traceID w)"

section \<open>\<open>results.go\<close>, \<open>traces_search.go\<close>, \<open>trace_tree.go\<close>\<close>

definition QueryLogsTyped ::
  "'db env \<Rightarrow> gojson \<Rightarrow> event list list \<Rightarrow> DB \<Rightarrow> nat option \<Rightarrow> LogQuery \<Rightarrow> 'db world \<Rightarrow>
   LogEntry list result option \<times> 'db world" where
  "QueryLogsTyped ev g sched db ctx q w =
     collect (decodeLogEntries ev sched) (QueryLogs g db ctx q w)"

definition QueryMetricsTyped ::
  "'db env \<Rightarrow> gojson \<Rightarrow> event list list \<Rightarrow> DB \<Rightarrow> nat option \<Rightarrow> MetricQuery \<Rightarrow> 'db world \<Rightarrow>
   Series list result option \<times> 'db world" where
  "QueryMetricsTyped ev g sched db ctx q w =
     collect (decode_matrix ev (mq_GroupBy q) sched) (QueryMetrics g db ctx q w)"

definition QuerySpanMetricsTyped ::
  "'db env \<Rightarrow> gojson \<Rightarrow> event list list \<Rightarrow> DB \<Rightarrow> nat option \<Rightarrow> SpanMetricsQuery \<Rightarrow> 'db world \<Rightarrow>
   SpanMetricPoint list result option \<times> 'db world" where
  "QuerySpanMetricsTyped ev g sched db ctx q w =
     collect (drain_rows ev (span_metric_row (sq_GroupBy q)) sched) (QuerySpanMetrics g db ctx q w)"

definition SearchTraces ::
  "'db env \<Rightarrow> gojson \<Rightarrow> event list list \<Rightarrow> DB \<Rightarrow> nat option \<Rightarrow> TraceQuery \<Rightarrow> 'db world \<Rightarrow>
   TraceSummary list result option \<times> 'db world" where
  "SearchTraces ev g sched db ctx q w =
     collect (drain_rows ev trace_summary_row sched)
       (send_query g db ctx opTraceSearch (TraceQuery_fields q) w)"

definition GetTraceForest ::
  "'db env \<Rightarrow> gojson \<Rightarrow> event list list \<Rightarrow> DB \<Rightarrow> nat option \<Rightarrow> string \<Rightarrow> 'db world \<Rightarrow>
   TraceNode list result option \<times> 'db world" where
  "GetTraceForest ev g sched db ctx traceID w =
     (case GetTraceSpans ev g sched db ctx traceID w of
        (Some (Inr spans), w') \<Rightarrow> (map_option Inr (AssembleTrace spans), w')
      | (Some (Inl e), w') \<Rightarrow> (Some (Inl e), w')
      | (None, w') \<Rightarrow> (None, w'))"

section \<open>What a typed query returns\<close>

text \<open>A process that can run a query to its end: nothing is cancelled, refused or lost on the way.\<close>

definition ready :: "'db env \<Rightarrow> nat option \<Rightarrow> event list list \<Rightarrow> 'db world \<Rightarrow> bool" where
  "ready ev ctx sched w \<longleftrightarrow> winv w \<and> admits w \<and> qid_fresh (w_query_ctr w + 1) w \<and>
     slot_fetch_ok ev (w_query_ctr w + 1) \<and> (\<forall>b. ev_import ev b = ImportOk \<and> ev_to_ffi ev b = None) \<and>
     ctx_err ctx w = None \<and> list_all (not_cancelled ctx) sched"

text \<open>How the handler for an op answers a payload on a database handle.\<close>

definition answer :: "'db env \<Rightarrow> 'db world \<Rightarrow> DB \<Rightarrow> u32 \<Rightarrow> bytes \<Rightarrow> string + item list" where
  "answer ev w db op payload = handler_reply ev op payload (w_dbs w (db_id db))"

lemma items_plan_all:
  "(\<And>b. ev_to_ffi ev b = None) \<Longrightarrow> items_plan ev (map Item bs) = (bs, None)"
  by (induction bs) auto

lemma collect_stream:
  assumes "ready ev ctx sched w"
  shows "case answer ev w db op payload of
      Inl m \<Rightarrow> m \<noteq> [] \<longrightarrow> dec_all dec [] acc = Some acc \<longrightarrow>
        fst (collect (\<lambda>r w. drain ev dec sched r w acc) (openStream db ctx op payload w)) =
          Some (Inl (ErrorString (''imbhgo: query failed: '' @ m)))
    | Inr is \<Rightarrow> \<forall>bs out. is = map Item bs \<longrightarrow> dec_all dec bs acc = Some out \<longrightarrow>
        fst (collect (\<lambda>r w. drain ev dec sched r w acc) (openStream db ctx op payload w)) = Some (Inr out)"
proof -
  note rd = assms [unfolded ready_def]
  from rd have o: "winv w" "admits w" "qid_fresh (w_query_ctr w + 1) w" by auto
  from openStream_ok [OF o, of db ctx op payload ev] obtain r w1 where
    open1: "openStream db ctx op payload w = (Inr r, w1)" and live: "live_cursor r w1" and
    r: "r_ctx r = ctx" "r_queryID r = w_query_ctr w + 1" "w_ctx w1 = w_ctx w" and
    view: "rows_view ev r w1 = reply_view ev (answer ev w db op payload)"
    by (auto simp: answer_def)
  obtain res r' w' where d: "drain ev dec sched r w1 acc = (res, r', w')" by (metis prod_cases3)
  have f: "slot_fetch_ok ev (r_queryID r)" "\<And>b. ev_import ev b = ImportOk" using rd r by auto
  have "ctx_err (r_ctx r) w1 = None" "\<forall>es\<in>set sched. not_cancelled (r_ctx r) es"
    using rd r by (auto simp: ctx_err_def list_all_iff split: option.splits)
  with drain_result [OF live f d] have ok: "drain_ok dec (rows_view ev r w1) None acc res" by metis
  have plan: "items_plan ev (map Item bs) = (bs, None)" for bs using rd by (simp add: items_plan_all)
  have c: "fst (collect (\<lambda>r w. drain ev dec sched r w acc) (openStream db ctx op payload w)) = res"
    by (simp add: collect_def open1 d)
  show ?thesis
  proof (cases "answer ev w db op payload")
    case (Inl m)
    with ok view show ?thesis
      unfolding c by (auto simp: reply_view_def drain_ok_def query_err_def split: option.splits sum.splits)
  next
    case (Inr "is")
    show ?thesis unfolding Inr c sum.case
    proof (intro allI impI)
      fix bs out
      assume "is = map Item bs" "dec_all dec bs acc = Some out"
      with ok view Inr plan show "res = Some (Inr out)"
        by (auto simp: reply_view_def drain_ok_def query_err_def split: option.splits sum.splits)
    qed
  qed
qed

lemma collect_answer:
  assumes "ready ev ctx sched w" "answer ev w db op payload = Inr (map Item bs)"
    and "dec_all dec bs acc = Some out"
  shows "fst (collect (\<lambda>r w. drain ev dec sched r w acc) (openStream db ctx op payload w)) = Some (Inr out)"
  using collect_stream [OF assms(1), where db = db and op = op and payload = payload and dec = dec and acc = acc]
    assms(2,3) by auto

lemma collect_error:
  assumes "ready ev ctx sched w" "answer ev w db op payload = Inl m" "m \<noteq> []"
  shows "fst (collect (\<lambda>r w. drain ev dec sched r w acc) (openStream db ctx op payload w)) =
    Some (Inl (ErrorString (''imbhgo: query failed: '' @ m)))"
  using collect_stream [OF assms(1), where db = db and op = op and payload = payload and dec = dec and acc = acc]
    assms(2,3) by auto

text \<open>
  A handler that serves a request type: it reads the payload by the wire struct and answers with the batch
  built from the engine's result for the request it read.
\<close>

definition serves ::
  "'db env \<Rightarrow> rustjson \<Rightarrow> u32 \<Rightarrow> (rustjson \<Rightarrow> members \<Rightarrow> 'w option) \<Rightarrow> ('db \<Rightarrow> 'w \<Rightarrow> batch) \<Rightarrow> bool" where
  "serves ev u op wire reply \<longleftrightarrow>
     (\<forall>p r. Option.bind (serde_object u p) (wire u) = Some r \<longrightarrow>
        ev_parse ev op p = None \<and> (\<forall>d. ev_typed ev op d p = Inr [reply d r]))"

locale served_query = wire_struct fields wire view
  for fields :: "'q \<Rightarrow> gostruct"
    and wire :: "rustjson \<Rightarrow> members \<Rightarrow> 'w option"
    and view :: "'q \<Rightarrow> 'w" +
  fixes op :: u32
    and mk :: "'a list \<Rightarrow> batch"
    and row :: "cols \<Rightarrow> nat \<Rightarrow> 'b option"
    and rep :: "'a \<Rightarrow> 'b"
  assumes op_typed: "op \<noteq> opSQL" "op \<noteq> opLogPage"
    and mk_decodes: "decode_rows row (mk xs) out = Some (out @ map rep xs)"
begin

lemma end_to_end:
  assumes rd: "ready ev ctx sched w" and d: "w_dbs w (db_id db) = Some d"
    and u: "serde_reads u" "struct_ok g u (fields q)"
    and s: "serves ev u op wire (\<lambda>d r. mk (search d r))"
  shows "fst (collect (drain_rows ev row sched) (send_query g db ctx op (fields q) w)) =
    Some (Inr (map rep (search d (view q))))"
proof -
  from round_trip [OF u] obtain t where t: "marshal g (fields q) = Inr t"
    "Option.bind (serde_object u t) (wire u) = Some (view q)"
    by (auto simp: reads_def)
  with s d op_typed have a: "answer ev w db op t = Inr (map Item [mk (search d (view q))])"
    by (simp add: serves_def answer_def handler_reply_def)
  have "dec_all (decode_rows row) [mk (search d (view q))] [] = Some (map rep (search d (view q)))"
    using mk_decodes [of _ "[]"] by simp
  from collect_answer [OF rd a this] t show ?thesis by (simp add: send_query_def drain_rows_def [abs_def])
qed

end

section \<open>A typed query leaves the open streams as they were\<close>

definition closing :: "(rows \<Rightarrow> 'db world \<Rightarrow> 's result option \<times> rows \<times> 'db world) \<Rightarrow> bool" where
  "closing dec \<longleftrightarrow> (\<forall>r w res r' w'. winv w \<longrightarrow> \<not> r_ended r \<longrightarrow> dec r w = (res, r', w') \<longrightarrow>
     winv w' \<and> closes (r_s r) w w')"

lemma same_streams_env_run: "same_streams w (env_run ev es w)"
proof (induction es arbitrary: w)
  case (Cons e es)
  have "same_streams w (env_step ev e w)"
  proof (cases e)
    case (Cancel c x)
    then show ?thesis by (simp add: same_streams_def opened_def)
  qed (simp add: same_streams_producer)
  with Cons.IH [of "env_step ev e w"] show ?case
    by (auto simp: env_run_def intro: same_streams_trans)
qed (simp add: env_run_def)

lemma closes_twice: "closes h w w1 \<Longrightarrow> closes h w1 w2 \<Longrightarrow> closes h w w2"
  by (auto simp: closes_def)

lemma drain_closes:
  "\<not> r_ended r \<Longrightarrow> drain ev dec sched r w acc = (res, r', w') \<Longrightarrow> closes (r_s r) w w'"
proof (induction sched w acc rule: drain_induct [of ev r dec])
  case (pull sched w acc)
  let ?w0 = "env_run ev (events sched) w"
  obtain rec e r1 w1 where n: "Rows_Next ev r ?w0 = ((rec, e), r1, w1)" by (metis prod_cases3 surj_pair)
  note s = Rows_Next_streams [OF n]
  note pre = closes_compose [OF same_streams_env_run [of w ev "events sched"] _ same_streams_refl]
  show ?case
  proof (cases rec)
    case None
    have "(r', w') = Rows_Close ev r1 w1"
      using drain_end [OF n [unfolded None], of dec acc] pull.prems(2) by (simp add: prod_eq_iff)
    then have c: "closes (r_s r1) w1 w'" using closes_Rows_Close by metis
    have "closes (r_s r) ?w0 w'"
    proof (cases "r_ended r1")
      case True
      with s pull.prems(1) have "closes (r_s r) ?w0 w1" by blast
      with c s(1) show ?thesis using closes_twice by metis
    next
      case False
      with s(1,2) c show ?thesis using closes_compose [OF _ _ same_streams_refl] by metis
    qed
    then show ?thesis by (rule pre)
  next
    case (Some pb)
    obtain p b where pb: "pb = (p, b)" by fastforce
    note d = drain_pull [OF n [unfolded Some pb], of dec acc]
    with s(2,5) Some have s1: "same_streams ?w0 w1" by simp
    show ?thesis
    proof (cases "dec b acc")
      case None
      with pull.prems(2) d have "(r', w') = Rows_Close ev r w1" by (simp add: prod_eq_iff)
      then have "closes (r_s r) w1 w'" using closes_Rows_Close by metis
      then have "closes (r_s r) ?w0 w'" using closes_compose [OF s1 _ same_streams_refl] by blast
      then show ?thesis by (rule pre)
    next
      case acc': (Some acc')
      have n': "Rows_Next ev r ?w0 = ((Some (p, b), None), r, w1)" using n Some pb d by simp
      have "drain ev dec (tl sched) r (rec_release p w1) acc' = (res, r', w')"
        using d acc' pull.prems(2) by simp
      from pull.IH [OF n' acc' pull.prems(1) this]
      have "closes (r_s r) (rec_release p w1) w'" .
      moreover have "same_streams w1 (rec_release p w1)"
        by (simp add: same_streams_def opened_def rec_release_def)
      ultimately have "closes (r_s r) w1 w'" using closes_compose [OF _ _ same_streams_refl] by blast
      then have "closes (r_s r) ?w0 w'" using closes_compose [OF s1 _ same_streams_refl] by blast
      then show ?thesis by (rule pre)
    qed
  qed
qed

lemma closing_drain: "closing (\<lambda>r w. drain ev dec sched r w acc)"
  unfolding closing_def by (intro allI impI) (simp add: drain_safe drain_closes)

lemma closing_rows: "closing (drain_rows ev row sched)"
  using closing_drain by (simp add: drain_rows_def [abs_def])

lemma closing_series: "closing (drain_series ev row sched)"
  using closing_drain [of ev "group_batch row" sched "(Map.empty, [])"]
  by (auto simp: closing_def drain_series_def split: prod.splits)

lemma openStream_streams:
  assumes "winv w" "openStream db ctx op payload w = (res, w')"
  shows "winv w'" and "case res of Inl _ \<Rightarrow> same_streams w w'
    | Inr r \<Rightarrow> \<not> r_ended r \<and> (\<forall>h. opened h w' \<longleftrightarrow> opened h w \<or> h = r_s r) \<and> \<not> opened (r_s r) w"
proof -
  let ?w1 = "w\<lparr>w_query_ctr := w_query_ctr w + 1\<rparr>"
  have w1: "winv ?w1" "same_streams w ?w1"
    using assms(1) same_core_winv [of w ?w1] same_streams_core [of w ?w1] by (simp_all add: same_core_def)
  obtain x w2 where o: "sable_open_stream op (stream_frame (db_id db) (w_query_ctr w + 1) payload) ?w1 = (x, w2)"
    by fastforce
  with assms(2) have w2: "w' = w2" by (auto simp: openStream_def queryCtr_Add_def split: sum.splits)
  show "winv w'" using safe_open_stream [OF w1(1) o] w2 by (simp add: safe_step_def)
  have new: "\<not> opened (w_next_stream w) w" using assms(1) by (auto simp: winv_def streams_inv_def opened_def)
  show "case res of Inl _ \<Rightarrow> same_streams w w'
    | Inr r \<Rightarrow> \<not> r_ended r \<and> (\<forall>h. opened h w' \<longleftrightarrow> opened h w \<or> h = r_s r) \<and> \<not> opened (r_s r) w"
    using assms(2) new
    by (auto simp: openStream_def queryCtr_Add_def sable_open_stream_def admits_def reject_def
        same_streams_def opened_def split: if_splits)
qed

text \<open>The same streams are open, and as many operations are in flight.\<close>

definition undisturbed :: "'db world \<Rightarrow> 'db world \<Rightarrow> bool" where
  "undisturbed w w' \<longleftrightarrow> winv w' \<and> (\<forall>h. opened h w' = opened h w) \<and> w_in_flight w' = w_in_flight w"

lemma undisturbedI: "winv w \<Longrightarrow> winv w' \<Longrightarrow> (\<And>h. opened h w' = opened h w) \<Longrightarrow> undisturbed w w'"
  by (simp add: undisturbed_def winv_def streams_inv_def)

lemma collect_open:
  assumes "closing dec" "winv w"
  shows "undisturbed w (snd (collect dec (openStream db ctx op payload w)))"
proof -
  obtain x w1 where o: "openStream db ctx op payload w = (x, w1)" by fastforce
  note os = openStream_streams [OF assms(2) o]
  show ?thesis
  proof (cases x)
    case (Inl e)
    with os assms(2) show ?thesis by (auto simp: collect_def o same_streams_def intro!: undisturbedI)
  next
    case (Inr r)
    obtain res r' w' where d: "dec r w1 = (res, r', w')" by (metis prod_cases3)
    with assms(1) os Inr have "winv w'" "closes (r_s r) w1 w'" by (auto simp: closing_def)
    with os Inr d assms(2) show ?thesis by (auto simp: collect_def o closes_def intro!: undisturbedI)
  qed
qed

lemma collect_query:
  assumes "closing dec" "winv w"
  shows "undisturbed w (snd (collect dec (send_query g db ctx op fs w)))"
proof (cases "marshal g fs")
  case (Inl e)
  with assms show ?thesis by (auto simp: send_query_def collect_def intro: undisturbedI)
qed (use assms collect_open in \<open>simp add: send_query_def\<close>)

lemma closing_logs: "closing (decodeLogEntries ev sched)" "closing (decodeTraceMatches ev sched)"
  using closing_drain by (simp_all add: decodeLogEntries_def [abs_def] decodeTraceMatches_def [abs_def])

lemmas closing_decoders = closing_rows closing_series closing_logs

section \<open>Discovery and search, end to end\<close>

text \<open>The Go struct of each of the engine's.\<close>

definition instant_of :: "string \<times> i64 \<times> f64 \<Rightarrow> InstantSample" where
  "instant_of = (\<lambda>(l, t, v). \<lparr>is_Labels = l, is_Time = t, is_Value = v\<rparr>)"

definition info_of :: "string \<times> string \<times> string option \<times> string \<Rightarrow> MetricInfo" where
  "info_of = (\<lambda>(m, u, t, k). \<lparr>mi_Metric = m, mi_Unit = u, mi_Temporality = or_empty t, mi_Kind = k\<rparr>)"

definition exemplar_of :: "i64 \<times> f64 \<times> string option \<times> string option \<times> string \<Rightarrow> Exemplar" where
  "exemplar_of = (\<lambda>(t, v, tr, sp, a).
     \<lparr>ex_Time = t, ex_Value = v, ex_TraceID = or_empty tr, ex_SpanID = or_empty sp, ex_Attributes = a\<rparr>)"

definition bucket_of :: "i64 \<times> string \<times> u64 \<Rightarrow> VolumeBucket" where
  "bucket_of = (\<lambda>(t, l, c). \<lparr>vb_Time = t, vb_Labels = l, vb_Count = c\<rparr>)"

definition summary_of ::
  "string \<times> string option \<times> string option \<times> i64 \<times> u64 \<times> u64 \<times> bool \<Rightarrow> TraceSummary" where
  "summary_of = (\<lambda>(t, s, n, st, d, c, e).
     \<lparr>ts_TraceID = t, ts_RootService = or_empty s, ts_RootName = or_empty n, ts_StartTime = st,
       ts_DurationNs = d, ts_SpanCount = c, ts_Error = e\<rparr>)"

interpretation instant_query: served_query MetricQuery_fields MetricQuery_wire "\<lambda>q. q"
  opMetricInstant series_batch instant_row instant_of
  by unfold_locales (simp_all add: op_defs instant_of_def rust_batches_decode)

interpretation attr_values_query: served_query attrValuesReq_fields attrValuesReq_wire "\<lambda>q. q"
  opAttrValues "utf8_batch ''value''" "string_row ''value''" "\<lambda>v. v"
  by unfold_locales (simp_all add: op_defs rust_batches_decode)

interpretation metric_series_query: served_query metricSeriesReq_fields metricSeriesReq_wire "\<lambda>q. q"
  opMetricSeries "utf8_batch ''labels''" "string_row ''labels''" "\<lambda>v. v"
  by unfold_locales (simp_all add: op_defs rust_batches_decode)

interpretation exemplars_query: served_query metricSeriesReq_fields metricSeriesReq_wire "\<lambda>q. q"
  opMetricExemplars exemplars_batch exemplar_row exemplar_of
  by unfold_locales (simp_all add: op_defs exemplar_of_def rust_batches_decode)

interpretation log_volume_query: served_query logVolumeRequest_fields logVolumeRequest_wire "\<lambda>q. q"
  opLogVolume log_volume_batch volume_row bucket_of
  by unfold_locales (simp_all add: op_defs bucket_of_def rust_batches_decode)

interpretation trace_search_query: served_query TraceQuery_fields TraceQuery_wire "\<lambda>q. q"
  opTraceSearch trace_search_batch trace_summary_row summary_of
  by unfold_locales (simp_all add: op_defs summary_of_def rust_batches_decode)

lemma no_payload_query:
  assumes "ready ev ctx sched w" "answer ev w db op [] = Inr [Item b]"
    and "decode_rows row b [] = Some out"
  shows "fst (collect (drain_rows ev row sched) (openStream db ctx op [] w)) = Some (Inr out)"
  using collect_answer [OF assms(1), of db op "[]" "[b]" "decode_rows row" "[]" out] assms(2,3)
  by (simp add: drain_rows_def [abs_def])

lemma string_column: "(\<lambda>r. collectStringColumn ev sched r col) = drain_rows ev (string_row col) sched"
  by (simp add: fun_eq_iff collectStringColumn_def drain_rows_def)

lemmas query_defs = AttrNames_def AttrValues_def MetricCatalog_def MetricSeries_def MetricExemplars_def
  LogVolumeBy_def SearchTraces_def QueryMetricInstant_def string_column

definition bad_float :: "'a result \<Rightarrow> bool" where
  "bad_float r \<longleftrightarrow> (\<exists>v \<in> {''NaN'', ''+Inf'', ''-Inf''}. r = Inl (ErrorString (''json: unsupported value: '' @ v)))"

lemma float_members_bad:
  assumes "(k, x) \<in> set m" "\<not> f64_finite x"
  shows "bad_float (float_members g m)"
  using assms
proof (induction g m rule: float_members.induct)
  case (2 g k' y m)
  then show ?case by (cases "f64_finite y") (auto simp: f64_special_def bad_float_def)
qed simp

lemma float_members_good:
  "\<forall>(k, x) \<in> set m. f64_finite x \<Longrightarrow> \<exists>ms. float_members g m = Inr ms"
  by (induction g m rule: float_members.induct) auto

lemma goval_floats_cases:
  "(\<exists>j. goval_json g (GFloats m) = Inr j) \<or> bad_float (goval_json g (GFloats m))"
proof (cases "\<forall>(k, x) \<in> set (sort_key fst m). f64_finite x")
  case True
  from float_members_good [OF this, of g] show ?thesis by auto
next
  case False
  then obtain k x where "(k, x) \<in> set (sort_key fst m)" "\<not> f64_finite x" by auto
  from float_members_bad [OF this, of g] show ?thesis by (auto simp: bad_float_def)
qed

lemma goval_floats_bad:
  assumes "(k, x) \<in> set m" "\<not> f64_finite x"
  shows "bad_float (goval_json g (GFloats m))"
  using float_members_bad [of k x "sort_key fst m" g] assms by (auto simp: bad_float_def)

definition plain_val :: "goval \<Rightarrow> bool" where
  "plain_val v \<longleftrightarrow> (case v of GRaw c \<Rightarrow> False | _ \<Rightarrow> True)"

lemma marshal_members_bad:
  assumes "(n, om, GFloats m) \<in> set fs" "(k, x) \<in> set m" "\<not> f64_finite x"
    and "list_all (\<lambda>(n, om, v). plain_val v) fs"
  shows "bad_float (marshal_members g fs)"
  using assms(1,4)
proof (induction g fs rule: marshal_members.induct)
  case (2 g n' om' v fs)
  show ?case
  proof (cases "om' \<and> go_empty v")
    case True
    with 2 assms(2) show ?thesis by auto
  next
    case False
    have "(\<exists>j. goval_json g v = Inr j) \<or> bad_float (goval_json g v)"
      using 2(4) goval_floats_cases [of g] by (cases v) (auto simp: plain_val_def)
    then show ?thesis
    proof
      assume "\<exists>j. goval_json g v = Inr j"
      then obtain j where j: "goval_json g v = Inr j" ..
      then have "v \<noteq> GFloats m" using goval_floats_bad [OF assms(2,3), of g] by (auto simp: bad_float_def)
      with 2(3) have "(n, om, GFloats m) \<in> set fs" by auto
      with 2(2) [OF False j] 2(4) j False show ?thesis by (auto simp: bad_float_def)
    next
      assume "bad_float (goval_json g v)"
      with False show ?thesis by (cases "goval_json g v") (auto simp: bad_float_def)
    qed
  qed
qed simp

lemma marshal_non_finite:
  assumes "(k, x) \<in> set (lq_AttrGt q @ lq_AttrGe q @ lq_AttrLt q @ lq_AttrLe q)" "\<not> f64_finite x"
  shows "\<exists>v \<in> {''NaN'', ''+Inf'', ''-Inf''}. marshal g (LogQuery_fields q) =
    Inl (ErrorString (''json: unsupported value: '' @ v))"
proof -
  obtain n m where m: "(n, True, GFloats m) \<in> set (LogQuery_fields q)" "(k, x) \<in> set m"
    using assms(1) by (auto simp: LogQuery_fields_def)
  have "bad_float (marshal_members g (LogQuery_fields q))"
    by (rule marshal_members_bad [OF m assms(2)]) (simp add: LogQuery_fields_def plain_val_def)
  then show ?thesis by (auto simp: bad_float_def marshal_def)
qed

section \<open>An engine that reads its requests, for the examples\<close>

definition demo_gojson :: gojson where
  "demo_gojson = \<lparr>gj_float = (\<lambda>x. if x = 0x3FE0000000000000 then ''0.5'' else ''0''), gj_syntax = (\<lambda>_. ''invalid character''),
     gj_mismatch = ''json: cannot unmarshal''\<rparr>"

definition demo_rust :: rustjson where
  "demo_rust = \<lparr>rj_parse = parse_json, rj_float = (\<lambda>l. Some (if l = ''0.5'' then 0x3FE0000000000000 else 0))\<rparr>"

definition serve :: "(rustjson \<Rightarrow> members \<Rightarrow> 'w option) \<Rightarrow> ('w \<Rightarrow> batch) \<Rightarrow> bytes \<Rightarrow> string + batch list" where
  "serve wire reply p =
     (case Option.bind (serde_object demo_rust p) (wire demo_rust) of
        Some r \<Rightarrow> Inr [reply r] | None \<Rightarrow> Inl ''bad request'')"

text \<open>It echoes the request in its answers.\<close>

definition demo_search :: "nat \<Rightarrow> TraceQuery \<Rightarrow> (string \<times> string option \<times> string option \<times> i64 \<times> u64 \<times> u64 \<times> bool) list" where
  "demo_search d q = [(tq_Service q, None, Some (tq_Name q), tq_Start q, 1, 2, True)]"

definition demo_volume :: "nat \<Rightarrow> logVolumeRequest \<Rightarrow> (i64 \<times> string \<times> u64) list" where
  "demo_volume d v = [(lv_StepNs v, concat (lv_GroupBy v), of_nat (length (lq_AttrGt (lv_LogQuery v))))]"

definition demo_instant :: "nat \<Rightarrow> MetricQuery \<Rightarrow> (string \<times> i64 \<times> f64) list" where
  "demo_instant d m = [(mq_Metric m, mq_End m, 1)]"

definition serving_env :: "nat env" where
  "serving_env = demo_env\<lparr>ev_typed := (\<lambda>op d p.
     if op = opTraceSearch then serve TraceQuery_wire (\<lambda>q. trace_search_batch (demo_search d q)) p
     else if op = opLogVolume then serve logVolumeRequest_wire (\<lambda>v. log_volume_batch (demo_volume d v)) p
     else if op = opMetricInstant then serve MetricQuery_wire (\<lambda>m. series_batch (demo_instant d m)) p
     else if op = opAttrNames then Inr [utf8_batch ''name'' [''host'', ''pod'']]
     else if op = opMetricCatalog then Inr [metric_catalog_batch [(''up'', [], None, ''gauge'')]]
     else if op = opAttrValues then serve attrValuesReq_wire (\<lambda>r. utf8_batch ''value'' [ar_Key r]) p
     else if op = opMetricSeries then serve metricSeriesReq_wire (\<lambda>r. utf8_batch ''labels'' [mr_Metric r]) p
     else if op = opMetricExemplars
       then serve metricSeriesReq_wire (\<lambda>r. exemplars_batch [(7, 0, None, Some (mr_Metric r), [])]) p
     else Inl ''unused'')\<rparr>"

lemma demo_float_ok: "float_ok demo_gojson demo_rust 0x3FE0000000000000" "float_ok demo_gojson demo_rust 0"
proof -
  have "is_number ''0.5''" "is_number ''0''" by code_simp+
  then show "float_ok demo_gojson demo_rust 0x3FE0000000000000" "float_ok demo_gojson demo_rust 0"
    by (simp_all add: float_ok_def f64_finite_def demo_gojson_def demo_rust_def)
qed

lemma serde_reads_demo: "serde_reads demo_rust"
  by (simp add: serde_reads_def demo_rust_def parse_print)

lemma serving_serves:
  "serves serving_env demo_rust opTraceSearch TraceQuery_wire (\<lambda>d q. trace_search_batch (demo_search d q))"
  "serves serving_env demo_rust opLogVolume logVolumeRequest_wire (\<lambda>d v. log_volume_batch (demo_volume d v))"
  "serves serving_env demo_rust opMetricInstant MetricQuery_wire (\<lambda>d m. series_batch (demo_instant d m))"
  "serves serving_env demo_rust opAttrValues attrValuesReq_wire (\<lambda>d r. utf8_batch ''value'' [ar_Key r])"
  "serves serving_env demo_rust opMetricSeries metricSeriesReq_wire (\<lambda>d r. utf8_batch ''labels'' [mr_Metric r])"
  "serves serving_env demo_rust opMetricExemplars metricSeriesReq_wire
     (\<lambda>d r. exemplars_batch [(7, 0, None, Some (mr_Metric r), [])])"
  by (simp_all add: serves_def serving_env_def demo_env_def serve_def op_defs)

lemma serving_ready: "ready serving_env (Some 0) [[Produce 0], []] demo_db_world"
  by (simp add: ready_def demo_db_winv demo_db_fields qid_fresh_def slot_fetch_ok_def serving_env_def demo_env_def
      ctx_err_def not_cancelled_def)

definition demo_logs :: LogQuery where
  "demo_logs = \<lparr>lq_Service = ''api'', lq_Match = [], lq_AttrEq = [(''a'', ''1''), (''b'', ''<2>'')], lq_Start = 0, lq_End = -5,
     lq_Limit = 10, lq_Backward = True, lq_TraceID = [], lq_SpanID = [], lq_SeverityAtLeast = 9,
     lq_AttrExists = [''k''], lq_AttrMatches = [], lq_AttrIn = [(''x'', Some [''1'', ''2''])], lq_AttrNotIn = [],
     lq_AttrGt = [(''n'', 0x3FE0000000000000)], lq_AttrGe = [], lq_AttrLt = [], lq_AttrLe = [], lq_AttrRegex = [],
     lq_ObservedAfter = 0, lq_OrderBy = ''time''\<rparr>"

definition demo_traces :: TraceQuery where
  "demo_traces = \<lparr>tq_Service = ''api'', tq_Name = ''GET /'', tq_Status = [], tq_Kind = [], tq_MinDurationNs = 1,
     tq_MaxDurationNs = 0, tq_AttrEq = [(''a'', ''b'')], tq_AttrExists = [], tq_AttrMatches = [], tq_AttrIn = [],
     tq_AttrNotIn = [], tq_AttrGt = [], tq_AttrGe = [], tq_AttrLt = [(''n'', 0)], tq_AttrLe = [], tq_AttrRegex = [],
     tq_Start = -3, tq_End = 9, tq_Limit = 0\<rparr>"

definition demo_metric :: MetricQuery where
  "demo_metric = \<lparr>mq_Metric = ''up'', mq_Sum = True, mq_Step = 60, mq_Start = 0, mq_End = 7, mq_GroupBy = [''host'']\<rparr>"

text \<open>
  C5. The rows a typed query returns are the engine's result for exactly the request the caller passed: the
  request survives \<open>json.Marshal\<close> and the wire struct, the result survives the Arrow batch and the row
  decoder, for any schedule of the handlers.
\<close>
theorem search_end_to_end:
  assumes "ready ev ctx sched w" "w_dbs w (db_id db) = Some d" "serde_reads u"
    and "struct_ok g u (TraceQuery_fields q)"
    and "serves ev u opTraceSearch TraceQuery_wire (\<lambda>d q. trace_search_batch (search d q))"
    and "struct_ok g u (logVolumeRequest_fields v)"
    and "serves ev u opLogVolume logVolumeRequest_wire (\<lambda>d v. log_volume_batch (volume d v))"
    and "struct_ok g u (MetricQuery_fields m)"
    and "serves ev u opMetricInstant MetricQuery_wire (\<lambda>d m. series_batch (instant d m))"
  shows "fst (SearchTraces ev g sched db ctx q w) = Some (Inr (map summary_of (search d q))) \<and>
    fst (LogVolumeBy ev g sched db ctx (lv_LogQuery v) (lv_StepNs v) (lv_GroupBy v) w) =
      Some (Inr (map bucket_of (volume d v))) \<and>
    fst (QueryMetricInstant ev g sched db ctx m w) = Some (Inr (map instant_of (instant d m)))"
  using trace_search_query.end_to_end [OF assms(1-5)] log_volume_query.end_to_end [OF assms(1-3,6,7)]
    instant_query.end_to_end [OF assms(1-3,8,9)]
  by (cases v) (simp add: query_defs)

theorem search_end_to_end_witness:
  "fst (SearchTraces serving_env demo_gojson [[Produce 0], []] \<lparr>db_id = 1\<rparr> (Some 0) demo_traces demo_db_world) =
     Some (Inr [\<lparr>ts_TraceID = ''api'', ts_RootService = [], ts_RootName = ''GET /'', ts_StartTime = -3,
       ts_DurationNs = 1, ts_SpanCount = 2, ts_Error = True\<rparr>]) \<and>
   fst (LogVolumeBy serving_env demo_gojson [[Produce 0], []] \<lparr>db_id = 1\<rparr> (Some 0) demo_logs 60 [''k''] demo_db_world) =
     Some (Inr [\<lparr>vb_Time = 60, vb_Labels = ''k'', vb_Count = 1\<rparr>])"
proof -
  have db: "w_dbs demo_db_world (db_id \<lparr>db_id = 1\<rparr>) = Some 0" by (simp add: demo_db_fields)
  let ?v = "\<lparr>lv_LogQuery = demo_logs, lv_StepNs = 60, lv_GroupBy = [''k'']\<rparr>"
  have ok: "struct_ok demo_gojson demo_rust (TraceQuery_fields demo_traces)"
    "struct_ok demo_gojson demo_rust (logVolumeRequest_fields ?v)"
    "struct_ok demo_gojson demo_rust (MetricQuery_fields demo_metric)"
    by (simp_all add: struct_ok_def TraceQuery_fields_def logVolumeRequest_fields_def LogQuery_fields_def
        MetricQuery_fields_def demo_traces_def demo_logs_def demo_metric_def map_ok_def set_ok_def
        demo_float_ok utf8_valid_ascii)
  note e = search_end_to_end [OF serving_ready db serde_reads_demo ok(1) serving_serves(1) ok(2) serving_serves(2)
      ok(3) serving_serves(3)]
  then show ?thesis
    by (simp add: demo_search_def demo_volume_def summary_of_def bucket_of_def or_empty_def demo_traces_def)
      (simp add: demo_logs_def)
qed

text \<open>
  The catalog methods return what the engine lists, whatever the names, keys and metrics are: attribute
  names and values, the metric catalog, the series and the exemplars of a metric.
\<close>
theorem catalog_end_to_end:
  assumes "ready ev ctx sched w" "w_dbs w (db_id db) = Some d" "serde_reads u" "utf8_valid key" "utf8_valid metric"
    and "answer ev w db opAttrNames [] = Inr [Item (utf8_batch ''name'' names)]"
    and "answer ev w db opMetricCatalog [] = Inr [Item (metric_catalog_batch infos)]"
    and "serves ev u opAttrValues attrValuesReq_wire (\<lambda>d r. utf8_batch ''value'' (vals d (ar_Key r)))"
    and "serves ev u opMetricSeries metricSeriesReq_wire (\<lambda>d r. utf8_batch ''labels'' (series d (mr_Metric r)))"
    and "serves ev u opMetricExemplars metricSeriesReq_wire (\<lambda>d r. exemplars_batch (exemplars d (mr_Metric r)))"
  shows "fst (AttrNames ev sched db ctx w) = Some (Inr names) \<and>
    fst (MetricCatalog ev sched db ctx w) = Some (Inr (map info_of infos)) \<and>
    fst (AttrValues ev g sched db ctx key w) = Some (Inr (vals d key)) \<and>
    fst (MetricSeries ev g sched db ctx metric w) = Some (Inr (series d metric)) \<and>
    fst (MetricExemplars ev g sched db ctx metric w) = Some (Inr (map exemplar_of (exemplars d metric)))"
proof -
  have ok: "struct_ok g u (attrValuesReq_fields \<lparr>ar_Key = key\<rparr>)" "struct_ok g u (metricSeriesReq_fields \<lparr>mr_Metric = metric\<rparr>)"
    using assms(4,5) by (simp_all add: struct_ok_def attrValuesReq_fields_def metricSeriesReq_fields_def utf8_valid_ascii)
  have "fst (AttrNames ev sched db ctx w) = Some (Inr names)"
    unfolding query_defs by (rule no_payload_query [OF assms(1,6)]) (simp add: rust_batches_decode)
  moreover have "fst (MetricCatalog ev sched db ctx w) = Some (Inr (map info_of infos))"
    unfolding query_defs by (rule no_payload_query [OF assms(1,7)]) (simp add: rust_batches_decode info_of_def)
  ultimately show ?thesis
    using attr_values_query.end_to_end [OF assms(1-3) ok(1) assms(8)]
      metric_series_query.end_to_end [OF assms(1-3) ok(2) assms(9)]
      exemplars_query.end_to_end [OF assms(1-3) ok(2) assms(10)]
    by (simp add: query_defs)
qed

theorem catalog_end_to_end_witness:
  "fst (AttrNames serving_env [[Produce 0], []] \<lparr>db_id = 1\<rparr> (Some 0) demo_db_world) = Some (Inr [''host'', ''pod'']) \<and>
   fst (AttrValues serving_env demo_gojson [[Produce 0], []] \<lparr>db_id = 1\<rparr> (Some 0) ''a\"b'' demo_db_world) =
     Some (Inr [''a\"b''])"
proof -
  have db: "w_dbs demo_db_world (db_id \<lparr>db_id = 1\<rparr>) = Some 0" by (simp add: demo_db_fields)
  have a: "answer serving_env demo_db_world \<lparr>db_id = 1\<rparr> opAttrNames [] = Inr [Item (utf8_batch ''name'' [''host'', ''pod''])]"
    "answer serving_env demo_db_world \<lparr>db_id = 1\<rparr> opMetricCatalog [] =
       Inr [Item (metric_catalog_batch [(''up'', [], None, ''gauge'')])]"
    by (simp_all add: answer_def handler_reply_def demo_db_fields serving_env_def demo_env_def op_defs)
  have v: "utf8_valid ''a\"b''" "utf8_valid ''up''" by (simp_all add: utf8_valid_ascii)
  note e = catalog_end_to_end [OF serving_ready db serde_reads_demo v a, where
      vals = "\<lambda>d k. [k]" and series = "\<lambda>d m. [m]" and exemplars = "\<lambda>d m. [(7, 0, None, Some m, [])]"]
  from e [OF serving_serves(4,5,6), of demo_gojson] show ?thesis by simp
qed

text \<open>
  C16. Whatever happens (a request that cannot be marshalled, a refused stream, a failing query, a cancelled
  context, a panicking reader), a typed query leaves the process as it found it: the same streams are
  open, the same number of operations is in flight, and no batch has been freed twice or lost.
\<close>
theorem typed_query_closes:
  assumes "winv w"
  shows "undisturbed w (snd (QueryLogsTyped ev g sched db ctx q w)) \<and>
    undisturbed w (snd (QueryMetricsTyped ev g sched db ctx m w)) \<and>
    undisturbed w (snd (QueryMetricInstant ev g sched db ctx m w)) \<and>
    undisturbed w (snd (QueryMetricPointsTyped ev g sched db ctx pt w)) \<and>
    undisturbed w (snd (QuerySpanMetricsTyped ev g sched db ctx sm w)) \<and>
    undisturbed w (snd (QueryPromQLSeries ev g sched db ctx txt a b c w)) \<and>
    undisturbed w (snd (QueryLogQLLines ev g sched db ctx txt a b c w)) \<and>
    undisturbed w (snd (QueryLogQLSeries ev g sched db ctx txt a b c w)) \<and>
    undisturbed w (snd (QueryTraceQLMatches ev g sched db ctx txt a b w)) \<and>
    undisturbed w (snd (GetTraceForest ev g sched db ctx txt w)) \<and>
    undisturbed w (snd (SearchTraces ev g sched db ctx tq w)) \<and>
    undisturbed w (snd (AttrNames ev sched db ctx w)) \<and>
    undisturbed w (snd (LogVolumeBy ev g sched db ctx q a ks w))"
proof -
  have "snd (GetTraceForest ev g sched db ctx txt w) = snd (GetTraceSpans ev g sched db ctx txt w)"
    by (simp add: GetTraceForest_def split: prod.splits option.splits sum.splits)
  then show ?thesis
    by (simp add: query_defs QueryLogsTyped_def QueryLogs_def QueryMetricsTyped_def QueryMetrics_def
        decode_matrix_def QueryMetricPointsTyped_def QueryMetricPoints_def QuerySpanMetricsTyped_def
        QuerySpanMetrics_def QueryPromQLSeries_def QueryPromQL_def lgtmStream_def lgtmStreamLimit_def
        QueryLogQLLines_def QueryLogQLSeries_def QueryLogQL_def QueryTraceQLMatches_def QueryTraceQL_def
        GetTraceSpans_def GetTrace_def decodeLabeledSeries_def
        collect_query [OF _ assms] collect_open [OF _ assms] closing_decoders)
qed

theorem typed_query_closes_witness:
  "undisturbed demo_db_world (snd (GetTraceForest demo_env demo_gojson [] \<lparr>db_id = 1\<rparr> None ''00'' demo_db_world))"
  using typed_query_closes [OF demo_db_winv] by blast

text \<open>
  C27. A query with a filter bound that is not a number (NaN or an infinity) is refused by \<open>json.Marshal\<close>:
  the method returns that error and nothing is sent or opened.
\<close>
theorem non_finite_bound_refused:
  assumes "(k, x) \<in> set (lq_AttrGt q @ lq_AttrGe q @ lq_AttrLt q @ lq_AttrLe q)" "\<not> f64_finite x"
  shows "\<exists>v. v \<in> {''NaN'', ''+Inf'', ''-Inf''} \<and>
    QueryLogs g db ctx q w = (Inl (ErrorString (''json: unsupported value: '' @ v)), w) \<and>
    CountLogs ev g db c q w = (Inl (ErrorString (''json: unsupported value: '' @ v)), w)"
proof -
  obtain v where "v \<in> {''NaN'', ''+Inf'', ''-Inf''}"
    "marshal g (LogQuery_fields q) = Inl (ErrorString (''json: unsupported value: '' @ v))"
    using marshal_non_finite [OF assms, of g] by blast
  then show ?thesis by (simp add: QueryLogs_def CountLogs_def send_query_def)
qed

theorem non_finite_bound_refused_witness:
  "\<exists>v. QueryLogs demo_gojson \<lparr>db_id = 1\<rparr> None (demo_logs\<lparr>lq_AttrLe := [(''n'', 0x7FF8000000000000)]\<rparr>) demo_db_world =
     (Inl (ErrorString (''json: unsupported value: '' @ v)), demo_db_world)"
proof -
  have "(''n'', 0x7FF8000000000000) \<in> set (lq_AttrGt (demo_logs\<lparr>lq_AttrLe := [(''n'', 0x7FF8000000000000)]\<rparr>) @
      lq_AttrGe (demo_logs\<lparr>lq_AttrLe := [(''n'', 0x7FF8000000000000)]\<rparr>) @
      lq_AttrLt (demo_logs\<lparr>lq_AttrLe := [(''n'', 0x7FF8000000000000)]\<rparr>) @
      lq_AttrLe (demo_logs\<lparr>lq_AttrLe := [(''n'', 0x7FF8000000000000)]\<rparr>))" by simp
  moreover have "\<not> f64_finite 0x7FF8000000000000" by (simp add: f64_finite_def)
  ultimately show ?thesis using non_finite_bound_refused by blast
qed

end
