(* ===== verification/Ops.thy ===== *)
theory Ops
  imports Replies Queries
begin

text \<open>
  The byte-Call methods: administration (\<open>ops.go\<close>), ingest with and without backpressure (\<open>ingest.go\<close>), the
  options-configured open (\<open>admin.go\<close>) and the leak-gate counters (\<open>debug.go\<close>). A method that returns
  \<open>(value, error)\<close> with a meaningless value on error is modelled by its error alone.
\<close>

section \<open>\<open>ops.go\<close>\<close>

definition opStats :: u32 where "opStats = 23"
definition opMaintain :: u32 where "opMaintain = 24"
definition opCompact :: u32 where "opCompact = 25"
definition opSegments :: u32 where "opSegments = 27"
definition opDurableThrough :: u32 where "opDurableThrough = 29"

lemmas [op_defs] = opStats_def opMaintain_def opCompact_def opSegments_def opDurableThrough_def

type_synonym Table = string

text \<open>A nil \<open>args\<close> is \<open>None\<close>; a map argument is written like a struct with its keys in order.\<close>

definition callOp ::
  "'db env \<Rightarrow> gojson \<Rightarrow> DB \<Rightarrow> u32 \<Rightarrow> gostruct option \<Rightarrow> 'db world \<Rightarrow> bytes result \<times> 'db world" where
  "callOp ev g db op args w =
     (case (case args of None \<Rightarrow> Inr [] | Some fs \<Rightarrow> marshal g fs) of
        Inl e \<Rightarrow> (Inl e, w)
      | Inr body \<Rightarrow> sable_call ev op (call_frame (db_id db) body) w)"

definition callOpJSON ::
  "'db env \<Rightarrow> gojson \<Rightarrow> DB \<Rightarrow> u32 \<Rightarrow> gostruct option \<Rightarrow> 'r setter \<Rightarrow> 'r \<Rightarrow> 'db world \<Rightarrow> 'r result \<times> 'db world" where
  "callOpJSON ev g db op args un zero w =
     (case callOp ev g db op args w of
        (Inl e, w') \<Rightarrow> (Inl e, w')
      | (Inr resp, w') \<Rightarrow> (unmarshal g un zero resp, w'))"

definition Stats :: "'db env \<Rightarrow> gojson \<Rightarrow> DB \<Rightarrow> 'db world \<Rightarrow> DbStats result \<times> 'db world" where
  "Stats ev g db = callOpJSON ev g db opStats None (DbStats_un g) DbStats_zero"

definition Maintain :: "'db env \<Rightarrow> gojson \<Rightarrow> DB \<Rightarrow> 'db world \<Rightarrow> MaintenanceReport result \<times> 'db world" where
  "Maintain ev g db = callOpJSON ev g db opMaintain None (MaintenanceReport_un g) MaintenanceReport_zero"

definition Compact :: "'db env \<Rightarrow> gojson \<Rightarrow> DB \<Rightarrow> 'db world \<Rightarrow> CompactionReport result \<times> 'db world" where
  "Compact ev g db = callOpJSON ev g db opCompact None (CompactionReport_un g) CompactionReport_zero"

definition Snapshot :: "'db env \<Rightarrow> gojson \<Rightarrow> DB \<Rightarrow> string \<Rightarrow> 'db world \<Rightarrow> SnapshotInfo result \<times> 'db world" where
  "Snapshot ev g db dir =
     callOpJSON ev g db opSnapshot (Some [(''dir'', False, GStr dir)]) (SnapshotInfo_un g) SnapshotInfo_zero"

definition Segments :: "'db env \<Rightarrow> gojson \<Rightarrow> DB \<Rightarrow> 'db world \<Rightarrow> SegmentRef list result \<times> 'db world" where
  "Segments ev g db = callOpJSON ev g db opSegments None (segments_un g) []"

definition SegmentFiles :: "'db env \<Rightarrow> gojson \<Rightarrow> DB \<Rightarrow> Table \<Rightarrow> 'db world \<Rightarrow> string list result \<times> 'db world" where
  "SegmentFiles ev g db table =
     callOpJSON ev g db opSegmentFiles (Some [(''table'', False, GStr table)]) (files_un g) []"

definition DurableThrough :: "'db env \<Rightarrow> gojson \<Rightarrow> DB \<Rightarrow> 'db world \<Rightarrow> (u64 \<times> bool) result \<times> 'db world" where
  "DurableThrough ev g db w =
     (case callOpJSON ev g db opDurableThrough None (durable_un g) None w of
        (Inl e, w') \<Rightarrow> (Inl e, w')
      | (Inr None, w') \<Rightarrow> (Inr (0, False), w')
      | (Inr (Some lsn), w') \<Rightarrow> (Inr (lsn, True), w'))"

definition Export ::
  "'db env \<Rightarrow> gojson \<Rightarrow> DB \<Rightarrow> Table \<Rightarrow> i64 \<Rightarrow> i64 \<Rightarrow> 'db world \<Rightarrow> bytes result \<times> 'db world" where
  "Export ev g db table startNs endNs =
     callOp ev g db opExport (Some [(''end'', False, GInt (sint endNs)), (''start'', False, GInt (sint startNs)),
       (''table'', False, GStr table)])"

subsection \<open>The records of an export\<close>

text \<open>
  \<open>ipc.Reader\<close> holds one reference to its current record and gives it up on the next \<open>Next\<close> and on
  \<open>Release\<close>; a record is freed when its count reaches 0. Records are numbered in reading order. What the
  reader makes of the bytes is a parameter: it refuses them, or yields some records and then ends with or
  without an error.
\<close>

record arc =
  rc :: "nat \<Rightarrow> nat"
  cur :: "nat option"
  nxt :: nat
  over :: nat

definition arc_release :: "nat \<Rightarrow> arc \<Rightarrow> arc" where
  "arc_release i s = (if rc s i = 0 then s\<lparr>over := Suc (over s)\<rparr> else s\<lparr>rc := (rc s)(i := rc s i - 1)\<rparr>)"

definition arc_retain :: "nat \<Rightarrow> arc \<Rightarrow> arc" where
  "arc_retain i s = s\<lparr>rc := (rc s)(i := Suc (rc s i))\<rparr>"

definition reader_drop :: "arc \<Rightarrow> arc" where
  "reader_drop s = (case cur s of None \<Rightarrow> s | Some i \<Rightarrow> (arc_release i s)\<lparr>cur := None\<rparr>)"

definition reader_next :: "arc \<Rightarrow> arc" where
  "reader_next s = (let s1 = reader_drop s in
     s1\<lparr>rc := (rc s1)(nxt s1 := 1), cur := Some (nxt s1), nxt := Suc (nxt s1)\<rparr>)"

fun export_loop :: "batch list \<Rightarrow> arc \<Rightarrow> (nat \<times> batch) list \<Rightarrow> (nat \<times> batch) list \<times> arc" where
  "export_loop [] s recs = (recs, reader_drop s)"
| "export_loop (b # bs) s recs =
     (let s1 = reader_next s; i = the (cur s1) in export_loop bs (arc_retain i s1) (recs @ [(i, b)]))"

definition arc_init :: arc where
  "arc_init = \<lparr>rc = (\<lambda>_. 0), cur = None, nxt = 0, over = 0\<rparr>"

definition decode_export ::
  "(bytes \<Rightarrow> goerr + (batch list \<times> goerr option)) \<Rightarrow> bytes \<Rightarrow> (nat \<times> batch) list result \<times> arc" where
  "decode_export ipc raw =
     (case ipc raw of
        Inl e \<Rightarrow> (Inl e, arc_init)
      | Inr (bs, end') \<Rightarrow>
          (case export_loop bs arc_init [] of (recs, s) \<Rightarrow>
             (case end' of
                Some e \<Rightarrow> (Inl e, reader_drop (fold (\<lambda>(i, b). arc_release i) recs s))
              | None \<Rightarrow> (Inr recs, reader_drop s))))"

definition ExportRecords ::
  "'db env \<Rightarrow> gojson \<Rightarrow> (bytes \<Rightarrow> goerr + (batch list \<times> goerr option)) \<Rightarrow> DB \<Rightarrow> Table \<Rightarrow> i64 \<Rightarrow> i64 \<Rightarrow> 'db world \<Rightarrow>
   ((nat \<times> batch) list result \<times> arc) \<times> 'db world" where
  "ExportRecords ev g ipc db table startNs endNs w =
     (case Export ev g db table startNs endNs w of
        (Inl e, w') \<Rightarrow> ((Inl e, arc_init), w')
      | (Inr raw, w') \<Rightarrow> (decode_export ipc raw, w'))"

section \<open>\<open>ingest.go\<close>\<close>

definition ingest :: "'db env \<Rightarrow> DB \<Rightarrow> u32 \<Rightarrow> bytes \<Rightarrow> 'db world \<Rightarrow> Receipt result \<times> 'db world" where
  "ingest ev db op otlp w =
     (case sable_call ev op (call_frame (db_id db) otlp) w of
        (Inl e, w') \<Rightarrow> (Inl e, w')
      | (Inr resp, w') \<Rightarrow> (decodeReceipt resp, w'))"

definition IngestOTLPLogs :: "'db env \<Rightarrow> DB \<Rightarrow> bytes \<Rightarrow> 'db world \<Rightarrow> Receipt result \<times> 'db world" where
  "IngestOTLPLogs ev db = ingest ev db opIngestLogs"

definition IngestOTLPTraces :: "'db env \<Rightarrow> DB \<Rightarrow> bytes \<Rightarrow> 'db world \<Rightarrow> Receipt result \<times> 'db world" where
  "IngestOTLPTraces ev db = ingest ev db opIngestTraces"

definition IngestOTLPMetrics :: "'db env \<Rightarrow> DB \<Rightarrow> bytes \<Rightarrow> 'db world \<Rightarrow> Receipt result \<times> 'db world" where
  "IngestOTLPMetrics ev db = ingest ev db opIngestMetrics"

definition Flush :: "'db env \<Rightarrow> DB \<Rightarrow> 'db world \<Rightarrow> goerr option \<times> 'db world" where
  "Flush ev db w =
     (case sable_call ev opFlush (put64 (db_id db)) w of
        (Inl e, w') \<Rightarrow> (Some e, w')
      | (Inr _, w') \<Rightarrow> (None, w'))"

definition tryIngest :: "'db env \<Rightarrow> DB \<Rightarrow> u32 \<Rightarrow> bytes \<Rightarrow> 'db world \<Rightarrow> Receipt result \<times> 'db world" where
  "tryIngest ev db op otlp w =
     (case sable_try_call ev op (call_frame (db_id db) otlp) w of
        (Inl e, w') \<Rightarrow> (Inl e, w')
      | (Inr resp, w') \<Rightarrow> (decodeReceipt resp, w'))"

definition TryIngestOTLPLogs :: "'db env \<Rightarrow> DB \<Rightarrow> bytes \<Rightarrow> 'db world \<Rightarrow> Receipt result \<times> 'db world" where
  "TryIngestOTLPLogs ev db = tryIngest ev db opIngestLogs"

definition TryIngestOTLPTraces :: "'db env \<Rightarrow> DB \<Rightarrow> bytes \<Rightarrow> 'db world \<Rightarrow> Receipt result \<times> 'db world" where
  "TryIngestOTLPTraces ev db = tryIngest ev db opIngestTraces"

definition TryIngestOTLPMetrics :: "'db env \<Rightarrow> DB \<Rightarrow> bytes \<Rightarrow> 'db world \<Rightarrow> Receipt result \<times> 'db world" where
  "TryIngestOTLPMetrics ev db = tryIngest ev db opIngestMetrics"

text \<open>The counters of \<open>RuntimeStats\<close> that the documentation of this package names.\<close>

record RuntimeCounters =
  InFlight :: nat
  RejectedCalls :: nat
  MaxInFlight :: nat

definition RuntimeStats :: "'db world \<Rightarrow> RuntimeCounters" where
  "RuntimeStats w = \<lparr>InFlight = w_in_flight w, RejectedCalls = w_rejected w, MaxInFlight = w_max_in_flight w\<rparr>"

section \<open>\<open>admin.go\<close> and \<open>debug.go\<close>\<close>

definition OpenWith :: "'db env \<Rightarrow> gojson \<Rightarrow> DbOptions \<Rightarrow> 'db world \<Rightarrow> DB result \<times> 'db world" where
  "OpenWith ev g opts w =
     (case marshal g (DbOptions_fields opts) of
        Inl e \<Rightarrow> (Inl e, w)
      | Inr b \<Rightarrow> open_handle ev (OpenOptions b) (''open database at '' @ do_Path opts) w)"

definition liveBatches :: "'db world \<Rightarrow> int" where
  "liveBatches w = w_live_batches w"

definition liveDBs :: "'db world \<Rightarrow> nat" where
  "liveDBs w = card (dom (w_dbs w))"

definition pendingQueryErrors :: "'db world \<Rightarrow> nat" where
  "pendingQueryErrors w = card (dom (w_query_errors w))"

section \<open>Replies of the engine reach the caller\<close>

lemma sable_call_admin:
  assumes "w_dbs w (db_id db) = Some d" "ev_call_err ev op (call_frame (db_id db) body) = None" "22 < op" "op < 31"
    and "reads_args op \<Longrightarrow> ev_parse ev op body = None" "ev_admin ev op d body = (r, d')"
  shows "sable_call ev op (call_frame (db_id db) body) w =
    (map_sum ErrorString id r, w\<lparr>w_dbs := (w_dbs w)(db_id db \<mapsto> d')\<rparr>)"
proof -
  have "op \<noteq> opQueryError \<and> op \<noteq> opLogPageMeta \<and> op \<noteq> opIngestLogs \<and> op \<noteq> opIngestTraces \<and>
      op \<noteq> opIngestMetrics \<and> op \<noteq> opFlush \<and> op \<noteq> opLogCount"
    using assms(3,4) by (auto simp: op_defs)
  with assms show ?thesis
    by (simp add: sable_call_def byte_handler_def admin_handler_def with_db_def)
qed

text \<open>An administrative op that the engine answers with a text that parses to a reply.\<close>

definition replies :: "'db env \<Rightarrow> u32 \<Rightarrow> 'db \<Rightarrow> u64 \<Rightarrow> bytes \<Rightarrow> json \<Rightarrow> bool" where
  "replies ev op d i body j \<longleftrightarrow> ev_call_err ev op (call_frame i body) = None \<and>
     (reads_args op \<longrightarrow> ev_parse ev op body = None) \<and>
     (\<exists>t. fst (ev_admin ev op d body) = Inr t \<and> parse_json t = Some j)"

lemma callOpJSON_reply:
  assumes "w_dbs w (db_id db) = Some d" "22 < op" "op < 31"
    and "(case args of None \<Rightarrow> Inr [] | Some fs \<Rightarrow> marshal g fs) = Inr body"
    and "replies ev op d (db_id db) body j" "un j zero = Inr x"
  shows "fst (callOpJSON ev g db op args un zero w) = Inr x"
proof -
  obtain t d' where t: "ev_admin ev op d body = (Inr t, d')" "parse_json t = Some j"
    using assms(5) by (auto simp: replies_def prod_eq_iff)
  from sable_call_admin [OF assms(1) _ assms(2,3) _ t(1)] assms(5)
  have "sable_call ev op (call_frame (db_id db) body) w = (Inr t, w\<lparr>w_dbs := (w_dbs w)(db_id db \<mapsto> d')\<rparr>)"
    by (simp add: replies_def)
  with assms(4,6) t(2) show ?thesis by (simp add: callOpJSON_def callOp_def unmarshal_def)
qed

lemma marshal_pair: "utf8_valid s \<Longrightarrow> marshal g [(k, False, GStr s)] = Inr (print_json (JObj [(k, JStr s)]))"
  by (simp add: marshal_def)

text \<open>
  Every administrative method returns exactly what the engine reported, field by field: the statistics
  with their per-table entries and absent times, the maintenance and compaction reports, the snapshot,
  the segments, the files of a table, and the durable LSN with the flag that tells 0 from none.
\<close>
theorem admin_replies_read_back:
  assumes "w_dbs w (db_id db) = Some d" "utf8_valid dir" "utf8_valid table"
    and "replies ev opStats d (db_id db) [] (DbStats_json s)"
    and "replies ev opMaintain d (db_id db) [] (MaintenanceReport_json m)"
    and "replies ev opCompact d (db_id db) [] (CompactionReport_json c)"
    and "replies ev opSnapshot d (db_id db) (print_json (JObj [(''dir'', JStr dir)])) (SnapshotInfo_json i)"
    and "replies ev opSegments d (db_id db) [] (JArr (map SegmentRef_json segs))"
    and "replies ev opSegmentFiles d (db_id db) (print_json (JObj [(''table'', JStr table)])) (strs_json files)"
    and "replies ev opDurableThrough d (db_id db) [] (JObj [(''durable_lsn'', opt_json u64_json lsn)])"
  shows "fst (Stats ev g db w) = Inr s \<and> fst (Maintain ev g db w) = Inr m \<and> fst (Compact ev g db w) = Inr c \<and>
    fst (Snapshot ev g db dir w) = Inr i \<and> fst (Segments ev g db w) = Inr segs \<and>
    fst (SegmentFiles ev g db table w) = Inr files \<and>
    fst (DurableThrough ev g db w) = Inr (case lsn of None \<Rightarrow> (0, False) | Some l \<Rightarrow> (l, True))"
proof -
  note r = callOpJSON_reply [OF assms(1)]
  have "fst (callOpJSON ev g db opDurableThrough None (durable_un g) None w) = Inr lsn"
    by (rule r [OF _ _ _ assms(10)]) (simp_all add: op_defs durable.un_wire)
  then have dur: "fst (DurableThrough ev g db w) = Inr (case lsn of None \<Rightarrow> (0, False) | Some l \<Rightarrow> (l, True))"
    by (auto simp: DurableThrough_def split: prod.splits sum.splits option.splits)
  show ?thesis
  proof (intro conjI dur)
    show "fst (Stats ev g db w) = Inr s"
      unfolding Stats_def by (rule r [OF _ _ _ assms(4)]) (simp_all add: op_defs stats.un_wire)
    show "fst (Maintain ev g db w) = Inr m"
      unfolding Maintain_def by (rule r [OF _ _ _ assms(5)]) (simp_all add: op_defs maintenance.un_wire)
    show "fst (Compact ev g db w) = Inr c"
      unfolding Compact_def by (rule r [OF _ _ _ assms(6)]) (simp_all add: op_defs compaction.un_wire)
    show "fst (Snapshot ev g db dir w) = Inr i"
      unfolding Snapshot_def
      by (rule r [OF _ _ _ assms(7)]) (use assms(2) in \<open>simp_all add: op_defs snapshot.un_wire marshal_pair del: print_json.simps\<close>)
    show "fst (Segments ev g db w) = Inr segs"
      unfolding Segments_def by (rule r [OF _ _ _ assms(8)]) (simp_all add: op_defs segments.un_wire)
    show "fst (SegmentFiles ev g db table w) = Inr files"
      unfolding SegmentFiles_def
      by (rule r [OF _ _ _ assms(9)]) (use assms(3) in \<open>simp_all add: op_defs segment_files.un_wire marshal_pair del: print_json.simps\<close>)
  qed
qed

definition demo_stats :: DbStats where
  "demo_stats = DbStats_zero\<lparr>ds_Tables := [TableStats_zero\<lparr>ta_Table := ''logs'', ta_MinTimeUnixNano := Some (-1)\<rparr>],
     ds_DurableLSN := Some 7, ds_IngestRejected := 18446744073709551615\<rparr>"

definition ops_env :: "nat env" where
  "ops_env = demo_env\<lparr>ev_admin := (\<lambda>op d b. (Inr (print_json (
     if op = opStats then DbStats_json demo_stats
     else if op = opMaintain then MaintenanceReport_json \<lparr>mn_Sealed = True, mn_SegmentsDropped = 1, mn_BytesFreed = 2\<rparr>
     else if op = opCompact then CompactionReport_json \<lparr>co_SegmentsMerged = 3, co_SegmentsCreated = 1\<rparr>
     else if op = opSnapshot then SnapshotInfo_json \<lparr>sn_Dir = ''/s'', sn_Segments = 4\<rparr>
     else if op = opSegments then JArr (map SegmentRef_json [])
     else if op = opSegmentFiles then strs_json [''a.arrow'']
     else JObj [(''durable_lsn'', opt_json u64_json (Some 7))])), d))\<rparr>"

lemma ops_env_replies:
  "replies ops_env opStats d i b (DbStats_json demo_stats)"
  "replies ops_env opMaintain d i b (MaintenanceReport_json \<lparr>mn_Sealed = True, mn_SegmentsDropped = 1, mn_BytesFreed = 2\<rparr>)"
  "replies ops_env opCompact d i b (CompactionReport_json \<lparr>co_SegmentsMerged = 3, co_SegmentsCreated = 1\<rparr>)"
  "replies ops_env opSnapshot d i b (SnapshotInfo_json \<lparr>sn_Dir = ''/s'', sn_Segments = 4\<rparr>)"
  "replies ops_env opSegments d i b (JArr (map SegmentRef_json []))"
  "replies ops_env opSegmentFiles d i b (strs_json [''a.arrow''])"
  "replies ops_env opDurableThrough d i b (JObj [(''durable_lsn'', opt_json u64_json (Some 7))])"
proof -
  have wf: "wf_json (u64_json n)" "wf_json (i64_json n)" "wf_json (opt_json u64_json v)" "wf_json (opt_json i64_json v)" for n v
    by (cases v; simp add: u64_json_def i64_json_def opt_json_def int_text_is_number)+
  have p: "parse_json (print_json j) = Some j" if "wf_json j" for j using that by (rule parse_print)
  note defs = replies_def ops_env_def demo_env_def op_defs DbStats_json_def demo_stats_def DbStats_zero_def
    TableStats_json_def TableStats_zero_def MaintenanceReport_json_def CompactionReport_json_def
    SnapshotInfo_json_def
  show "replies ops_env opStats d i b (DbStats_json demo_stats)"
    "replies ops_env opMaintain d i b (MaintenanceReport_json \<lparr>mn_Sealed = True, mn_SegmentsDropped = 1, mn_BytesFreed = 2\<rparr>)"
    "replies ops_env opCompact d i b (CompactionReport_json \<lparr>co_SegmentsMerged = 3, co_SegmentsCreated = 1\<rparr>)"
    "replies ops_env opSnapshot d i b (SnapshotInfo_json \<lparr>sn_Dir = ''/s'', sn_Segments = 4\<rparr>)"
    "replies ops_env opSegments d i b (JArr (map SegmentRef_json []))"
    "replies ops_env opSegmentFiles d i b (strs_json [''a.arrow''])"
    "replies ops_env opDurableThrough d i b (JObj [(''durable_lsn'', opt_json u64_json (Some 7))])"
    by (simp_all add: defs p wf utf8_valid_ascii del: print_json.simps)
qed

theorem admin_replies_read_back_witness:
  "fst (Stats ops_env demo_gojson \<lparr>db_id = 1\<rparr> demo_db_world) = Inr demo_stats \<and>
   fst (DurableThrough ops_env demo_gojson \<lparr>db_id = 1\<rparr> demo_db_world) = Inr (7, True)"
proof -
  have db: "w_dbs demo_db_world (db_id \<lparr>db_id = 1\<rparr>) = Some 0" by (simp add: demo_db_fields)
  have v: "utf8_valid ''/s''" "utf8_valid ''logs''" by (simp_all add: utf8_valid_ascii)
  from admin_replies_read_back [OF db v ops_env_replies] show ?thesis by simp
qed

section \<open>A closed handle\<close>

lemma sable_call_closed:
  assumes "w_dbs w i = None" "op \<notin> {opQueryError, opLogPageMeta, opLogCount}" "\<not> reads_args op"
    and "ev_call_err ev op (call_frame i body) = None"
  shows "sable_call ev op (call_frame i body) w = (Inl (ErrorString ''imbhgo: unknown db handle''), w)"
  using assms
  by (simp add: sable_call_def byte_handler_def ingest_handler_def flush_handler_def admin_handler_def with_db_def)



section \<open>Ingest and backpressure\<close>

lemma ingest_cases:
  assumes "op \<in> {opIngestLogs, opIngestTraces, opIngestMetrics}"
  shows "ingest ev db op otlp w =
    (case ev_call_err ev op (call_frame (db_id db) otlp) of
       Some e \<Rightarrow> (Inl e, w)
     | None \<Rightarrow>
         (case w_dbs w (db_id db) of
            None \<Rightarrow> (Inl (ErrorString ''imbhgo: unknown db handle''), w)
          | Some d \<Rightarrow>
              (case ev_ingest ev op d otlp of (r, d') \<Rightarrow>
                 (case r of Inl e \<Rightarrow> Inl (ErrorString e) | Inr x \<Rightarrow> decodeReceipt (encode_receipt x),
                  w\<lparr>w_dbs := (w_dbs w)(db_id db \<mapsto> d')\<rparr>))))"
proof -
  have n: "op \<noteq> opQueryError" "op \<noteq> opLogPageMeta" using assms by (auto simp: op_defs)
  have c: "sable_call ev op req w = (case ev_call_err ev op req of Some e \<Rightarrow> (Inl e, w)
      | None \<Rightarrow> (case ingest_handler ev op req w of (r, w') \<Rightarrow> (map_sum ErrorString id r, w')))" for req
  proof -
    have "byte_handler ev op req w = ingest_handler ev op req w"
      using assms n unfolding byte_handler_def by (simp only: if_False if_True) auto
    then show ?thesis by (simp add: sable_call_def cong: option.case_cong)
  qed
  show ?thesis
  proof (cases "ev_call_err ev op (call_frame (db_id db) otlp)")
    case None
    show ?thesis
    proof (cases "w_dbs w (db_id db)")
      case (Some d)
      obtain r d' where "ev_ingest ev op d otlp = (r, d')" by fastforce
      with None Some show ?thesis by (cases r) (simp_all add: ingest_def c ingest_handler_def with_db_def)
    qed (use None in \<open>simp add: ingest_def c ingest_handler_def with_db_def\<close>)
  qed (simp add: ingest_def c)
qed

text \<open>
  C30. What the engine answers to an ingest is what the caller gets: the counts, the LSN (0 for none) and
  the two flags of its receipt, or its error; the database the call left behind is the engine's.
\<close>
theorem ingest_receipt:
  assumes "w_dbs w (db_id db) = Some d" "ev_call_err ev op (call_frame (db_id db) otlp) = None"
    and "op \<in> {opIngestLogs, opIngestTraces, opIngestMetrics}" "ev_ingest ev op d otlp = (r, d')"
  shows "ingest ev db op otlp w =
    (case r of
       Inl e \<Rightarrow> Inl (ErrorString e)
     | Inr x \<Rightarrow> Inr \<lparr>Accepted = ir_accepted x, Rejected = ir_rejected x,
         LSN = (case ir_lsn x of Some l \<Rightarrow> l | None \<Rightarrow> 0), Durable = ir_durable x, Queued = ir_queued x\<rparr>,
     w\<lparr>w_dbs := (w_dbs w)(db_id db \<mapsto> d')\<rparr>)"
  unfolding ingest_cases [OF assms(3)] using assms(1,2,4) decodeReceipt_encode [where rest = "[]"]
  by (cases r) simp_all

theorem ingest_receipt_witness:
  "fst (ingest demo_env \<lparr>db_id = 1\<rparr> opIngestTraces ''abc'' demo_db_world) =
     Inr \<lparr>Accepted = 3, Rejected = 0, LSN = 7, Durable = True, Queued = False\<rparr>"
proof -
  have db: "w_dbs demo_db_world (db_id \<lparr>db_id = 1\<rparr>) = Some 0" by (simp add: demo_db_fields)
  have e: "ev_call_err demo_env opIngestTraces (call_frame (db_id \<lparr>db_id = 1\<rparr>) ''abc'') = None"
    "opIngestTraces \<in> {opIngestLogs, opIngestTraces, opIngestMetrics}"
    "ev_ingest demo_env opIngestTraces 0 ''abc'' = (Inr \<lparr>ir_accepted = 3, ir_rejected = 0, ir_lsn = Some 7,
       ir_durable = True, ir_queued = False\<rparr>, 1)"
    by (simp_all add: demo_env_def)
  show ?thesis by (subst ingest_receipt [OF db e]) simp
qed



section \<open>The references of an export\<close>

lemma upt_first: "[n..<Suc (n + k)] = n # [Suc n..<Suc (n + k)]"
  by (rule upt_conv_Cons) simp

lemma export_loop_state:
  assumes "export_loop bs s recs = (recs', s')" "over s = 0"
    and "case cur s of None \<Rightarrow> rc s = (\<lambda>j. if j < nxt s then 1 else 0)
      | Some i \<Rightarrow> Suc i = nxt s \<and> rc s = (\<lambda>j. if j = i then 2 else if j < nxt s then 1 else 0)"
  shows "recs' = recs @ zip [nxt s..<nxt s + length bs] bs \<and>
    rc s' = (\<lambda>j. if j < nxt s + length bs then 1 else 0) \<and> cur s' = None \<and> over s' = 0"
  using assms
proof (induction bs s recs arbitrary: recs' s' rule: export_loop.induct)
  case (1 s recs)
  then show ?case by (auto simp: reader_drop_def arc_release_def fun_eq_iff split: option.splits)
next
  case (2 b bs s recs)
  let ?s1 = "arc_retain (nxt s) (reader_next s)"
  have d: "rc (reader_drop s) = (\<lambda>j. if j < nxt s then 1 else 0)" "over (reader_drop s) = 0" "nxt (reader_drop s) = nxt s"
    using 2(3,4) by (auto simp: reader_drop_def arc_release_def fun_eq_iff split: option.splits)
  have s1: "cur ?s1 = Some (nxt s)" "nxt ?s1 = Suc (nxt s)" "over ?s1 = 0"
    "rc ?s1 = (\<lambda>j. if j = nxt s then 2 else if j < Suc (nxt s) then 1 else 0)"
    using d by (auto simp: reader_next_def arc_retain_def Let_def fun_eq_iff)
  have i: "the (cur (reader_next s)) = nxt s" using d by (simp add: reader_next_def Let_def)
  have e: "export_loop bs ?s1 (recs @ [(nxt s, b)]) = (recs', s')"
    using 2(2) by (simp add: Let_def i)
  have c: "case cur ?s1 of None \<Rightarrow> rc ?s1 = (\<lambda>j. if j < nxt ?s1 then 1 else 0)
      | Some i \<Rightarrow> Suc i = nxt ?s1 \<and> rc ?s1 = (\<lambda>j. if j = i then 2 else if j < nxt ?s1 then 1 else 0)"
    using s1 by (simp cong: if_cong)
  note ih = 2(1) [OF refl refl, unfolded i, OF e s1(3) c, unfolded s1(2)]
  then show ?case by (simp add: upt_first del: upt.simps)
qed

lemma release_records:
  "rc s = (\<lambda>j. if j < n + length bs \<and> n \<le> j then 1 else 0) \<Longrightarrow> over s = 0 \<Longrightarrow>
   rc (fold (\<lambda>(i, b). arc_release i) (zip [n..<n + length bs] bs) s) = (\<lambda>_. 0) \<and>
   over (fold (\<lambda>(i, b). arc_release i) (zip [n..<n + length bs] bs) s) = 0 \<and>
   cur (fold (\<lambda>(i, b). arc_release i) (zip [n..<n + length bs] bs) s) = cur s"
proof (induction bs arbitrary: n s)
  case (Cons b bs)
  have "rc (arc_release n s) = (\<lambda>j. if j < Suc n + length bs \<and> Suc n \<le> j then 1 else 0)"
    "over (arc_release n s) = 0" "cur (arc_release n s) = cur s"
    using Cons.prems by (auto simp: arc_release_def fun_eq_iff)
  with Cons.IH [of "arc_release n s" "Suc n"] show ?case by (simp add: upt_first del: upt.simps)
qed auto

text \<open>
  C32. The reference counts of an export come out even: the records returned are the ones the reader
  yielded, in order, each held exactly once (the caller's \<open>Release\<close> frees it); when reading fails every
  record is freed, and no count ever goes below zero.
\<close>
theorem export_references:
  assumes "decode_export ipc raw = (res, s)"
  shows "over s = 0 \<and>
    (case res of
       Inr recs \<Rightarrow> (\<exists>bs. ipc raw = Inr (bs, None) \<and> map snd recs = bs \<and> distinct (map fst recs) \<and>
         rc s = (\<lambda>i. if i \<in> fst ` set recs then 1 else 0))
     | Inl e \<Rightarrow> rc s = (\<lambda>_. 0) \<and> (ipc raw = Inl e \<or> (\<exists>bs. ipc raw = Inr (bs, Some e))))"
proof (cases "ipc raw")
  case (Inl e)
  with assms show ?thesis by (auto simp: decode_export_def arc_init_def)
next
  case (Inr p)
  obtain bs end' where p: "p = (bs, end')" by (cases p)
  obtain recs s1 where l: "export_loop bs arc_init [] = (recs, s1)" by fastforce
  from export_loop_state [OF this] have s1: "recs = zip [0..<length bs] bs"
    "rc s1 = (\<lambda>j. if j < length bs then 1 else 0)" "cur s1 = None" "over s1 = 0"
    by (simp_all add: arc_init_def)
  show ?thesis
  proof (cases end')
    case None
    with assms Inr p l s1 show ?thesis
      by (auto simp: decode_export_def reader_drop_def fun_eq_iff simp flip: set_map)
  next
    case (Some e)
    have rl: "rc (fold (\<lambda>(i, b). arc_release i) recs s1) = (\<lambda>_. 0) \<and>
        over (fold (\<lambda>(i, b). arc_release i) recs s1) = 0 \<and> cur (fold (\<lambda>(i, b). arc_release i) recs s1) = cur s1"
      using release_records [of s1 0 bs] s1 by simp
    with assms Inr p l s1 Some show ?thesis by (auto simp: decode_export_def reader_drop_def)
  qed
qed

theorem export_references_witness:
  "rc (snd (decode_export (\<lambda>_. Inr ([demo_batch [''a''], demo_batch []], Some (ErrorString ''truncated''))) ''x'')) = (\<lambda>_. 0)"
proof -
  obtain res s where d: "decode_export (\<lambda>_. Inr ([demo_batch [''a''], demo_batch []], Some (ErrorString ''truncated''))) ''x'' = (res, s)"
    by fastforce
  from export_references [OF this] show ?thesis unfolding d by (cases res) auto
qed

section \<open>Opening with options\<close>

text \<open>
  \<open>imbhgo_open_opts\<close> reads the options by the wire struct and hands them to the engine's builder.
\<close>

definition opens_with :: "'db env \<Rightarrow> rustjson \<Rightarrow> (DbOptions \<Rightarrow> string + 'db) \<Rightarrow> bool" where
  "opens_with ev u build \<longleftrightarrow> (\<forall>t opts. Option.bind (serde_object u t) (DbOptions_wire u) = Some opts \<longrightarrow>
     ev_open ev (OpenOptions t) = build opts)"

text \<open>
  An open with options builds the database from exactly the options the caller set: on success one
  handle is registered for it, on failure the error names the path and the builder's reason and its slot
  is cleared.
\<close>
theorem OpenWith_builds_options:
  assumes "serde_reads u" "struct_ok g u (DbOptions_fields opts)" "opens_with ev u build"
  shows "(\<forall>d. build opts = Inr d \<longrightarrow> w_db_ctr w \<noteq> 0 \<longrightarrow>
      OpenWith ev g opts w = (Inr \<lparr>db_id = w_db_ctr w\<rparr>,
        w\<lparr>w_query_ctr := w_query_ctr w + 1, w_db_ctr := w_db_ctr w + 1, w_dbs := (w_dbs w)(w_db_ctr w \<mapsto> d)\<rparr>)) \<and>
    (\<forall>e. build opts = Inl e \<longrightarrow> e \<noteq> [] \<longrightarrow> w_query_ctr w + 1 \<noteq> 0 \<longrightarrow> slot_fetch_ok ev (w_query_ctr w + 1) \<longrightarrow>
      OpenWith ev g opts w = (Inl (ErrorString (''imbhgo: open database at '' @ do_Path opts @ '': '' @ e)),
        w\<lparr>w_query_ctr := w_query_ctr w + 1, w_query_errors := (w_query_errors w)(w_query_ctr w + 1 := None)\<rparr>))"
proof -
  obtain t where t: "marshal g (DbOptions_fields opts) = Inr t"
    "Option.bind (serde_object u t) (DbOptions_wire u) = Some opts"
    using db_options.round_trip [OF assms(1,2)] by (auto simp: db_options.reads_def)
  with assms(3) have "open_reply ev (OpenOptions t) = build opts" by (simp add: open_reply_def opens_with_def)
  with t show ?thesis by (simp add: OpenWith_def open_handle_success open_handle_failure)
qed

definition demo_options :: DbOptions where
  "demo_options = \<lparr>do_Path = ''/data'', do_ReadOnly = False, do_AllowStaleReads = True, do_MemoryBudgetBytes = 1024,
     do_Compression = ''zstd'', do_ZstdLevel = -1, do_WalMode = [], do_WalIntervalNs = 0, do_RetentionDays = 7,
     do_MaxDiskBytes = 0, do_Refresh = [], do_RefreshTtlNs = 0, do_MaintenanceBackgroundNs = 0, do_Flush = ''manual'',
     do_Duplicates = [], do_PromoteKeys = [''k'']\<rparr>"

definition options_env :: "nat env" where
  "options_env = demo_env\<lparr>ev_open := (\<lambda>rq. case rq of OpenOptions t \<Rightarrow>
       (case Option.bind (serde_object demo_rust t) (DbOptions_wire demo_rust) of
          Some opts \<Rightarrow> if do_ZstdLevel opts = -1 then Inr 0 else Inl ''bad level''
        | None \<Rightarrow> Inl ''bad options JSON'')
     | _ \<Rightarrow> Inl ''unused'')\<rparr>"

theorem OpenWith_builds_options_witness:
  "fst (OpenWith options_env demo_gojson demo_options init_world) = Inr \<lparr>db_id = 1\<rparr>"
proof -
  have ok: "struct_ok demo_gojson demo_rust (DbOptions_fields demo_options)"
    by (simp add: struct_ok_def DbOptions_fields_def demo_options_def utf8_valid_ascii)
  have "opens_with options_env demo_rust (\<lambda>opts. if do_ZstdLevel opts = -1 then Inr 0 else Inl ''bad level'')"
    by (simp add: opens_with_def options_env_def)
  from OpenWith_builds_options [OF serde_reads_demo ok this, of init_world]
  show ?thesis by (simp add: demo_options_def init_world_def)
qed

section \<open>All requests\<close>



end
