(* ===== verification/Handlers.thy ===== *)
theory Handlers
  imports Ops
begin

text \<open>
  The handlers behind the administrative ops and the options-configured open, on the Rust side
  (\<open>rust/src/lib.rs\<close>): they read their arguments, call one method of the engine and serialize its report.
  The engine's methods are the fields of \<open>imbh_db\<close>; what \<open>serde_json\<close> reads and writes and how Rust quotes a
  string in a message are the fields of \<open>serde\<close>.
\<close>

section \<open>Arguments\<close>

record serde =
  sd_read :: rustjson
  sd_error :: "bytes \<Rightarrow> string"
  sd_write :: "json \<Rightarrow> bytes"
  sd_debug :: "string \<Rightarrow> string"

record ExportArgs =
  ea_table :: string
  ea_start :: i64
  ea_end :: i64

definition SnapshotArgs_wire :: "rustjson \<Rightarrow> members \<Rightarrow> string option" where
  "SnapshotArgs_wire u ms = field ''dir'' r_str [] ms"

definition TableArg_wire :: "rustjson \<Rightarrow> members \<Rightarrow> string option" where
  "TableArg_wire u ms = field ''table'' r_str [] ms"

definition ExportArgs_wire :: "rustjson \<Rightarrow> members \<Rightarrow> ExportArgs option" where
  "ExportArgs_wire u ms = do {
     table \<leftarrow> field ''table'' r_str [] ms;
     start \<leftarrow> field ''start'' r_i64 0 ms;
     end' \<leftarrow> field ''end'' r_i64 0 ms;
     Some \<lparr>ea_table = table, ea_start = start, ea_end = end'\<rparr> }"

text \<open>The arguments after the handle: an empty body stands for the defaults.\<close>

definition json_args :: "serde \<Rightarrow> (rustjson \<Rightarrow> members \<Rightarrow> 'a option) \<Rightarrow> 'a \<Rightarrow> bytes \<Rightarrow> string + 'a" where
  "json_args s wire dflt body =
     (if body = [] then Inr dflt
      else case Option.bind (serde_object (sd_read s) body) (wire (sd_read s)) of
             Some a \<Rightarrow> Inr a
           | None \<Rightarrow> Inl (''imbhgo: bad args: '' @ sd_error s body))"

section \<open>The engine\<close>

text \<open>
  A time range is \<open>None\<close> for all of time, else its two ends. A method that may change the database
  returns it; the listings do not.
\<close>

record 'db imbh_db =
  im_tables :: "string list"
  im_stats :: "'db \<Rightarrow> string + DbStats"
  im_maintain :: "'db \<Rightarrow> (string + MaintenanceReport) \<times> 'db"
  im_compact :: "'db \<Rightarrow> (string + CompactionReport) \<times> 'db"
  im_snapshot :: "'db \<Rightarrow> string \<Rightarrow> (string + SnapshotInfo) \<times> 'db"
  im_segments :: "'db \<Rightarrow> SegmentRef list"
  im_segment_files :: "'db \<Rightarrow> string \<Rightarrow> string list"
  im_durable_through :: "'db \<Rightarrow> u64 option"
  im_export :: "'db \<Rightarrow> string \<Rightarrow> (i64 \<times> i64) option \<Rightarrow> string + bytes"

definition table_from_str :: "'db imbh_db \<Rightarrow> string \<Rightarrow> string option" where
  "table_from_str im t = find (\<lambda>x. x = t) (im_tables im)"

definition known_table :: "'db imbh_db \<Rightarrow> serde \<Rightarrow> string \<Rightarrow> string + string" where
  "known_table im s t =
     (case table_from_str im t of Some x \<Rightarrow> Inr x | None \<Rightarrow> Inl (''imbhgo: unknown table '' @ sd_debug s t))"

definition export_range :: "i64 \<Rightarrow> i64 \<Rightarrow> (i64 \<times> i64) option" where
  "export_range start end' = (if start = 0 \<and> end' = 0 then None else Some (start, end'))"

section \<open>The handlers\<close>

text \<open>
  What a handler with arguments makes of its body before it looks the database up, and what each handler
  answers on a database.
\<close>

definition snapshot_args :: "serde \<Rightarrow> bytes \<Rightarrow> string + string" where
  "snapshot_args s body =
     (case json_args s SnapshotArgs_wire [] body of
        Inl e \<Rightarrow> Inl e
      | Inr dir \<Rightarrow> if dir = [] then Inl ''imbhgo: snapshot requires a destination dir'' else Inr dir)"

definition segment_files_args :: "'db imbh_db \<Rightarrow> serde \<Rightarrow> bytes \<Rightarrow> string + string" where
  "segment_files_args im s body =
     (case json_args s TableArg_wire [] body of Inl e \<Rightarrow> Inl e | Inr t \<Rightarrow> known_table im s t)"

definition export_args :: "'db imbh_db \<Rightarrow> serde \<Rightarrow> bytes \<Rightarrow> string + (string \<times> (i64 \<times> i64) option)" where
  "export_args im s body =
     (case json_args s ExportArgs_wire \<lparr>ea_table = [], ea_start = 0, ea_end = 0\<rparr> body of
        Inl e \<Rightarrow> Inl e
      | Inr a \<Rightarrow> map_sum id (\<lambda>t. (t, export_range (ea_start a) (ea_end a))) (known_table im s (ea_table a)))"

definition stats_handler :: "'db imbh_db \<Rightarrow> serde \<Rightarrow> 'db \<Rightarrow> (string + bytes) \<times> 'db" where
  "stats_handler im s d = (map_sum id (\<lambda>x. sd_write s (DbStats_json x)) (im_stats im d), d)"

definition maintain_handler :: "'db imbh_db \<Rightarrow> serde \<Rightarrow> 'db \<Rightarrow> (string + bytes) \<times> 'db" where
  "maintain_handler im s d = map_prod (map_sum id (\<lambda>x. sd_write s (MaintenanceReport_json x))) id (im_maintain im d)"

definition compact_handler :: "'db imbh_db \<Rightarrow> serde \<Rightarrow> 'db \<Rightarrow> (string + bytes) \<times> 'db" where
  "compact_handler im s d = map_prod (map_sum id (\<lambda>x. sd_write s (CompactionReport_json x))) id (im_compact im d)"

definition snapshot_handler :: "'db imbh_db \<Rightarrow> serde \<Rightarrow> 'db \<Rightarrow> bytes \<Rightarrow> (string + bytes) \<times> 'db" where
  "snapshot_handler im s d body =
     (case snapshot_args s body of
        Inl e \<Rightarrow> (Inl e, d)
      | Inr dir \<Rightarrow> map_prod (map_sum id (\<lambda>x. sd_write s (SnapshotInfo_json x))) id (im_snapshot im d dir))"

definition segments_handler :: "'db imbh_db \<Rightarrow> serde \<Rightarrow> 'db \<Rightarrow> (string + bytes) \<times> 'db" where
  "segments_handler im s d = (Inr (sd_write s (JArr (map SegmentRef_json (im_segments im d)))), d)"

definition segment_files_handler :: "'db imbh_db \<Rightarrow> serde \<Rightarrow> 'db \<Rightarrow> bytes \<Rightarrow> (string + bytes) \<times> 'db" where
  "segment_files_handler im s d body =
     (map_sum id (\<lambda>t. sd_write s (strs_json (im_segment_files im d t))) (segment_files_args im s body), d)"

definition durable_through_handler :: "'db imbh_db \<Rightarrow> serde \<Rightarrow> 'db \<Rightarrow> (string + bytes) \<times> 'db" where
  "durable_through_handler im s d =
     (Inr (sd_write s (JObj [(''durable_lsn'', opt_json u64_json (im_durable_through im d))])), d)"

definition export_handler :: "'db imbh_db \<Rightarrow> serde \<Rightarrow> 'db \<Rightarrow> bytes \<Rightarrow> (string + bytes) \<times> 'db" where
  "export_handler im s d body =
     (case export_args im s body of Inl e \<Rightarrow> Inl e | Inr (t, r) \<Rightarrow> im_export im d t r, d)"

text \<open>The registrations of \<open>imbhgo_init\<close> for these ops.\<close>

definition admin_parse :: "'db imbh_db \<Rightarrow> serde \<Rightarrow> u32 \<Rightarrow> bytes \<Rightarrow> string option" where
  "admin_parse im s op body =
     (if op = opSnapshot then (case snapshot_args s body of Inl e \<Rightarrow> Some e | Inr _ \<Rightarrow> None)
      else if op = opSegmentFiles then (case segment_files_args im s body of Inl e \<Rightarrow> Some e | Inr _ \<Rightarrow> None)
      else if op = opExport then (case export_args im s body of Inl e \<Rightarrow> Some e | Inr _ \<Rightarrow> None)
      else None)"

definition admin_run :: "'db imbh_db \<Rightarrow> serde \<Rightarrow> u32 \<Rightarrow> 'db \<Rightarrow> bytes \<Rightarrow> (string + bytes) \<times> 'db" where
  "admin_run im s op d body =
     (if op = opStats then stats_handler im s d
      else if op = opMaintain then maintain_handler im s d
      else if op = opCompact then compact_handler im s d
      else if op = opSnapshot then snapshot_handler im s d body
      else if op = opSegments then segments_handler im s d
      else if op = opSegmentFiles then segment_files_handler im s d body
      else if op = opDurableThrough then durable_through_handler im s d
      else export_handler im s d body)"

definition admin_handlers :: "'db imbh_db \<Rightarrow> serde \<Rightarrow> 'db env \<Rightarrow> 'db env" where
  "admin_handlers im s ev = ev\<lparr>
     ev_parse := (\<lambda>op p. if reads_args op then admin_parse im s op p else ev_parse ev op p),
     ev_admin := admin_run im s\<rparr>"

section \<open>From the caller to the engine\<close>

text \<open>What \<open>serde_json\<close> promises of what it writes, and the strings of the engine are Rust strings.\<close>

definition serde_writes :: "serde \<Rightarrow> bool" where
  "serde_writes s \<longleftrightarrow> (\<forall>j. wf_json j \<longrightarrow> parse_json (sd_write s j) = Some j)"

definition text_reports :: "'db imbh_db \<Rightarrow> bool" where
  "text_reports im \<longleftrightarrow>
     (\<forall>d x. im_stats im d = Inr x \<longrightarrow> list_all (\<lambda>t. utf8_valid (ta_Table t)) (ds_Tables x)) \<and>
     (\<forall>d dir x. fst (im_snapshot im d dir) = Inr x \<longrightarrow> utf8_valid (sn_Dir x)) \<and>
     (\<forall>d. list_all (\<lambda>x. utf8_valid (sr_RelativePath x)) (im_segments im d)) \<and>
     (\<forall>d t. list_all utf8_valid (im_segment_files im d t))"

lemma sable_call_bad_args:
  assumes "reads_args op" "ev_parse ev op body = Some e" "ev_call_err ev op (call_frame i body) = None"
  shows "sable_call ev op (call_frame i body) w = (Inl (ErrorString e), w)"
proof -
  have "op \<noteq> opQueryError \<and> op \<noteq> opLogPageMeta \<and> op \<noteq> opIngestLogs \<and> op \<noteq> opIngestTraces \<and>
      op \<noteq> opIngestMetrics \<and> op \<noteq> opFlush \<and> op \<noteq> opLogCount"
    using assms(1) by (auto simp: reads_args_def op_defs)
  with assms show ?thesis by (simp add: sable_call_def byte_handler_def admin_handler_def)
qed

lemma wf_reports:
  "list_all (\<lambda>t. utf8_valid (ta_Table t)) (ds_Tables x) \<Longrightarrow> wf_json (DbStats_json x)"
  "wf_json (MaintenanceReport_json m)" "wf_json (CompactionReport_json c)"
  "utf8_valid (sn_Dir i) \<Longrightarrow> wf_json (SnapshotInfo_json i)"
  "list_all (\<lambda>x. utf8_valid (sr_RelativePath x)) segs \<Longrightarrow> wf_json (JArr (map SegmentRef_json segs))"
  "list_all utf8_valid files \<Longrightarrow> wf_json (strs_json files)"
  "wf_json (JObj [(''durable_lsn'', opt_json u64_json v)])"
  by (simp_all add: DbStats_json_def TableStats_json_def MaintenanceReport_json_def CompactionReport_json_def
      SnapshotInfo_json_def SegmentRef_json_def strs_json_def list_all_iff utf8_valid_ascii)

interpretation snapshot_request: wire_struct "\<lambda>dir. [(''dir'', False, GStr dir)]" SnapshotArgs_wire "\<lambda>x. x"
  by unfold_locales (simp add: SnapshotArgs_wire_def field_def named_written read_back)

interpretation table_request: wire_struct "\<lambda>t. [(''table'', False, GStr t)]" TableArg_wire "\<lambda>x. x"
  by unfold_locales (simp add: TableArg_wire_def field_def named_written read_back)

interpretation export_request: wire_struct "\<lambda>a. [(''end'', False, GInt (sint (ea_end a))),
    (''start'', False, GInt (sint (ea_start a))), (''table'', False, GStr (ea_table a))]" ExportArgs_wire "\<lambda>x. x"
  by unfold_locales (simp add: ExportArgs_wire_def field_def named_written read_back)

lemma json_args_marshal:
  assumes "marshal g fs = Inr t" "Option.bind (serde_object (sd_read s) t) (wire (sd_read s)) = Some a"
  shows "json_args s wire dflt t = Inr a"
proof -
  have "t \<noteq> []" using assms(1) by (cases "marshal_members g fs") (auto simp: marshal_def)
  with assms(2) show ?thesis by (simp add: json_args_def)
qed

text \<open>A byte call on an open database answers what its handler answers.\<close>

lemma callOp_admin:
  assumes "w_dbs w (db_id db) = Some d" "ev_call_err ev op (call_frame (db_id db) body) = None" "22 < op" "op < 31"
    and "(case args of None \<Rightarrow> Inr [] | Some fs \<Rightarrow> marshal g fs) = Inr body"
  shows "callOp (admin_handlers im s ev) g db op args w =
    (case (if reads_args op then admin_parse im s op body else None) of
       Some e \<Rightarrow> (Inl (ErrorString e), w)
     | None \<Rightarrow> (case admin_run im s op d body of
         (r, d') \<Rightarrow> (map_sum ErrorString id r, w\<lparr>w_dbs := (w_dbs w)(db_id db \<mapsto> d')\<rparr>)))"
proof (cases "if reads_args op then admin_parse im s op body else None")
  case None
  obtain r d' where r: "admin_run im s op d body = (r, d')" by fastforce
  have "sable_call (admin_handlers im s ev) op (call_frame (db_id db) body) w =
      (map_sum ErrorString id r, w\<lparr>w_dbs := (w_dbs w)(db_id db \<mapsto> d')\<rparr>)"
    by (rule sable_call_admin) (use assms None r in \<open>auto simp: admin_handlers_def split: if_splits\<close>)
  with assms(5) None r show ?thesis by (simp add: callOp_def)
next
  case (Some e)
  then have ra: "reads_args op" "admin_parse im s op body = Some e" by (simp_all split: if_splits)
  have "sable_call (admin_handlers im s ev) op (call_frame (db_id db) body) w = (Inl (ErrorString e), w)"
    by (rule sable_call_bad_args) (use assms ra in \<open>simp_all add: admin_handlers_def\<close>)
  with assms(5) ra show ?thesis by (simp add: callOp_def)
qed

text \<open>A report arrives as it was given.\<close>

lemma callOpJSON_admin:
  assumes "w_dbs w (db_id db) = Some d" "ev_call_err ev op (call_frame (db_id db) body) = None" "22 < op" "op < 31"
    and "(case args of None \<Rightarrow> Inr [] | Some fs \<Rightarrow> marshal g fs) = Inr body"
    and "reads_args op \<Longrightarrow> admin_parse im s op body = None"
    and "admin_run im s op d body = (map_sum id (\<lambda>x. sd_write s (wire x)) r, d')"
    and "serde_writes s" "\<And>x. r = Inr x \<Longrightarrow> wf_json (wire x)" "\<And>x. un (wire x) zero = Inr x"
  shows "callOpJSON (admin_handlers im s ev) g db op args un zero w =
    (map_sum ErrorString id r, w\<lparr>w_dbs := (w_dbs w)(db_id db \<mapsto> d')\<rparr>)"
proof (cases r)
  case (Inl e)
  with callOp_admin [OF assms(1-5)] assms(6,7) show ?thesis by (auto simp: callOpJSON_def)
next
  case (Inr x)
  with assms(8,9) have "parse_json (sd_write s (wire x)) = Some (wire x)" by (simp add: serde_writes_def)
  with callOp_admin [OF assms(1-5)] assms(6,7,10) Inr show ?thesis by (auto simp: callOpJSON_def unmarshal_def)
qed

definition admin_result :: "DB \<Rightarrow> 'db world \<Rightarrow> (string + 'a) \<times> 'db \<Rightarrow> 'a result \<times> 'db world" where
  "admin_result db w a = (map_sum ErrorString id (fst a), w\<lparr>w_dbs := (w_dbs w)(db_id db \<mapsto> snd a)\<rparr>)"

lemma find_eq: "find (\<lambda>x. x = t) xs = (if t \<in> set xs then Some t else None)"
  by (induction xs) auto

lemma known_table_eq:
  "known_table im s t = (if t \<in> set (im_tables im) then Inr t else Inl (''imbhgo: unknown table '' @ sd_debug s t))"
  by (simp add: known_table_def table_from_str_def find_eq)

definition admin_ready :: "'db imbh_db \<Rightarrow> serde \<Rightarrow> 'db env \<Rightarrow> DB \<Rightarrow> 'db \<Rightarrow> 'db world \<Rightarrow> bool" where
  "admin_ready im s ev db d w \<longleftrightarrow> w_dbs w (db_id db) = Some d \<and> serde_reads (sd_read s) \<and> serde_writes s \<and>
     text_reports im \<and> (\<forall>op body. ev_call_err ev op (call_frame (db_id db) body) = None)"

lemma admin_same: "admin_ready im s ev db d w \<Longrightarrow> w\<lparr>w_dbs := (w_dbs w)(db_id db \<mapsto> d)\<rparr> = w"
  by (simp add: admin_ready_def fun_upd_idem)

lemmas admin_call = callOpJSON_admin [where w = w and db = db and d = d and im = im and s = s and ev = ev for w db d im s ev]
lemmas admin_ops = op_defs reads_args_def admin_run_def admin_parse_def

lemma admin_plain:
  assumes "admin_ready im s ev db d w"
  shows "Stats (admin_handlers im s ev) g db w = (map_sum ErrorString id (im_stats im d), w)"
    and "Maintain (admin_handlers im s ev) g db w = admin_result db w (im_maintain im d)"
    and "Compact (admin_handlers im s ev) g db w = admin_result db w (im_compact im d)"
    and "Segments (admin_handlers im s ev) g db w = (Inr (im_segments im d), w)"
    and "DurableThrough (admin_handlers im s ev) g db w =
      (Inr (case im_durable_through im d of None \<Rightarrow> (0, False) | Some l \<Rightarrow> (l, True)), w)"
proof -
  note rd = assms [unfolded admin_ready_def] and same = admin_same [OF assms]
  show "Stats (admin_handlers im s ev) g db w = (map_sum ErrorString id (im_stats im d), w)"
    unfolding Stats_def
    by (subst admin_call [where r = "im_stats im d" and d' = d and wire = DbStats_json])
      (use rd in \<open>simp_all add: admin_ops stats_handler_def stats.un_wire wf_reports text_reports_def same\<close>)
  show "Maintain (admin_handlers im s ev) g db w = admin_result db w (im_maintain im d)"
    unfolding Maintain_def
    by (subst admin_call [where r = "fst (im_maintain im d)" and d' = "snd (im_maintain im d)" and wire = MaintenanceReport_json])
      (use rd in \<open>simp_all add: admin_ops maintain_handler_def maintenance.un_wire wf_reports admin_result_def
        map_prod_def case_prod_beta\<close>)
  show "Compact (admin_handlers im s ev) g db w = admin_result db w (im_compact im d)"
    unfolding Compact_def
    by (subst admin_call [where r = "fst (im_compact im d)" and d' = "snd (im_compact im d)" and wire = CompactionReport_json])
      (use rd in \<open>simp_all add: admin_ops compact_handler_def compaction.un_wire wf_reports admin_result_def
        map_prod_def case_prod_beta\<close>)
  show "Segments (admin_handlers im s ev) g db w = (Inr (im_segments im d), w)"
    unfolding Segments_def
    by (subst admin_call [where r = "Inr (im_segments im d)" and d' = d and wire = "\<lambda>x. JArr (map SegmentRef_json x)"])
      (use rd in \<open>simp_all add: admin_ops segments_handler_def segments.un_wire wf_reports text_reports_def same
        del: wf_json.simps\<close>)
  have "callOpJSON (admin_handlers im s ev) g db opDurableThrough None (durable_un g) None w =
      (Inr (im_durable_through im d), w)"
    by (subst admin_call [where r = "Inr (im_durable_through im d)" and d' = d and
          wire = "\<lambda>v. JObj [(''durable_lsn'', opt_json u64_json v)]"])
      (use rd in \<open>simp_all add: admin_ops durable_through_handler_def durable.un_wire wf_reports same del: wf_json.simps\<close>)
  then show "DurableThrough (admin_handlers im s ev) g db w =
      (Inr (case im_durable_through im d of None \<Rightarrow> (0, False) | Some l \<Rightarrow> (l, True)), w)"
    by (simp add: DurableThrough_def split: option.splits)
qed

text \<open>The ops with arguments.\<close>

lemma args_refused:
  assumes "admin_ready im s ev db d w" "marshal g fs = Inr body" "reads_args op" "admin_parse im s op body = Some e"
  shows "callOp (admin_handlers im s ev) g db op (Some fs) w = (Inl (ErrorString e), w)"
    and "callOpJSON (admin_handlers im s ev) g db op (Some fs) un zero w = (Inl (ErrorString e), w)"
proof -
  have "22 < op" "op < 31" using assms(3) by (auto simp: reads_args_def op_defs)
  with assms show "callOp (admin_handlers im s ev) g db op (Some fs) w = (Inl (ErrorString e), w)"
    by (subst callOp_admin [where d = d and body = body]) (simp_all add: admin_ready_def)
  then show "callOpJSON (admin_handlers im s ev) g db op (Some fs) un zero w = (Inl (ErrorString e), w)"
    by (simp add: callOpJSON_def)
qed

lemma Snapshot_admin:
  assumes "admin_ready im s ev db d w" "utf8_valid dir"
  shows "Snapshot (admin_handlers im s ev) g db dir w =
    (if dir = [] then (Inl (ErrorString ''imbhgo: snapshot requires a destination dir''), w)
     else admin_result db w (im_snapshot im d dir))"
proof -
  note rd = assms(1) [unfolded admin_ready_def]
  have "struct_ok g (sd_read s) [(''dir'', False, GStr dir)]"
    using assms(2) by (simp add: struct_ok_def utf8_valid_ascii)
  then obtain t where t: "marshal g [(''dir'', False, GStr dir)] = Inr t"
    "Option.bind (serde_object (sd_read s) t) (SnapshotArgs_wire (sd_read s)) = Some dir"
    using snapshot_request.round_trip [of "sd_read s" g dir] rd by (auto simp: snapshot_request.reads_def)
  note args = json_args_marshal [where wire = SnapshotArgs_wire, OF t]
  show ?thesis
  proof (cases "dir = []")
    case True
    then have "admin_parse im s opSnapshot t = Some ''imbhgo: snapshot requires a destination dir''"
      by (simp add: admin_ops snapshot_args_def args)
    from args_refused(2) [OF assms(1) t(1) _ this] True show ?thesis by (simp add: Snapshot_def reads_args_def)
  next
    case False
    then show ?thesis
      unfolding Snapshot_def
      by (subst admin_call [where r = "fst (im_snapshot im d dir)" and d' = "snd (im_snapshot im d dir)" and
            wire = SnapshotInfo_json and body = t])
        (use rd t in \<open>simp_all add: admin_ops snapshot_handler_def snapshot_args_def args snapshot.un_wire wf_reports
          text_reports_def admin_result_def map_prod_def case_prod_beta\<close>)
  qed
qed

lemma SegmentFiles_admin:
  assumes "admin_ready im s ev db d w" "utf8_valid table"
  shows "SegmentFiles (admin_handlers im s ev) g db table w =
    (if table \<in> set (im_tables im) then Inr (im_segment_files im d table)
     else Inl (ErrorString (''imbhgo: unknown table '' @ sd_debug s table)), w)"
proof -
  note rd = assms(1) [unfolded admin_ready_def]
  have "struct_ok g (sd_read s) [(''table'', False, GStr table)]"
    using assms(2) by (simp add: struct_ok_def utf8_valid_ascii)
  then obtain t where t: "marshal g [(''table'', False, GStr table)] = Inr t"
    "Option.bind (serde_object (sd_read s) t) (TableArg_wire (sd_read s)) = Some table"
    using table_request.round_trip [of "sd_read s" g table] rd by (auto simp: table_request.reads_def)
  note args = json_args_marshal [where wire = TableArg_wire, OF t]
  have files: "list_all utf8_valid (im_segment_files im d table)" using rd by (simp add: text_reports_def)
  show ?thesis
  proof (cases "table \<in> set (im_tables im)")
    case True
    then show ?thesis
      unfolding SegmentFiles_def
      by (subst admin_call [where r = "Inr (im_segment_files im d table)" and d' = d and wire = strs_json and body = t])
        (use rd t files in \<open>simp_all add: admin_ops segment_files_handler_def segment_files_args_def args known_table_eq
          segment_files.un_wire wf_reports admin_same [OF assms(1)]\<close>)
  next
    case False
    then have "admin_parse im s opSegmentFiles t = Some (''imbhgo: unknown table '' @ sd_debug s table)"
      by (simp add: admin_ops segment_files_args_def args known_table_eq)
    from args_refused(2) [OF assms(1) t(1) _ this] False show ?thesis by (simp add: SegmentFiles_def reads_args_def)
  qed
qed

lemma Export_admin:
  assumes "admin_ready im s ev db d w" "utf8_valid table"
  shows "Export (admin_handlers im s ev) g db table a b w =
    (if table \<in> set (im_tables im)
     then map_sum ErrorString id (im_export im d table (if a = 0 \<and> b = 0 then None else Some (a, b)))
     else Inl (ErrorString (''imbhgo: unknown table '' @ sd_debug s table)), w)"
proof -
  note rd = assms(1) [unfolded admin_ready_def]
  let ?fs = "[(''end'', False, GInt (sint b)), (''start'', False, GInt (sint a)), (''table'', False, GStr table)]"
  let ?a = "\<lparr>ea_table = table, ea_start = a, ea_end = b\<rparr>"
  have "struct_ok g (sd_read s) ?fs" using assms(2) by (simp add: struct_ok_def utf8_valid_ascii)
  then obtain t where t: "marshal g ?fs = Inr t"
    "Option.bind (serde_object (sd_read s) t) (ExportArgs_wire (sd_read s)) = Some ?a"
    using export_request.round_trip [of "sd_read s" g ?a] rd by (auto simp: export_request.reads_def)
  note args = json_args_marshal [where wire = ExportArgs_wire, OF t]
  show ?thesis
  proof (cases "table \<in> set (im_tables im)")
    case True
    then show ?thesis
      unfolding Export_def
      by (subst callOp_admin [where d = d and body = t])
        (use rd t in \<open>simp_all add: admin_ops export_handler_def export_args_def args known_table_eq export_range_def
          admin_same [OF assms(1)]\<close>)
  next
    case False
    then have "admin_parse im s opExport t = Some (''imbhgo: unknown table '' @ sd_debug s table)"
      by (simp add: admin_ops export_args_def args known_table_eq)
    from args_refused(1) [OF assms(1) t(1) _ this] False show ?thesis by (simp add: Export_def reads_args_def)
  qed
qed

text \<open>
  C17. Every administrative method calls the engine's method once, with the arguments the caller passed, and
  returns exactly its report or its error; the database is the one the engine leaves. A snapshot without
  a directory and a table the engine does not have are refused before anything is done, and an export
  from 0 to 0 asks for all of time.
\<close>
theorem admin_end_to_end:
  assumes "admin_ready im s ev db d w" "utf8_valid dir" "utf8_valid table"
  shows "Stats (admin_handlers im s ev) g db w = (map_sum ErrorString id (im_stats im d), w) \<and>
    Maintain (admin_handlers im s ev) g db w = admin_result db w (im_maintain im d) \<and>
    Compact (admin_handlers im s ev) g db w = admin_result db w (im_compact im d) \<and>
    Snapshot (admin_handlers im s ev) g db dir w =
      (if dir = [] then (Inl (ErrorString ''imbhgo: snapshot requires a destination dir''), w)
       else admin_result db w (im_snapshot im d dir)) \<and>
    Segments (admin_handlers im s ev) g db w = (Inr (im_segments im d), w) \<and>
    SegmentFiles (admin_handlers im s ev) g db table w =
      (if table \<in> set (im_tables im) then Inr (im_segment_files im d table)
       else Inl (ErrorString (''imbhgo: unknown table '' @ sd_debug s table)), w) \<and>
    DurableThrough (admin_handlers im s ev) g db w =
      (Inr (case im_durable_through im d of None \<Rightarrow> (0, False) | Some l \<Rightarrow> (l, True)), w) \<and>
    Export (admin_handlers im s ev) g db table a b w =
      (if table \<in> set (im_tables im)
       then map_sum ErrorString id (im_export im d table (if a = 0 \<and> b = 0 then None else Some (a, b)))
       else Inl (ErrorString (''imbhgo: unknown table '' @ sd_debug s table)), w)"
  using admin_plain [OF assms(1)] Snapshot_admin [OF assms(1,2)] SegmentFiles_admin [OF assms(1,3)]
    Export_admin [OF assms(1,3)]
  by (intro conjI) simp_all

definition demo_serde :: serde where
  "demo_serde = \<lparr>sd_read = demo_rust, sd_error = id, sd_write = print_json, sd_debug = id\<rparr>"

definition demo_imbh :: "nat imbh_db" where
  "demo_imbh = \<lparr>im_tables = [''logs'', ''spans''], im_stats = (\<lambda>d. Inr demo_stats),
     im_maintain = (\<lambda>d. (Inr \<lparr>mn_Sealed = True, mn_SegmentsDropped = 1, mn_BytesFreed = of_nat d\<rparr>, Suc d)),
     im_compact = (\<lambda>d. (Inl ''read-only'', d)),
     im_snapshot = (\<lambda>d dir. (Inr \<lparr>sn_Dir = ''/s'', sn_Segments = 4\<rparr>, d)),
     im_segments = (\<lambda>d. []), im_segment_files = (\<lambda>d t. [''a.arrow'']), im_durable_through = (\<lambda>d. Some 7),
     im_export = (\<lambda>d t r. Inr (case r of None \<Rightarrow> ''all'' | Some _ \<Rightarrow> ''part''))\<rparr>"

lemma demo_admin_ready: "admin_ready demo_imbh demo_serde demo_env \<lparr>db_id = 1\<rparr> 0 demo_db_world"
  by (simp add: admin_ready_def demo_db_fields demo_serde_def serde_reads_demo serde_writes_def parse_print
      text_reports_def demo_imbh_def demo_stats_def DbStats_zero_def TableStats_zero_def utf8_valid_ascii demo_env_def)

theorem admin_end_to_end_witness:
  "fst (Stats (admin_handlers demo_imbh demo_serde demo_env) demo_gojson \<lparr>db_id = 1\<rparr> demo_db_world) = Inr demo_stats \<and>
   Export (admin_handlers demo_imbh demo_serde demo_env) demo_gojson \<lparr>db_id = 1\<rparr> ''spans'' 0 5 demo_db_world =
     (Inr ''part'', demo_db_world) \<and>
   fst (SegmentFiles (admin_handlers demo_imbh demo_serde demo_env) demo_gojson \<lparr>db_id = 1\<rparr> ''spans'' demo_db_world) =
     Inr [''a.arrow'']"
proof -
  have v: "utf8_valid ''/s''" "utf8_valid ''spans''" by (simp_all add: utf8_valid_ascii)
  from admin_end_to_end [OF demo_admin_ready v, of demo_gojson 0 5] show ?thesis
    by (simp add: demo_imbh_def)
qed

section \<open>The options of an open\<close>

text \<open>The settings \<open>build_db\<close> makes on the engine's builder, in order; a duration is its nanoseconds.\<close>

datatype setting =
  AccessReadOnly
| AllowStaleReads
| MemoryTotal u64
| CompressionNone
| CompressionLz4
| CompressionZstd "32 word"
| WalOff
| WalAlways
| WalInterval u64
| Retain "u64 option" "u64 option"
| RefreshOnQuery
| RefreshManual
| RefreshTtl u64
| MaintainBackground u64
| FlushPolicy string
| DuplicatePolicy string
| PromoteKeys "string list"

text \<open>
  The engine's parsers of the two policies (the reason for which a text is refused), and the open of a
  builder with its settings.
\<close>

record 'db builder =
  bu_flush :: "string \<Rightarrow> string option"
  bu_duplicates :: "string \<Rightarrow> string option"
  bu_open :: "string \<Rightarrow> setting list \<Rightarrow> string + 'db"

definition policy :: "(string \<Rightarrow> string option) \<Rightarrow> (string \<Rightarrow> setting) \<Rightarrow> string \<Rightarrow> string + setting list" where
  "policy check put text =
     (if TrimSpace text = [] then Inr []
      else case check text of Some e \<Rightarrow> Inl e | None \<Rightarrow> Inr [put text])"

definition plain_settings :: "DbOptions \<Rightarrow> setting list" where
  "plain_settings w =
     (if do_ReadOnly w then [AccessReadOnly] else []) @
     (if do_AllowStaleReads w then [AllowStaleReads] else []) @
     (if 0 < do_MemoryBudgetBytes w then [MemoryTotal (do_MemoryBudgetBytes w)] else []) @
     (if do_Compression w = ''none'' then [CompressionNone]
      else if do_Compression w = ''lz4'' then [CompressionLz4]
      else if do_Compression w = ''zstd'' then [CompressionZstd (do_ZstdLevel w)] else []) @
     (if do_WalMode w = ''off'' then [WalOff]
      else if do_WalMode w = ''always'' then [WalAlways]
      else if do_WalMode w = ''interval'' then [WalInterval (do_WalIntervalNs w)] else []) @
     (if 0 < do_RetentionDays w \<or> 0 < do_MaxDiskBytes w
      then [Retain (if 0 < do_RetentionDays w then Some (do_RetentionDays w) else None)
              (if 0 < do_MaxDiskBytes w then Some (do_MaxDiskBytes w) else None)] else []) @
     (if do_Refresh w = ''onquery'' then [RefreshOnQuery]
      else if do_Refresh w = ''manual'' then [RefreshManual]
      else if do_Refresh w = ''ttl'' then [RefreshTtl (do_RefreshTtlNs w)] else []) @
     (if 0 < sint (do_MaintenanceBackgroundNs w) then [MaintainBackground (do_MaintenanceBackgroundNs w)] else [])"

definition build_settings :: "'db builder \<Rightarrow> DbOptions \<Rightarrow> string + setting list" where
  "build_settings b w =
     (case policy (bu_flush b) FlushPolicy (do_Flush w) of
        Inl e \<Rightarrow> Inl e
      | Inr fl \<Rightarrow>
          (case policy (bu_duplicates b) DuplicatePolicy (do_Duplicates w) of
             Inl e \<Rightarrow> Inl e
           | Inr du \<Rightarrow> Inr (plain_settings w @ fl @ du @
               (if do_PromoteKeys w \<noteq> [] then [PromoteKeys (do_PromoteKeys w)] else []))))"

definition build_db :: "'db builder \<Rightarrow> DbOptions \<Rightarrow> string + 'db" where
  "build_db b w = (case build_settings b w of Inl e \<Rightarrow> Inl e | Inr ss \<Rightarrow> bu_open b (do_Path w) ss)"

text \<open>\<open>imbhgo_open_opts\<close>: a malformed text is refused with the parser's reason.\<close>

definition open_opts_handler :: "'db builder \<Rightarrow> serde \<Rightarrow> 'db env \<Rightarrow> 'db env" where
  "open_opts_handler b s ev = ev\<lparr>ev_open := (\<lambda>rq. case rq of
       OpenOptions t \<Rightarrow>
         (case Option.bind (serde_object (sd_read s) t) (DbOptions_wire (sd_read s)) of
            None \<Rightarrow> Inl (''bad options JSON: '' @ sd_error s t)
          | Some w \<Rightarrow> build_db b w)
     | _ \<Rightarrow> ev_open ev rq)\<rparr>"

lemma opens_with_handler: "opens_with (open_opts_handler b s ev) (sd_read s) (build_db b)"
  by (simp add: opens_with_def open_opts_handler_def)

lemma policy_settings:
  assumes "policy check put text = Inr ss" "\<And>x y. put x = put y \<Longrightarrow> x = y"
  shows "put t \<in> set ss \<longleftrightarrow> t = text \<and> TrimSpace text \<noteq> [] \<and> check text = None"
  using assms by (auto simp: policy_def split: if_splits option.splits)

lemma policy_only: "policy check put text = Inr ss \<Longrightarrow> x \<in> set ss \<Longrightarrow> x = put text"
  by (auto simp: policy_def split: if_splits option.splits)

lemma nanos_wrap: "uint (n :: u64) = sint (i :: i64) mod 2 ^ 64 \<longleftrightarrow> n = i"
proof -
  have "sint i mod 2 ^ 64 = uint i" using uint_sint [of i] by (simp add: take_bit_eq_mod)
  then show ?thesis by (simp add: word_uint_eq_iff)
qed


definition demo_builder :: "nat builder" where
  "demo_builder = \<lparr>bu_flush = (\<lambda>t. if t = ''manual'' then None else Some ''bad flush policy''),
     bu_duplicates = (\<lambda>t. None), bu_open = (\<lambda>p ss. Inr (length ss))\<rparr>"

lemma demo_trim: "TrimSpace ''manual'' = ''manual''" "TrimSpace ''often'' = ''often''" "TrimSpace [] = []"
  by code_simp+


lemma slot_fetch_open [simp]: "slot_fetch_ok (open_opts_handler b s ev) q = slot_fetch_ok ev q"
  by (simp add: slot_fetch_ok_def open_opts_handler_def)

text \<open>
  C33. An open with options builds the database from exactly the options the caller set: on success one
  handle is registered for it; a policy the engine cannot parse, or a builder that fails, leaves no database,
  and the error names the path and the reason, its slot cleared.
\<close>
theorem OpenWith_end_to_end:
  assumes "serde_reads (sd_read s)" "struct_ok g (sd_read s) (DbOptions_fields opts)"
  shows "(\<forall>d. build_db b opts = Inr d \<longrightarrow> w_db_ctr w \<noteq> 0 \<longrightarrow>
      OpenWith (open_opts_handler b s ev) g opts w = (Inr \<lparr>db_id = w_db_ctr w\<rparr>,
        w\<lparr>w_query_ctr := w_query_ctr w + 1, w_db_ctr := w_db_ctr w + 1, w_dbs := (w_dbs w)(w_db_ctr w \<mapsto> d)\<rparr>)) \<and>
    (\<forall>e. (build_db b opts = Inl e \<or> TrimSpace (do_Flush opts) \<noteq> [] \<and> bu_flush b (do_Flush opts) = Some e) \<longrightarrow>
      e \<noteq> [] \<longrightarrow> w_query_ctr w + 1 \<noteq> 0 \<longrightarrow> slot_fetch_ok ev (w_query_ctr w + 1) \<longrightarrow>
      OpenWith (open_opts_handler b s ev) g opts w =
        (Inl (ErrorString (''imbhgo: open database at '' @ do_Path opts @ '': '' @ e)),
         w\<lparr>w_query_ctr := w_query_ctr w + 1, w_query_errors := (w_query_errors w)(w_query_ctr w + 1 := None)\<rparr>))"
proof -
  have "build_db b opts = Inl e" if "TrimSpace (do_Flush opts) \<noteq> [] \<and> bu_flush b (do_Flush opts) = Some e" for e
    using that by (simp add: build_db_def build_settings_def policy_def)
  moreover note OpenWith_builds_options [OF assms opens_with_handler [of b s ev], of w]
  ultimately show ?thesis by auto
qed

theorem OpenWith_end_to_end_witness:
  "fst (OpenWith (open_opts_handler demo_builder demo_serde demo_env) demo_gojson (demo_options\<lparr>do_Flush := ''often''\<rparr>) init_world) =
     Inl (ErrorString ''imbhgo: open database at /data: bad flush policy'')"
proof -
  let ?o = "demo_options\<lparr>do_Flush := ''often''\<rparr>"
  have s: "serde_reads (sd_read demo_serde)" by (simp add: demo_serde_def serde_reads_demo)
  have ok: "struct_ok demo_gojson (sd_read demo_serde) (DbOptions_fields ?o)"
    by (simp add: struct_ok_def DbOptions_fields_def demo_options_def utf8_valid_ascii)
  from OpenWith_end_to_end [OF s ok, of demo_builder init_world demo_env] show ?thesis
    by (simp add: demo_options_def demo_builder_def demo_trim init_world_def)
qed

end
