(* ===== verification/Engine.thy ===== *)
theory Engine
  imports Queries
begin

text \<open>
  How \<open>rust/src/lib.rs\<close> turns a request it has read into a query of the engine: the \<open>build_*\<close> functions, as
  the list of builder calls they make. The builders are the engine's; a call is its name and its
  arguments. A \<open>HashMap\<close> is walked in key order here (the order of the predicates, which are all combined
  with AND, is the only thing that depends on it). The parsers of trace and span ids and the quoting of
  an error message are parameters.
\<close>

datatype qarg = QS string | QN int | QF f64 | QL "string list" | QB bytes

type_synonym qcall = "string \<times> qarg list"

record imbh_api =
  ia_trace_id :: "string \<Rightarrow> bytes option"
  ia_span_id :: "string \<Rightarrow> bytes option"
  ia_debug :: "string \<Rightarrow> string"

definition str_call :: "string \<Rightarrow> string \<Rightarrow> qcall list" where
  "str_call name s = (if s \<noteq> [] then [(name, [QS s])] else [])"

definition id_call :: "string \<Rightarrow> (string \<Rightarrow> bytes option) \<Rightarrow> string \<Rightarrow> qcall list" where
  "id_call name from_hex s =
     (if s \<noteq> [] then (case from_hex s of Some i \<Rightarrow> [(name, [QB i])] | None \<Rightarrow> []) else [])"

definition pos_call :: "string \<Rightarrow> i64 \<Rightarrow> qcall list" where
  "pos_call name n = (if 0 < sint n then [(name, [QN (sint n)])] else [])"

definition map_calls :: "string \<Rightarrow> ('v \<Rightarrow> qarg) \<Rightarrow> 'v gomap \<Rightarrow> qcall list" where
  "map_calls name arg m = map (\<lambda>(k, v). (name, [QS k, arg v])) m"

definition range_calls :: "i64 \<Rightarrow> i64 \<Rightarrow> qcall list" where
  "range_calls start end' = (if start \<noteq> 0 \<or> end' \<noteq> 0 then [(''range'', [QN (sint start), QN (sint end')])] else [])"

text \<open>The attribute predicates that logs and traces share, in the order of the code.\<close>

definition set_arg :: "string list option \<Rightarrow> qarg" where
  "set_arg v = QL (case v of Some xs \<Rightarrow> xs | None \<Rightarrow> [])"

definition attr_calls ::
  "string list \<Rightarrow> string gomap \<Rightarrow> string list option gomap \<Rightarrow> string list option gomap \<Rightarrow>
   f64 gomap \<Rightarrow> f64 gomap \<Rightarrow> f64 gomap \<Rightarrow> f64 gomap \<Rightarrow> string gomap \<Rightarrow> qcall list" where
  "attr_calls ex matches isin notin gt ge lt le regex =
     map (\<lambda>k. (''attr_exists'', [QS k])) ex @ map_calls ''attr_matches'' QS matches @
     map_calls ''attr_in'' set_arg isin @ map_calls ''attr_not_in'' set_arg notin @
     map_calls ''attr_gt'' QF gt @ map_calls ''attr_ge'' QF ge @ map_calls ''attr_lt'' QF lt @
     map_calls ''attr_le'' QF le @ map_calls ''attr_regex'' QS regex"

definition LogOrderTime :: string where "LogOrderTime = ''time''"
definition LogOrderObservedTime :: string where "LogOrderObservedTime = ''observed_time''"

definition build_log_query :: "imbh_api \<Rightarrow> LogQuery \<Rightarrow> string + qcall list" where
  "build_log_query api w =
     (let filters =
        str_call ''service'' (lq_Service w) @ str_call ''matches'' (lq_Match w) @
        map_calls ''attr_eq'' QS (lq_AttrEq w) @
        id_call ''trace_id'' (ia_trace_id api) (lq_TraceID w) @ id_call ''span_id'' (ia_span_id api) (lq_SpanID w) @
        (if 0 < sint (lq_SeverityAtLeast w)
         then [(''severity_at_least'', [QN (sint (lq_SeverityAtLeast w) mod 256)])] else []) @
        attr_calls (lq_AttrExists w) (lq_AttrMatches w) (lq_AttrIn w) (lq_AttrNotIn w)
          (lq_AttrGt w) (lq_AttrGe w) (lq_AttrLt w) (lq_AttrLe w) (lq_AttrRegex w) @
        range_calls (lq_Start w) (lq_End w) @
        (if lq_ObservedAfter w \<noteq> 0 then [(''observed_after'', [QN (sint (lq_ObservedAfter w))])] else [])
      in
        if lq_OrderBy w = [] \<or> lq_OrderBy w = LogOrderTime \<or> lq_OrderBy w = LogOrderObservedTime
        then Inr (filters @
          [(''order_by'', [QS (if lq_OrderBy w = LogOrderObservedTime then ''ObservedTime'' else ''Time'')])] @
          pos_call ''limit'' (lq_Limit w) @
          [(''direction'', [QS (if lq_Backward w then ''Backward'' else ''Forward'')])])
        else Inl (''unknown log order axis '' @ ia_debug api (lq_OrderBy w)))"

definition build_metric_query :: "MetricQuery \<Rightarrow> qcall list" where
  "build_metric_query w =
     [(if mq_Sum w then ''sum'' else ''gauge'', [QS (mq_Metric w)])] @ pos_call ''step'' (mq_Step w) @
     range_calls (mq_Start w) (mq_End w) @ map (\<lambda>k. (''group_by'', [QS k])) (mq_GroupBy w)"

definition build_span_metrics_query :: "SpanMetricsQuery \<Rightarrow> qcall list" where
  "build_span_metrics_query w =
     str_call ''service'' (sq_Service w) @ str_call ''name'' (sq_Name w) @ str_call ''kind'' (sq_Kind w) @
     str_call ''status'' (sq_Status w) @ map (\<lambda>k. (''group_by'', [QS k])) (sq_GroupBy w) @
     pos_call ''step'' (sq_Step w) @ range_calls (sq_Start w) (sq_End w)"

definition build_points_query :: "MetricPointsQuery \<Rightarrow> qcall list" where
  "build_points_query w =
     [(if pq_Kind w = ''sum'' then ''sum'' else if pq_Kind w = ''histogram'' then ''histogram'' else ''gauge'',
       [QS (pq_Metric w)])] @
     map_calls ''filter'' QS (pq_Filters w) @ range_calls (pq_Start w) (pq_End w) @ pos_call ''limit'' (pq_Limit w)"

definition build_trace_query :: "TraceQuery \<Rightarrow> qcall list" where
  "build_trace_query w =
     str_call ''service'' (tq_Service w) @ str_call ''name'' (tq_Name w) @ str_call ''status'' (tq_Status w) @
     str_call ''kind'' (tq_Kind w) @ pos_call ''min_duration'' (tq_MinDurationNs w) @
     pos_call ''max_duration'' (tq_MaxDurationNs w) @ map_calls ''attr_eq'' QS (tq_AttrEq w) @
     attr_calls (tq_AttrExists w) (tq_AttrMatches w) (tq_AttrIn w) (tq_AttrNotIn w)
       (tq_AttrGt w) (tq_AttrGe w) (tq_AttrLt w) (tq_AttrLe w) (tq_AttrRegex w) @
     range_calls (tq_Start w) (tq_End w) @ pos_call ''limit'' (tq_Limit w)"

section \<open>The calls made\<close>

lemma in_calls [simp]:
  "(n, a) \<in> set (str_call name s) \<longleftrightarrow> n = name \<and> s \<noteq> [] \<and> a = [QS s]"
  "(n, a) \<in> set (id_call name h s) \<longleftrightarrow> n = name \<and> s \<noteq> [] \<and> h s \<noteq> None \<and> a = [QB (the (h s))]"
  "(n, a) \<in> set (pos_call name i) \<longleftrightarrow> n = name \<and> 0 < sint i \<and> a = [QN (sint i)]"
  "(n, a) \<in> set (map_calls name arg m) \<longleftrightarrow> n = name \<and> (\<exists>k v. (k, v) \<in> set m \<and> a = [QS k, arg v])"
  "(n, a) \<in> set (range_calls x y) \<longleftrightarrow> n = ''range'' \<and> (x \<noteq> 0 \<or> y \<noteq> 0) \<and> a = [QN (sint x), QN (sint y)]"
proof -
  show "(n, a) \<in> set (str_call name s) \<longleftrightarrow> n = name \<and> s \<noteq> [] \<and> a = [QS s]"
    by (auto simp: str_call_def)
  show "(n, a) \<in> set (id_call name h s) \<longleftrightarrow> n = name \<and> s \<noteq> [] \<and> h s \<noteq> None \<and> a = [QB (the (h s))]"
    unfolding id_call_def by (cases "h s"; cases "s = []") simp_all
  show "(n, a) \<in> set (pos_call name i) \<longleftrightarrow> n = name \<and> 0 < sint i \<and> a = [QN (sint i)]"
    unfolding pos_call_def by (cases "0 < sint i") simp_all
  show "(n, a) \<in> set (map_calls name arg m) \<longleftrightarrow> n = name \<and> (\<exists>k v. (k, v) \<in> set m \<and> a = [QS k, arg v])"
    by (force simp: map_calls_def)
  show "(n, a) \<in> set (range_calls x y) \<longleftrightarrow> n = ''range'' \<and> (x \<noteq> 0 \<or> y \<noteq> 0) \<and> a = [QN (sint x), QN (sint y)]"
    by (auto simp: range_calls_def)
qed

lemma attr_calls_names:
  "take 5 n \<noteq> ''attr_'' \<Longrightarrow> (n, a) \<notin> set (attr_calls ex matches isin notin gt ge lt le regex)"
  by (auto simp: attr_calls_def)

text \<open>
  C26. What reaches the engine's builder as time range, severity and row limit. A range is set as soon as
  one of its two ends is non-zero, with both ends as they are (an end left at 0 is the instant 0, not an
  open end); a positive severity is passed modulo 256; a limit only when positive.
\<close>
theorem log_query_bounds:
  assumes "build_log_query api q = Inr cs"
  shows "((''range'', a) \<in> set cs \<longleftrightarrow>
      (lq_Start q \<noteq> 0 \<or> lq_End q \<noteq> 0) \<and> a = [QN (sint (lq_Start q)), QN (sint (lq_End q))]) \<and>
    ((''severity_at_least'', b) \<in> set cs \<longleftrightarrow>
      0 < sint (lq_SeverityAtLeast q) \<and> b = [QN (sint (lq_SeverityAtLeast q) mod 256)]) \<and>
    ((''limit'', c) \<in> set cs \<longleftrightarrow> 0 < sint (lq_Limit q) \<and> c = [QN (sint (lq_Limit q))])"
proof -
  have "cs = projr (build_log_query api q)" "isl (build_log_query api q) = False" using assms by simp_all
  then show ?thesis
    by (simp add: build_log_query_def Let_def attr_calls_names if_distrib [of set] split del: if_split cong: if_cong)
      (auto simp: attr_calls_names)
qed

theorem log_query_bounds_witness:
  "(''range'', [QN 5, QN 0]) \<in> set (projr (build_log_query \<lparr>ia_trace_id = (\<lambda>_. None), ia_span_id = (\<lambda>_. None), ia_debug = id\<rparr>
     (demo_logs\<lparr>lq_Start := 5, lq_End := 0\<rparr>)))"
proof -
  let ?api = "\<lparr>ia_trace_id = (\<lambda>_. None), ia_span_id = (\<lambda>_. None), ia_debug = id\<rparr>"
  let ?q = "demo_logs\<lparr>lq_Start := 5, lq_End := 0\<rparr>"
  obtain cs where cs: "build_log_query ?api ?q = Inr cs"
    by (auto simp: build_log_query_def demo_logs_def LogOrderTime_def Let_def)
  from log_query_bounds [OF this, of "[QN 5, QN 0]"] cs show ?thesis by (simp add: demo_logs_def)
qed

end
