(* ===== verification/LogPage.thy ===== *)
theory LogPage
  imports Engine Ops
begin

text \<open>
  Paged log queries (\<open>logpage.go\<close>, \<open>query_log_page_handler\<close>): the rows come over the stream, the resume cursor
  and the scan statistics out of band, under the query id. The cursor is the text of the JSON number the
  Rust side files; the Go side keeps it verbatim, so its raw text is read off the reply.
\<close>

section \<open>The out-of-band reply\<close>

definition HasMore :: "bytes \<Rightarrow> bool" where
  "HasMore c \<longleftrightarrow> c \<noteq> []"

text \<open>The members of an object from a key on, with the raw text of each value.\<close>

fun raw_members :: "nat \<Rightarrow> bytes \<Rightarrow> (string \<times> bytes) list option" where
  "raw_members 0 s = None"
| "raw_members (Suc n) s =
     (case skip_ws s of
        [] \<Rightarrow> None
      | c # r \<Rightarrow>
          if c \<noteq> quote then None
          else (case p_string r of
             None \<Rightarrow> None
           | Some (k, r1) \<Rightarrow>
               (case skip_ws r1 of
                  [] \<Rightarrow> None
                | d # r2 \<Rightarrow>
                    (case p_value n (skip_ws r2) of
                       None \<Rightarrow> None
                     | Some (v, r3) \<Rightarrow>
                         let raw = take (length (skip_ws r2) - length r3) (skip_ws r2) in
                         (case skip_ws r3 of
                            [] \<Rightarrow> None
                          | e # r4 \<Rightarrow>
                              if e = CHR '','' then map_option (Cons (k, raw)) (raw_members n r4)
                              else Some [(k, raw)])))))"

definition raw_object :: "bytes \<Rightarrow> (string \<times> bytes) list" where
  "raw_object s =
     (case skip_ws s of
        [] \<Rightarrow> []
      | c # r \<Rightarrow> (case raw_members (2 * length s + 2) r of None \<Rightarrow> [] | Some ms \<Rightarrow> ms))"

record logPageMeta =
  pm_next :: bytes
  pm_stats :: QueryStats

definition field_is :: "string \<Rightarrow> string \<Rightarrow> bool" where
  "field_is n k \<longleftrightarrow> map lower_byte n = map lower_byte k"

fun meta_members :: "gojson \<Rightarrow> (string \<times> bytes) list \<Rightarrow> logPageMeta \<Rightarrow> logPageMeta result" where
  "meta_members g [] m = Inr m"
| "meta_members g ((k, raw) # ms) m =
     (if field_is ''next'' k then meta_members g ms (m\<lparr>pm_next := raw\<rparr>)
      else if field_is ''stats'' k then
        (case unmarshal g (QueryStats_un g) (pm_stats m) raw of
           Inl e \<Rightarrow> Inl e
         | Inr s \<Rightarrow> meta_members g ms (m\<lparr>pm_stats := s\<rparr>))
      else meta_members g ms m)"

definition meta_zero :: logPageMeta where
  "meta_zero = \<lparr>pm_next = [], pm_stats = QueryStats_zero\<rparr>"

definition decode_meta :: "gojson \<Rightarrow> bytes \<Rightarrow> logPageMeta result" where
  "decode_meta g resp =
     (case parse_json resp of
        None \<Rightarrow> Inl (ErrorString (gj_syntax g resp))
      | Some j \<Rightarrow>
          (case (case j of
                   JNull \<Rightarrow> Inr meta_zero
                 | JObj ms \<Rightarrow> if ms = [] then Inr meta_zero else meta_members g (raw_object resp) meta_zero
                 | _ \<Rightarrow> mismatch g) of
             Inl e \<Rightarrow> Inl e
           | Inr m \<Rightarrow> Inr (m\<lparr>pm_next := (if pm_next m \<noteq> [] \<and> pm_next m \<noteq> ''null'' then pm_next m else [])\<rparr>)))"

definition fetchLogPageMeta :: "'db env \<Rightarrow> gojson \<Rightarrow> u64 \<Rightarrow> 'db world \<Rightarrow> logPageMeta result \<times> 'db world" where
  "fetchLogPageMeta ev g qid w =
     (case sable_call ev opLogPageMeta (put64 qid) w of
        (Inl e, w') \<Rightarrow> (Inl e, w')
      | (Inr resp, w') \<Rightarrow> (if resp = [] then Inr meta_zero else decode_meta g resp, w'))"

record LogPage =
  pg_Entries :: "LogEntry list"
  pg_Next :: bytes
  pg_Stats :: QueryStats

definition QueryLogPage ::
  "'db env \<Rightarrow> gojson \<Rightarrow> event list list \<Rightarrow> DB \<Rightarrow> nat option \<Rightarrow> LogQuery \<Rightarrow> bytes \<Rightarrow> 'db world \<Rightarrow>
   LogPage result option \<times> 'db world" where
  "QueryLogPage ev g sched db ctx q after w =
     (case send_query g db ctx opLogPage (logPageReq_fields \<lparr>lp_LogQuery = q, lp_After = after\<rparr>) w of
        (Inl e, w1) \<Rightarrow> (Some (Inl e), w1)
      | (Inr r, w1) \<Rightarrow>
          (case decodeLogEntries ev sched r w1 of
             (None, r', w2) \<Rightarrow> (None, w2)
           | (Some dec, r', w2) \<Rightarrow>
               (case fetchLogPageMeta ev g (r_queryID r) w2 of
                  (meta, w3) \<Rightarrow>
                    (Some (case dec of
                       Inl e \<Rightarrow> Inl e
                     | Inr entries \<Rightarrow>
                         (case meta of
                            Inl e \<Rightarrow> Inl e
                          | Inr m \<Rightarrow> Inr \<lparr>pg_Entries = entries, pg_Next = pm_next m, pg_Stats = pm_stats m\<rparr>)),
                     w3))))"

section \<open>The handler\<close>

definition prev_offset :: "json option \<Rightarrow> u64" where
  "prev_offset after = (case after of None \<Rightarrow> 0 | Some j \<Rightarrow> (case r_u64 j of Some n \<Rightarrow> n | None \<Rightarrow> 0))"

definition page_next :: "i64 \<Rightarrow> u64 \<Rightarrow> u64 \<Rightarrow> u64 option" where
  "page_next limit prev returned = (if 0 < sint limit \<and> limit \<le> returned then Some (prev + returned) else None)"

definition page_meta_json :: "u64 option \<Rightarrow> QueryStats \<Rightarrow> json" where
  "page_meta_json c st = JObj [(''next'', opt_json u64_json c), (''stats'', QueryStats_json st)]"

text \<open>
  \<open>query_log_page_handler\<close> up to the stream: the engine runs the built query from the cursor on and
  reports its batches and statistics; a token that is no cursor is refused.
\<close>

definition query_log_page ::
  "imbh_api \<Rightarrow> rustjson \<Rightarrow> (bytes \<Rightarrow> string) \<Rightarrow> ('db \<Rightarrow> qcall list \<Rightarrow> u64 option \<Rightarrow> string + batch list \<times> QueryStats) \<Rightarrow>
   'db \<Rightarrow> bytes \<Rightarrow> string + batch list \<times> bytes" where
  "query_log_page api u msg engine d p =
     (case Option.bind (serde_object u p) (logPageReq_wire u) of
        None \<Rightarrow> Inl (''bad log page query: '' @ msg p)
      | Some (q, after) \<Rightarrow>
          (case build_log_query api q of
             Inl e \<Rightarrow> Inl (''bad log page query: '' @ e)
           | Inr cs \<Rightarrow>
               (case (case after of None \<Rightarrow> Inr None
                      | Some j \<Rightarrow> (case r_u64 j of Some c \<Rightarrow> Inr (Some c) | None \<Rightarrow> Inl (''bad page cursor: '' @ msg p))) of
                  Inl e \<Rightarrow> Inl e
                | Inr c \<Rightarrow>
                    (case engine d cs c of
                       Inl e \<Rightarrow> Inl e
                     | Inr (bs, st) \<Rightarrow>
                         Inr (bs, print_json (page_meta_json
                           (page_next (lq_Limit q) (prev_offset after) (qs_RowsReturned st)) st))))))"

definition query_log_page_handler ::
  "imbh_api \<Rightarrow> rustjson \<Rightarrow> (bytes \<Rightarrow> string) \<Rightarrow> ('db \<Rightarrow> qcall list \<Rightarrow> u64 option \<Rightarrow> string + batch list \<times> QueryStats) \<Rightarrow>
   'db env \<Rightarrow> 'db env" where
  "query_log_page_handler api u msg engine ev = ev\<lparr>
     ev_parse := (\<lambda>op p. if op = opLogPage
       then (case Option.bind (serde_object u p) (logPageReq_wire u) of
               None \<Rightarrow> Some (''bad log page query: '' @ msg p) | Some _ \<Rightarrow> None)
       else ev_parse ev op p),
     ev_page := query_log_page api u msg engine\<rparr>"

section \<open>The metadata read back\<close>

lemma raw_members_print:
  assumes "\<And>k v. (k, v) \<in> set ms \<Longrightarrow> utf8_valid k \<and> wf_json v" "ms \<noteq> []"
    and "sum_list (map (\<lambda>(k, v). Suc (depth_need v)) ms) \<le> n"
  shows "raw_members n (commas (map print_member ms) @ CHR ''}'' # r) = Some (map (\<lambda>(k, v). (k, print_json v)) ms)"
  using assms
proof (induction ms arbitrary: n)
  case (Cons kv ms)
  obtain k v where kv: "kv = (k, v)" by force
  from Cons.prems(3) kv obtain m where n: "n = Suc m" "depth_need v \<le> m" by (cases n) auto
  have ok: "utf8_valid k" "wf_json v" using Cons.prems(1) [of k v] kv by auto
  have k: "p_string (escape k @ quote # q) = Some (k, q)" for q by (rule p_string_escape) (rule ok)
  obtain c t where h: "print_json v = c # t" "\<not> is_ws c" by (rule print_json_hd [OF ok(2)])
  have v: "p_value m (print_json v @ q) = Some (v, q)" "skip_ws (print_json v @ q) = print_json v @ q" if "delim q" for q
    using p_value_print [OF ok(2) n(2) that] h by simp_all
  show ?case
  proof (cases ms)
    case Nil
    with n kv k v [of "CHR ''}'' # r"] show ?thesis by (simp add: is_ws_def json_string_def)
  next
    case (Cons y ys)
    have "raw_members m (commas (map print_member ms) @ CHR ''}'' # r) = Some (map (\<lambda>(k, v). (k, print_json v)) ms)"
      by (rule Cons.IH) (use Cons.prems n kv Cons in auto)
    with n kv k v [of "CHR '','' # commas (map print_member ms) @ CHR ''}'' # r"] Cons show ?thesis
      by (simp add: is_ws_def json_string_def)
  qed
qed simp

lemma raw_object_print:
  assumes "wf_json (JObj ms)" "ms \<noteq> []"
  shows "raw_object (print_json (JObj ms)) = map (\<lambda>(k, v). (k, print_json v)) ms"
proof -
  have "sum_list (map (\<lambda>(k, v). Suc (depth_need v)) ms) \<le> 2 * length (print_json (JObj ms)) + 2"
    using depth_need_le [OF assms(1)] by simp
  moreover have "utf8_valid k \<and> wf_json v" if "(k, v) \<in> set ms" for k v
    using assms(1) that by (auto simp: list_all_iff)
  ultimately have "raw_members (2 * length (print_json (JObj ms)) + 2) (commas (map print_member ms) @ ''}'') =
      Some (map (\<lambda>(k, v). (k, print_json v)) ms)"
    using raw_members_print [of ms _ "[]"] assms(2) by blast
  then show ?thesis by (simp add: raw_object_def is_ws_def)
qed

lemma wf_QueryStats [simp]: "wf_json (QueryStats_json st)"
  by (simp add: QueryStats_json_def utf8_valid_ascii)

definition cursor_text :: "u64 option \<Rightarrow> bytes" where
  "cursor_text c = (case c of None \<Rightarrow> [] | Some n \<Rightarrow> itoa (unat n))"

lemma u64_text: "int_text (uint n) = itoa (unat n)"
  by (simp add: int_text_def nat_uint_eq)

lemma decode_meta_print:
  "decode_meta g (print_json (page_meta_json c st)) = Inr \<lparr>pm_next = cursor_text c, pm_stats = st\<rparr>"
proof -
  let ?j = "page_meta_json c st"
  have wf: "wf_json ?j"
    by (cases c) (simp_all add: page_meta_json_def opt_json_def utf8_valid_ascii)
  have raw: "raw_object (print_json ?j) =
      [(''next'', print_json (opt_json u64_json c)), (''stats'', print_json (QueryStats_json st))]"
    unfolding page_meta_json_def
    by (subst raw_object_print) (use wf in \<open>simp_all add: page_meta_json_def del: print_json.simps\<close>)
  have st: "unmarshal g (QueryStats_un g) QueryStats_zero (print_json (QueryStats_json st)) = Inr st"
    by (rule query_stats.unmarshal_reply) (simp add: parse_print)
  have f: "field_is ''next'' ''next''" "\<not> field_is ''next'' ''stats''" "field_is ''stats'' ''stats''"
    by (simp_all add: field_is_def lower_byte_def)
  let ?t = "print_json (opt_json u64_json c)"
  have m: "meta_members g (raw_object (print_json ?j)) meta_zero = Inr \<lparr>pm_next = ?t, pm_stats = st\<rparr>"
    by (simp add: raw f st meta_zero_def del: print_json.simps)
  have n: "itoa n \<noteq> ''null''" for n using itoa_digits [of "CHR ''n''" n] by (auto simp: is_digit_def between_def)
  have t: "(if ?t \<noteq> [] \<and> ?t \<noteq> ''null'' then ?t else []) = cursor_text c"
    using n by (cases c) (simp_all add: opt_json_def cursor_text_def u64_json_def u64_text)
  have p: "parse_json (print_json ?j) = Some (JObj [(''next'', opt_json u64_json c), (''stats'', QueryStats_json st)])"
    using parse_print [OF wf] by (simp only: page_meta_json_def)
  show ?thesis
    unfolding decode_meta_def p option.case json.case
    by (simp only: m sum.case t list.distinct if_False logPageMeta.simps)
qed

section \<open>The cursor read back\<close>

text \<open>Where a page starts: after the rows the cursor counts.\<close>

definition cursor_offset :: "u64 option \<Rightarrow> u64" where
  "cursor_offset c = (case c of None \<Rightarrow> 0 | Some n \<Rightarrow> n)"

definition rows_before :: "u64 option \<Rightarrow> nat" where
  "rows_before c = unat (cursor_offset c)"

lemma r_u64_text: "r_u64 (JLit (itoa (unat n))) = Some (n :: u64)"
proof -
  have "r_u64 (JLit (int_text (uint n))) = Some n"
    using uint_bounded [of n] by (simp add: r_u64_def r_bounded_def)
  then show ?thesis by (simp add: u64_text)
qed

lemma cursor_back:
  "cursor_value (cursor_text c) = map_option (\<lambda>n. JLit (itoa (unat n))) c"
  by (simp add: cursor_value_def cursor_text_def split: option.splits)

lemma page_request_ok:
  assumes "struct_ok g u (LogQuery_fields q)"
  shows "struct_ok g u (logPageReq_fields \<lparr>lp_LogQuery = q, lp_After = cursor_text c\<rparr>)"
  using assms by (simp add: struct_ok_def logPageReq_fields_def cursor_text_def utf8_valid_ascii split: option.splits)

lemma page_served:
  assumes "serde_reads u" "struct_ok g u (LogQuery_fields q)" "build_log_query api q = Inr cs"
    and "engine d cs c = Inr (bs, st)"
  obtains t where "marshal g (logPageReq_fields \<lparr>lp_LogQuery = q, lp_After = cursor_text c\<rparr>) = Inr t"
    "ev_parse (query_log_page_handler api u msg engine ev) opLogPage t = None"
    "ev_page (query_log_page_handler api u msg engine ev) d t = Inr (bs, print_json (page_meta_json
       (page_next (lq_Limit q) (cursor_offset c) (qs_RowsReturned st)) st))"
proof -
  let ?r = "\<lparr>lp_LogQuery = q, lp_After = cursor_text c\<rparr>"
  from log_page.round_trip [OF assms(1) page_request_ok [OF assms(2)], of c] obtain t where
    t: "marshal g (logPageReq_fields ?r) = Inr t"
    "Option.bind (serde_object u t) (logPageReq_wire u) = Some (q, map_option (\<lambda>n. JLit (itoa (unat n))) c)"
    by (auto simp: log_page.reads_def cursor_back)
  have "query_log_page api u msg engine d t = Inr (bs, print_json (page_meta_json
       (page_next (lq_Limit q) (cursor_offset c) (qs_RowsReturned st)) st))"
    using assms(3,4) by (cases c) (simp_all add: query_log_page_def t(2) r_u64_text prev_offset_def cursor_offset_def)
  with t show ?thesis by (intro that [of t]) (simp_all add: query_log_page_handler_def)
qed

end
