(* ===== verification/Moves.thy ===== *)
theory Moves
  imports Queries
begin

text \<open>
  What a query may do to the rest of the process. Between opening a stream and fetching the page metadata
  the world only moves by steps of handlers and by changes that touch no handler: \<open>moves\<close> is the closure of
  the two, and what the paging proofs need (the database handles, the id counter, unused query ids, the
  metadata still to be filed) is followed along it by rule induction.
\<close>

section \<open>Moves\<close>

definition task_of :: "nat \<Rightarrow> 'db world \<Rightarrow> task" where
  "task_of h w = (case w_streams w h of Some st \<Rightarrow> st_task st | None \<Rightarrow> Done)"

definition same_tasks :: "'db world \<Rightarrow> 'db world \<Rightarrow> bool" where
  "same_tasks w w' \<longleftrightarrow> (\<forall>h. task_of h w' = task_of h w) \<and> w_dbs w' = w_dbs w \<and>
     w_page_meta w' = w_page_meta w \<and> w_query_ctr w' = w_query_ctr w \<and>
     w_max_in_flight w' = w_max_in_flight w \<and>
     (\<forall>q. w_query_errors w q = None \<longrightarrow> w_query_errors w' q = None)"

inductive moves :: "'db env \<Rightarrow> 'db world \<Rightarrow> 'db world \<Rightarrow> bool" for ev :: "'db env" where
  stay: "moves ev w w"
| keep: "moves ev w w1 \<Longrightarrow> same_tasks w1 w2 \<Longrightarrow> moves ev w w2"
| handler: "moves ev w w1 \<Longrightarrow> moves ev w (producer_step ev h w1)"

lemmas [intro] = moves.stay

lemma moves_trans: "moves ev w1 w2 \<Longrightarrow> moves ev w w1 \<Longrightarrow> moves ev w w2"
  by (induction rule: moves.induct) (auto intro: moves.keep moves.handler)

lemma moves_keep: "same_tasks w w' \<Longrightarrow> moves ev w w'"
  by (rule moves.keep [OF moves.stay])

lemma same_tasks_trans: "same_tasks w w1 \<Longrightarrow> same_tasks w1 w2 \<Longrightarrow> same_tasks w w2"
  by (simp add: same_tasks_def)

lemma same_tasks_refl [simp]: "same_tasks w w"
  by (simp add: same_tasks_def)

lemma task_put [simp]: "task_of h' (put_stream h st w) = (if h' = h then st_task st else task_of h' w)"
  by (simp add: task_of_def)

lemma task_Some [simp]: "w_streams w h = Some st \<Longrightarrow> task_of h w = st_task st"
  by (simp add: task_of_def)

lemma task_cong: "w_streams w' = w_streams w \<Longrightarrow> task_of h w' = task_of h w"
  by (simp add: task_of_def)

lemma same_tasks_put:
  "w_streams w h = Some st \<Longrightarrow> st_task st' = st_task st \<Longrightarrow> same_tasks w (put_stream h st' w)"
  by (auto simp: same_tasks_def)

lemma same_tasks_release: "same_tasks w (rec_release p w)" "same_tasks w (batch_release p w)" "same_tasks w (shell_free p w)"
  by (simp_all add: same_tasks_def rec_release_def batch_release_def shell_free_def task_of_def)

lemma same_tasks_import: "import_batch ev p w = (x, w') \<Longrightarrow> same_tasks w w'"
  by (auto simp: import_batch_def same_tasks_def task_of_def split: option.splits import_outcome.splits if_splits)

lemma same_tasks_close: "same_tasks w (sable_close h w)"
proof (cases "w_streams w h")
  case (Some st)
  have fold: "same_tasks w (fold batch_release ps w)" for ps
    by (induction ps arbitrary: w) (auto intro: same_tasks_trans same_tasks_release)
  let ?w = "(fold batch_release (st_buf st) w)\<lparr>w_in_flight := w_in_flight w - 1\<rparr>"
  have "same_tasks w ?w" using fold [of "st_buf st"] by (simp add: same_tasks_def task_of_def)
  moreover have "w_streams ?w h = Some st" using Some by (simp add: release_fold_streams)
  ultimately show ?thesis
    using Some same_tasks_put [of ?w h st "st\<lparr>st_buf := [], st_open := False\<rparr>"]
    by (auto simp: sable_close_def intro: same_tasks_trans)
qed (simp add: sable_close_def)

lemma same_tasks_take: "takeStoredError ev i w = (x, w') \<Longrightarrow> same_tasks w w'"
  by (auto simp: takeStoredError_def sable_call_def byte_handler_def query_error_handler_def Let_def same_tasks_def
      task_of_def split: option.splits prod.splits sum.splits if_splits)

lemma same_tasks_take_snd: "same_tasks w (snd (takeStoredError ev i w))"
  by (cases "takeStoredError ev i w") (simp add: same_tasks_take)

lemma same_tasks_Rows_Close: "Rows_Close ev r w = (r', w') \<Longrightarrow> same_tasks w w' \<and> r_queryID r' = r_queryID r"
  using same_tasks_trans [OF same_tasks_close same_tasks_take_snd, of w ev "r_queryID r" "r_s r"]
  by (auto simp: Rows_Close_def Let_def same_tasks_close split: if_splits)

lemma same_tasks_finish:
  assumes "finish ev e r w = (x, r', w')"
  shows "same_tasks w w' \<and> r_queryID r' = r_queryID r"
proof -
  obtain s w1 where q: "fetchQueryError ev r w = (s, w1)" by fastforce
  then have 1: "same_tasks w w1"
    by (auto simp: fetchQueryError_def dest: same_tasks_take split: prod.splits sum.splits if_splits)
  obtain e' where "Rows_Close ev (r\<lparr>r_err := e', r_ended := True\<rparr>) w1 = (r', w')"
    using assms by (auto simp: finish_def q Let_def split: prod.splits)
  from same_tasks_Rows_Close [OF this] 1 show ?thesis by (auto intro: same_tasks_trans)
qed

lemma moves_next: "sable_next ev h c w = (x, w') \<Longrightarrow> moves ev w w'"
proof (induction ev h c w rule: sable_next.induct)
  case (1 ev h c w)
  show ?case
  proof (cases "\<exists>st. w_streams w h = Some st \<and> st_open st \<and> ctx_err c w = None \<and> st_buf st = [] \<and>
      st_task st \<noteq> Done")
    case False
    with 1(2) show ?thesis
      by (auto simp: sable_next.simps [of ev h c w] intro!: moves_keep same_tasks_put
          split: option.splits if_splits list.splits)
  next
    case True
    then obtain st where st: "w_streams w h = Some st" "st_open st" "st_buf st = []" "st_task st \<noteq> Done"
      "ctx_err c w = None" by auto
    have "sable_next ev h c (producer_step ev h w) = (x, w')"
      using 1(2) st by (simp add: sable_next.simps [of ev h c w])
    from 1(1) [OF st(1) _ _ st(3,4) this] st have "moves ev (producer_step ev h w) w'" by simp
    then show ?thesis by (rule moves_trans) (rule moves.handler [OF moves.stay])
  qed
qed

lemma moves_env_run: "moves ev w (env_run ev es w)"
proof (induction es arbitrary: w)
  case (Cons e es)
  have "moves ev w (env_step ev e w)"
    by (cases e) (auto intro: moves.handler moves_keep simp: same_tasks_def task_of_def)
  with Cons [of "env_step ev e w"] show ?case by (auto simp: env_run_def intro: moves_trans)
qed (auto simp: env_run_def)

lemma moves_Rows_Next:
  assumes "Rows_Next ev r w = (x, r', w')"
  shows "moves ev w w' \<and> r_queryID r' = r_queryID r"
proof (cases "r_ended r")
  case True
  with assms show ?thesis by (auto simp: Rows_Next_def)
next
  case run: False
  obtain pp w1 where n: "sable_next ev (r_s r) (r_ctx r) w = (pp, w1)" by fastforce
  note m = moves_next [OF n]
  show ?thesis
  proof (cases pp)
    case None
    with assms run n obtain y where "finish ev None r w1 = (y, r', w')"
      by (auto simp: Rows_Next_def split: prod.splits)
    with same_tasks_finish m show ?thesis by (blast intro: moves.keep)
  next
    case (Some p)
    obtain rc w2 where i: "import_batch ev p w1 = (rc, w2)" by fastforce
    have m2: "moves ev w (shell_free p w2)"
      by (rule moves.keep [OF moves.keep [OF m same_tasks_import [OF i]] same_tasks_release(3)])
    show ?thesis
    proof (cases rc)
      case (Inl y)
      with assms run n Some i obtain z where "finish ev (Some y) r (shell_free p w2) = (z, r', w')"
        by (auto simp: Rows_Next_def Let_def split: prod.splits)
      with same_tasks_finish m2 show ?thesis by (blast intro: moves.keep)
    next
      case (Inr b)
      with assms run n Some i m2 show ?thesis by (auto simp: Rows_Next_def Let_def)
    qed
  qed
qed

lemma moves_drain:
  "drain ev dec sched r w acc = (res, r', w') \<Longrightarrow> moves ev w w' \<and> r_queryID r' = r_queryID r"
proof (induction sched w acc rule: drain_induct [of ev r dec])
  case (pull sched w acc)
  let ?w0 = "env_run ev (events sched) w"
  obtain rec e r1 w1 where n: "Rows_Next ev r ?w0 = ((rec, e), r1, w1)" by (metis prod_cases3 surj_pair)
  have m: "moves ev w w1" "r_queryID r1 = r_queryID r"
    using moves_Rows_Next [OF n] moves_env_run by (auto intro: moves_trans)
  show ?case
  proof (cases rec)
    case None
    have "(r', w') = Rows_Close ev r1 w1"
      using drain_end [OF n [unfolded None], of dec acc] pull.prems by (simp add: prod_eq_iff)
    with same_tasks_Rows_Close m show ?thesis by (metis moves.keep)
  next
    case (Some pb)
    obtain p b where pb: "pb = (p, b)" by fastforce
    note d = drain_pull [OF n [unfolded Some pb], of dec acc]
    show ?thesis
    proof (cases "dec b acc")
      case None
      with pull.prems d have "(r', w') = Rows_Close ev r w1" by (simp add: prod_eq_iff)
      with same_tasks_Rows_Close m show ?thesis by (metis moves.keep)
    next
      case acc': (Some acc')
      have n': "Rows_Next ev r ?w0 = ((Some (p, b), None), r, w1)" using n Some pb d by simp
      have "drain ev dec (tl sched) r (rec_release p w1) acc' = (res, r', w')"
        using d acc' pull.prems by simp
      from pull.IH [OF n' acc' this] m show ?thesis
        by (auto intro: moves_trans moves.keep [OF _ same_tasks_release(1)])
    qed
  qed
qed

section \<open>What is kept along moves\<close>

lemma keeps_producer [simp]:
  "w_query_ctr (producer_step ev h w) = w_query_ctr w" "w_max_in_flight (producer_step ev h w) = w_max_in_flight w"
proof -
  have start: "w_query_ctr w' = w_query_ctr w" "w_max_in_flight w' = w_max_in_flight w"
    if "start_handler ev op req w = (w', t)" for op req w' t
    by (subst start_handler_frame [OF that], simp)+
  show "w_query_ctr (producer_step ev h w) = w_query_ctr w" "w_max_in_flight (producer_step ev h w) = w_max_in_flight w"
    by (auto simp: producer_step_def start batch_release_def export_batch_def Let_def store_query_error_def
        split: option.splits task.splits list.splits item.splits sum.splits prod.splits)
qed

lemma moves_keeps:
  "moves ev w w' \<Longrightarrow> w_dbs w' = w_dbs w \<and> w_query_ctr w' = w_query_ctr w \<and> w_max_in_flight w' = w_max_in_flight w"
  by (induction rule: moves.induct) (simp_all add: same_tasks_def)

lemma qid_fresh_tasks:
  "qid_fresh q w \<longleftrightarrow> w_query_errors w q = None \<and> (\<forall>h. task_qid (task_of h w) \<noteq> Some q)"
  by (auto simp: qid_fresh_def task_of_def split: option.splits)

lemma qid_private_tasks:
  "qid_private h q w \<longleftrightarrow>
     (\<forall>h'. if h' = h then task_qid (task_of h' w) \<in> {None, Some q} else task_qid (task_of h' w) \<noteq> Some q)"
  by (auto simp: qid_private_def task_of_def split: option.splits if_splits)

text \<open>Starting a handler: it keeps the id of its task and only writes under that id.\<close>

lemma start_handler_id:
  assumes "start_handler ev op req w = (w', t)"
  shows "task_qid t = None \<or> task_qid t = task_qid (Start op req)"
    and "task_qid (Start op req) \<noteq> Some q \<Longrightarrow> w_query_errors w' q = w_query_errors w q"
    and "w_streams w' = w_streams w"
  using start_handler_outcome [OF assms] outcome_qid [of ev "w_dbs w" op req] same_core_start [OF assms]
  by (cases "start_outcome ev (w_dbs w) op req"; auto simp: same_core_def split: sum.splits simp del: task_qid.simps(3))+

lemma qid_fresh_producer: "qid_fresh q w \<Longrightarrow> qid_fresh q (producer_step ev h w)"
proof (cases "w_streams w h")
  case (Some st)
  assume f: "qid_fresh q w"
  then have q: "task_qid (st_task st) \<noteq> Some q" using Some by (auto simp: qid_fresh_def)
  have key: "qid_fresh q (put_stream h st' w')"
    if "w_streams w' = w_streams w" "w_query_errors w' q = None" "task_qid (st_task st') \<noteq> Some q" for st' w'
    using f that task_cong [OF that(1)] by (simp add: qid_fresh_tasks)
  show ?thesis
  proof (cases "st_task st")
    case (Start op req)
    obtain w' t where s: "start_handler ev op req w = (w', t)" by fastforce
    note i = start_handler_id [OF s]
    have "qid_fresh q (put_stream h (st\<lparr>st_task := t\<rparr>) w')"
      by (rule key [OF i(3)]) (use i(1,2) q Start f in \<open>auto simp: qid_fresh_def\<close>)
    with s Some Start show ?thesis by (simp add: producer_step_def)
  next
    case (Sending k "is")
    with q f Some show ?thesis
      by (auto simp: producer_step_def batch_release_def export_batch_def Let_def store_query_error_def qid_fresh_def
          intro!: key split: list.splits item.splits option.splits)
  qed (use f Some in \<open>simp add: producer_step_def\<close>)
qed (simp add: producer_step_def)

lemma moves_fresh: "moves ev w w' \<Longrightarrow> qid_fresh q w \<Longrightarrow> qid_fresh q w'"
proof (induction rule: moves.induct)
  case (keep w w1 w2)
  then show ?case by (simp add: qid_fresh_tasks same_tasks_def)
qed (simp_all add: qid_fresh_producer)

section \<open>The metadata a page will have filed\<close>

text \<open>What the start of a paging handler files, and under which id.\<close>

fun start_meta :: "'db env \<Rightarrow> (u64 \<rightharpoonup> 'db) \<Rightarrow> task \<Rightarrow> (u64 \<times> bytes) option" where
  "start_meta ev dbs (Start op req) =
     (if op = opLogPage
      then (case split_stream_req req of
              None \<Rightarrow> None
            | Some (i, q, payload) \<Rightarrow>
                if ev_parse ev opLogPage payload \<noteq> None then None
                else (case dbs i of
                        None \<Rightarrow> None
                      | Some db \<Rightarrow> (case ev_page ev db payload of Inl _ \<Rightarrow> None | Inr (bs, m) \<Rightarrow> Some (q, m))))
      else None)"
| "start_meta ev dbs _ = None"

definition page_view :: "'db env \<Rightarrow> nat \<Rightarrow> u64 \<Rightarrow> 'db world \<Rightarrow> bytes option" where
  "page_view ev h q w =
     (case start_meta ev (w_dbs w) (task_of h w) of Some (_, m) \<Rightarrow> Some m | None \<Rightarrow> w_page_meta w q)"

lemma page_view_cong:
  "w_dbs w' = w_dbs w \<Longrightarrow> task_of h w' = task_of h w \<Longrightarrow> w_page_meta w' q = w_page_meta w q \<Longrightarrow>
   page_view ev h q w' = page_view ev h q w"
  by (simp add: page_view_def cong: option.case_cong)

lemma start_handler_meta:
  assumes "start_handler ev op req w = (w', t)"
  shows "w_page_meta w' = (case start_meta ev (w_dbs w) (Start op req) of
      None \<Rightarrow> w_page_meta w | Some (q, m) \<Rightarrow> (w_page_meta w)(q \<mapsto> m)) \<and>
    start_meta ev dbs t = None"
  using assms
  by (auto simp: start_handler_def sql_stream_start_def typed_stream_start_def log_page_start_def
      store_query_error_def store_page_meta_def op_defs split: if_splits option.splits sum.splits prod.splits)

lemma producer_files_meta:
  assumes "task_of h w = t" "start_meta ev (w_dbs w) t = Some (q, m)"
  shows "w_page_meta (producer_step ev h w) = (w_page_meta w)(q \<mapsto> m)"
proof -
  from assms obtain op req where t: "t = Start op req" by (cases t) simp_all
  with assms(1) obtain st where st: "w_streams w h = Some st" "st_task st = Start op req"
    by (auto simp: task_of_def split: option.splits)
  obtain w' t' where s: "start_handler ev op req w = (w', t')" by fastforce
  with start_handler_meta [OF s] assms(2) st t show ?thesis by (simp add: producer_step_def del: start_meta.simps(1))
qed

lemma start_meta_id: "start_meta ev dbs t = Some (q, m) \<Longrightarrow> task_qid t = Some q"
  by (cases t) (auto split: if_splits option.splits sum.splits)

lemma sending_meta:
  assumes "w_streams w h = Some st" "st_task st = Sending k is"
  shows "w_page_meta (producer_step ev h w) = w_page_meta w \<and>
    start_meta ev dbs (task_of h (producer_step ev h w)) = None"
  using assms
  by (auto simp: producer_step_def batch_release_def export_batch_def Let_def store_query_error_def
      split: list.splits item.splits option.splits)

lemma page_view_producer:
  assumes priv: "qid_private h q w"
  shows "page_view ev h q (producer_step ev h' w) = page_view ev h q w"
proof (cases "w_streams w h'")
  case (Some st)
  have o: "task_of h (producer_step ev h' w) = task_of h w" if "h' \<noteq> h"
    using producer_other [OF that, of ev w] by (simp add: task_of_def)
  have id: "if h' = h then task_qid (st_task st) \<in> {None, Some q} else task_qid (st_task st) \<noteq> Some q"
    by (rule priv [unfolded qid_private_def, rule_format, OF Some])
  show ?thesis
  proof (cases "st_task st")
    case (Start op req)
    obtain w' t where s: "start_handler ev op req w = (w', t)" by fastforce
    note m = start_handler_meta [OF s]
    have p: "producer_step ev h' w = put_stream h' (st\<lparr>st_task := t\<rparr>) w'"
      using Some Start s by (simp add: producer_step_def)
    have d: "w_dbs w' = w_dbs w" by (subst start_handler_frame [OF s]) simp
    show ?thesis
    proof (cases "start_meta ev (w_dbs w) (Start op req)")
      case None
      show ?thesis
      proof (cases "h' = h")
        case True
        with None m Some Start d show ?thesis by (simp add: page_view_def p [unfolded True] del: start_meta.simps(1))
      next
        case False
        with None m d o show ?thesis by (intro page_view_cong) (simp_all add: p del: start_meta.simps(1))
      qed
    next
      case (Some qm)
      obtain k x where qm: "qm = (k, x)" by fastforce
      with Some start_meta_id have k: "task_qid (st_task st) = Some k" using Start by metis
      show ?thesis
      proof (cases "h' = h")
        case True
        with k id have "k = q" by simp
        with True m Some qm Start \<open>w_streams w h' = Some st\<close> d show ?thesis
          by (simp add: page_view_def p [unfolded True] del: start_meta.simps(1))
      next
        case False
        with k id have "k \<noteq> q" by simp
        with False m Some qm o d show ?thesis by (intro page_view_cong) (simp_all add: p del: start_meta.simps(1))
      qed
    qed
  next
    case (Sending k "is")
    note m = sending_meta [OF Some this, of ev]
    show ?thesis using m o Some Sending
      by (cases "h' = h") (simp add: page_view_def, intro page_view_cong, simp_all)
  qed (use Some in \<open>simp add: producer_step_def\<close>)
qed (simp add: producer_step_def)

lemma moves_page_view:
  "moves ev w w' \<Longrightarrow> qid_private h q w \<Longrightarrow> qid_private h q w' \<and> page_view ev h q w' = page_view ev h q w"
proof (induction rule: moves.induct)
  case (keep w w1 w2)
  then have "qid_private h q w2 = qid_private h q w1" by (simp only: qid_private_tasks same_tasks_def)
  moreover have "page_view ev h q w2 = page_view ev h q w1" using keep(2) by (intro page_view_cong) (simp_all add: same_tasks_def)
  ultimately show ?case using keep by simp
qed (simp_all add: page_view_producer qid_private_producer)

text \<open>A stream that ends without an error has run its handler to the end.\<close>

lemma next_None_done:
  "sable_next ev h c w = (None, w') \<Longrightarrow> opened h w \<Longrightarrow> ctx_err c w = None \<Longrightarrow> task_of h w' = Done"
proof (induction ev h c w rule: sable_next.induct)
  case (1 ev h c w)
  from 1(3) obtain st where st: "w_streams w h = Some st" "st_open st" by (auto simp: opened_def)
  show ?case
  proof (cases "st_buf st = [] \<and> st_task st \<noteq> Done")
    case False
    with 1(2,4) st show ?thesis
      by (auto simp: sable_next.simps [of ev h c w] split: if_splits list.splits)
  next
    case True
    have n: "sable_next ev h c (producer_step ev h w) = (None, w')"
      using 1(2,4) st True by (simp add: sable_next.simps [of ev h c w])
    show ?thesis
      by (rule 1(1) [OF st(1) _ _ _ _ n]) (use True st 1(3,4) in \<open>auto simp: opened_producer ctx_err_cong [OF ctx_producer]\<close>)
  qed
qed

lemma Rows_Next_done:
  assumes "Rows_Next ev r w = ((None, None), r', w')" "\<not> r_ended r" "opened (r_s r) w"
  shows "task_of (r_s r) w' = Done"
proof -
  obtain pp w1 where n: "sable_next ev (r_s r) (r_ctx r) w = (pp, w1)" by fastforce
  have none: "finish ev ie r w1 = (None, r', w2) \<Longrightarrow> ie = None \<and> ctx_err (r_ctx r) w1 = None" for ie w1 w2
  proof -
    assume f: "finish ev ie r w1 = (None, r', w2)"
    obtain s w3 where q: "fetchQueryError ev r w1 = (s, w3)" by fastforce
    have "w_ctx w3 = w_ctx w1"
      using q by (auto simp: fetchQueryError_def takeStoredError_def sable_call_def byte_handler_def
          query_error_handler_def Let_def split: option.splits prod.splits sum.splits if_splits)
    then have c: "ctx_err (r_ctx r) w3 = ctx_err (r_ctx r) w1" by (rule ctx_err_cong)
    let ?e = "case ie of Some x \<Rightarrow> Some x | None \<Rightarrow> (case ctx_err (r_ctx r) w3 of Some ce \<Rightarrow> Some ce | None \<Rightarrow> s)"
    have "r_err r' = None" "r_err r' = ?e"
      using f q by (auto simp: finish_def Let_def Rows_Close_def split: prod.splits if_splits)
    with c show ?thesis by (auto split: option.splits)
  qed
  show ?thesis
  proof (cases pp)
    case None
    with assms n have f: "finish ev None r w1 = (None, r', w')" by (auto simp: Rows_Next_def split: prod.splits)
    from none [OF f] next_ctx [OF n] have "ctx_err (r_ctx r) w = None" by simp
    from next_None_done [OF n [unfolded None] assms(3) this] same_tasks_finish [OF f] show ?thesis
      by (simp add: same_tasks_def)
  next
    case (Some p)
    with assms n none show ?thesis
      by (auto simp: Rows_Next_def Let_def split: prod.splits sum.splits)
  qed
qed

lemma drain_done:
  "drain ev dec sched r w acc = (Some (Inr out), r', w') \<Longrightarrow> \<not> r_ended r \<Longrightarrow> opened (r_s r) w \<Longrightarrow>
   task_of (r_s r) w' = Done"
proof (induction sched w acc rule: drain_induct [of ev r dec])
  case (pull sched w acc)
  let ?w0 = "env_run ev (events sched) w"
  have op: "opened (r_s r) ?w0" using pull.prems(3) same_streams_env_run [of w ev] by (simp add: same_streams_def)
  obtain rec e r1 w1 where n: "Rows_Next ev r ?w0 = ((rec, e), r1, w1)" by (metis prod_cases3 surj_pair)
  show ?case
  proof (cases rec)
    case None
    note d = drain_end [OF n [unfolded None], of dec acc]
    with pull.prems(1) have c: "(r', w') = Rows_Close ev r1 w1" "e = None"
      by (auto simp: prod_eq_iff split: option.splits)
    have "task_of (r_s r) w1 = Done"
      by (rule Rows_Next_done [OF n [unfolded None c(2)] pull.prems(2) op])
    with same_tasks_Rows_Close [OF c(1) [symmetric]] show ?thesis by (simp add: same_tasks_def)
  next
    case (Some pb)
    obtain p b where pb: "pb = (p, b)" by fastforce
    note d = drain_pull [OF n [unfolded Some pb], of dec acc]
    obtain acc' where acc': "dec b acc = Some acc'" using pull.prems(1) d by (auto split: option.splits)
    have n': "Rows_Next ev r ?w0 = ((Some (p, b), None), r, w1)" using n Some pb d by simp
    have "drain ev dec (tl sched) r (rec_release p w1) acc' = (Some (Inr out), r', w')"
      using d acc' pull.prems(1) by simp
    moreover have "opened (r_s r) (rec_release p w1)"
      using Rows_Next_streams [OF n] Some op by (simp add: same_streams_def opened_def rec_release_def)
    ultimately show ?thesis using pull.IH [OF n' acc'] pull.prems(2) by blast
  qed
qed

lemma drain_files_meta:
  assumes "drain ev dec sched r w acc = (Some (Inr out), r', w')"
    and "\<not> r_ended r" "opened (r_s r) w" "qid_private (r_s r) (r_queryID r) w"
  shows "w_page_meta w' (r_queryID r) = page_view ev (r_s r) (r_queryID r) w"
  using drain_done [OF assms(1-3)] moves_page_view [OF _ assms(4), of ev w'] moves_drain [OF assms(1)]
  by (simp add: page_view_def)

end
