(* ===== verification/Paging.thy ===== *)
theory Paging
  imports LogPage Moves
begin

text \<open>
  Paging through a log query (\<open>QueryLogPage\<close> called with the cursor of the page before, as its comment in
  \<open>logpage.go\<close> says to): what one page returns, and that the walk over the pages ends with every row.
\<close>

section \<open>One page\<close>

text \<open>
  A process that can run \<open>n\<close> page queries in a row: nothing is cancelled, refused or lost on the way, and the
  next \<open>n\<close> query ids are unused.
\<close>

definition paging_ready :: "nat \<Rightarrow> 'db env \<Rightarrow> nat option \<Rightarrow> 'db world \<Rightarrow> bool" where
  "paging_ready n ev ctx w \<longleftrightarrow> winv w \<and> admits w \<and> (\<forall>i<n. qid_fresh (w_query_ctr w + 1 + of_nat i) w) \<and>
     (\<forall>op p. ev_call_err ev op p = None) \<and> (\<forall>b. ev_import ev b = ImportOk \<and> ev_to_ffi ev b = None) \<and>
     ctx_err ctx w = None"

lemma paging_ready_handler [simp]:
  "paging_ready n (query_log_page_handler api u msg engine ev) ctx w = paging_ready n ev ctx w"
  by (simp add: paging_ready_def query_log_page_handler_def)

lemma paging_ready_ready:
  "paging_ready (Suc n) ev ctx w \<Longrightarrow> list_all (not_cancelled ctx) sched \<Longrightarrow> ready ev ctx sched w"
  by (force simp: paging_ready_def ready_def slot_fetch_ok_def)

lemma openStream_fields:
  assumes "openStream db ctx op payload w = (Inr r, w1)"
  shows "w_dbs w1 = w_dbs w" "w_query_ctr w1 = w_query_ctr w + 1" "w_max_in_flight w1 = w_max_in_flight w"
    "w_query_errors w1 = w_query_errors w" "r_queryID r = w_query_ctr w + 1"
    "task_of h w1 = (if h = r_s r then Start op (stream_frame (db_id db) (w_query_ctr w + 1) payload) else task_of h w)"
  using assms
  by (auto simp: openStream_def queryCtr_Add_def sable_open_stream_def admits_def task_of_def split: if_splits)

lemma fresh_after_open:
  assumes "openStream db ctx op payload w = (Inr r, w1)" "qid_fresh q w" "q \<noteq> w_query_ctr w + 1"
  shows "qid_fresh q w1"
  using assms(2,3) openStream_fields [OF assms(1)] by (simp add: qid_fresh_tasks)

lemma later_id: "Suc i < 2 ^ 64 \<Longrightarrow> w + 1 + of_nat (Suc i) \<noteq> (w + 1 :: u64)"
proof -
  assume "Suc i < 2 ^ 64"
  then have "unat (of_nat (Suc i) :: u64) = Suc i" by (simp add: unat_of_nat del: of_nat_Suc)
  then have "(of_nat (Suc i) :: u64) \<noteq> 0" by (metis nat.distinct(1) unsigned_0)
  then show ?thesis by (metis add.right_neutral add_left_cancel)
qed

text \<open>One query leaves the process ready for the next.\<close>

lemma query_step:
  assumes rd: "paging_ready (Suc n) ev ctx w" "n < 2 ^ 64" "list_all (not_cancelled ctx) sched"
    and a: "answer ev w db op p = Inr (map Item bs)" "dec_all dec bs acc = Some out"
    and op: "openStream db ctx op p w = (Inr r, w1)" "drain ev dec sched r w1 acc = (res, r2, w2)"
  shows "res = Some (Inr out)" "paging_ready n ev ctx w2" "w_dbs w2 = w_dbs w" "undisturbed w w2"
proof -
  let ?q = "w_query_ctr w + 1"
  note r = paging_ready_ready [OF rd(1,3)]
  have o: "winv w" "admits w" "qid_fresh ?q w" using r by (simp_all add: ready_def)
  from openStream_ok [OF o, of db ctx op p ev] op(1) have
    live: "live_cursor r w1" and rw: "r_ctx r = ctx" "r_queryID r = ?q" "w_ctx w1 = w_ctx w"
    by auto
  note f = openStream_fields [OF op(1)]
  from collect_answer [OF r a] op show res: "res = Some (Inr out)" by (simp add: collect_def)
  note dr = op(2) [unfolded res]
  have mv: "moves ev w1 w2" using moves_drain [OF dr] by simp
  show u: "undisturbed w w2"
    using collect_open [OF closing_drain o(1), of ev dec sched acc db ctx op p] op by (simp add: collect_def)
  show dbs: "w_dbs w2 = w_dbs w" using moves_keeps [OF mv] f by simp
  have keeps: "w_query_ctr w2 = ?q" "w_max_in_flight w2 = w_max_in_flight w"
    using moves_keeps [OF mv] f by simp_all
  have fresh: "qid_fresh (?q + 1 + of_nat i) w2" if "i < n" for i
  proof -
    have "qid_fresh (?q + of_nat (Suc i)) w" using rd(1) that by (simp add: paging_ready_def del: of_nat_Suc)
    then have "qid_fresh (?q + of_nat (Suc i)) w2"
      using moves_fresh [OF mv] fresh_after_open [OF op(1)] later_id [of i] that rd(2) by simp
    then show ?thesis by (simp add: add.assoc)
  qed
  have "ctx_err ctx w2 = None"
    using drain_result [OF live _ _ dr] rw rd
    by (auto simp: paging_ready_def slot_fetch_ok_def list_all_iff ctx_err_def split: option.splits)
  then show "paging_ready n ev ctx w2"
    using rd(1) u keeps fresh by (simp add: paging_ready_def undisturbed_def admits_def)
qed

lemma paging_ready_meta:
  "paging_ready n ev ctx (w\<lparr>w_page_meta := m\<rparr>) = paging_ready n ev ctx w"
proof -
  have "winv (w\<lparr>w_page_meta := m\<rparr>) = winv w" by (rule same_core_winv) (simp add: same_core_def)
  moreover have "qid_fresh q (w\<lparr>w_page_meta := m\<rparr>) = qid_fresh q w" for q by (simp add: qid_fresh_def)
  ultimately show ?thesis by (simp add: paging_ready_def admits_def ctx_err_def cong: option.case_cong)
qed

lemma page_step:
  assumes rd: "paging_ready (Suc n) ev ctx w" "n < 2 ^ 64" "list_all (not_cancelled ctx) sched"
    and d: "w_dbs w (db_id db) = Some d"
    and t: "marshal g (logPageReq_fields \<lparr>lp_LogQuery = q, lp_After = after\<rparr>) = Inr t"
    and p: "ev_parse ev opLogPage t = None" "ev_page ev d t = Inr (bs, meta)"
    and es: "dec_all (decode_rows log_entry_row) bs [] = Some es"
    and m: "decode_meta g meta = Inr m" "meta \<noteq> []"
  shows "\<exists>w'. QueryLogPage ev g sched db ctx q after w =
      (Some (Inr \<lparr>pg_Entries = es, pg_Next = pm_next m, pg_Stats = pm_stats m\<rparr>), w') \<and>
    paging_ready n ev ctx w' \<and> w_dbs w' = w_dbs w"
proof -
  let ?q = "w_query_ctr w + 1"
  let ?dec = "decode_rows log_entry_row"
  have o: "winv w" "admits w" "qid_fresh ?q w" using paging_ready_ready [OF rd(1,3)] by (simp_all add: ready_def)
  from openStream_ok [OF o, of db ctx opLogPage t ev] obtain rw w1 where
    open1: "openStream db ctx opLogPage t w = (Inr rw, w1)" and live: "live_cursor rw w1" and rw: "r_queryID rw = ?q"
    by auto
  note f = openStream_fields [OF open1]
  obtain res r2 w2 where dr: "drain ev ?dec sched rw w1 [] = (res, r2, w2)" by (metis prod_cases3)
  have "opLogPage \<noteq> opSQL" by (simp add: op_defs)
  then have "answer ev w db opLogPage t = Inr (map Item bs)"
    by (simp add: answer_def handler_reply_def d p)
  note step = query_step [OF rd this es open1 dr]
  note dr = dr [unfolded step(1)]
  have lv: "\<not> r_ended rw" "opened (r_s rw) w1" "qid_private (r_s rw) ?q w1"
    using live rw by (simp_all add: live_cursor_def)
  have "page_view ev (r_s rw) ?q w1 = Some meta"
    using f d p by (simp add: page_view_def)
  with drain_files_meta [OF dr lv(1,2)] lv(3) rw have filed: "w_page_meta w2 ?q = Some meta" by simp
  have call: "ev_call_err ev op x = None" for op x using rd(1) by (simp add: paging_ready_def)
  have fetch: "fetchLogPageMeta ev g ?q w2 = (Inr m, w2\<lparr>w_page_meta := (w_page_meta w2)(?q := None)\<rparr>)"
    using m filed by (simp add: fetchLogPageMeta_def sable_call_def call byte_handler_def log_page_meta_handler_def op_defs)
  have "QueryLogPage ev g sched db ctx q after w =
      (Some (Inr \<lparr>pg_Entries = es, pg_Next = pm_next m, pg_Stats = pm_stats m\<rparr>),
       w2\<lparr>w_page_meta := (w_page_meta w2)(?q := None)\<rparr>)"
    using open1 dr t fetch rw by (simp add: QueryLogPage_def send_query_def decodeLogEntries_def)
  with step(2,3) show ?thesis by (auto simp: paging_ready_meta)
qed

section \<open>The walk over the pages\<close>

text \<open>
  The loop of a client: a nil cursor for the first page, then the cursor of the page before while it has
  more. \<open>n\<close> bounds the number of pages; \<open>None\<close> is a reader's panic or the bound.
\<close>

fun page_loop ::
  "nat \<Rightarrow> 'db env \<Rightarrow> gojson \<Rightarrow> (nat \<Rightarrow> event list list) \<Rightarrow> DB \<Rightarrow> nat option \<Rightarrow> LogQuery \<Rightarrow> bytes \<Rightarrow> 'db world \<Rightarrow>
   LogEntry list result option" where
  "page_loop 0 ev g sched db ctx q after w = None"
| "page_loop (Suc n) ev g sched db ctx q after w =
     (case QueryLogPage ev g (sched n) db ctx q after w of
        (None, _) \<Rightarrow> None
      | (Some (Inl e), _) \<Rightarrow> Some (Inl e)
      | (Some (Inr p), w') \<Rightarrow>
          if HasMore (pg_Next p)
          then (case page_loop n ev g sched db ctx q (pg_Next p) w' of
                  Some (Inr es) \<Rightarrow> Some (Inr (pg_Entries p @ es))
                | stop \<Rightarrow> stop)
          else Some (Inr (pg_Entries p)))"

text \<open>
  What the engine documents of a paged query: a page starts after the rows its cursor counts, holds at
  most \<open>L\<close> rows in the order of the query, and reports how many it returned.
\<close>

definition offset_pager ::
  "('db \<Rightarrow> qcall list \<Rightarrow> u64 option \<Rightarrow> string + batch list \<times> QueryStats) \<Rightarrow> 'db \<Rightarrow> qcall list \<Rightarrow> nat \<Rightarrow>
   LogEntry list \<Rightarrow> bool" where
  "offset_pager engine d cs L rows \<longleftrightarrow>
     (\<forall>c. \<exists>bs st. engine d cs c = Inr (bs, st) \<and>
        dec_all (decode_rows log_entry_row) bs [] = Some (take L (drop (rows_before c) rows)) \<and>
        unat (qs_RowsReturned st) = length (take L (drop (rows_before c) rows)))"

lemma page_next_offset:
  assumes "0 < sint limit" "unat limit = L" "unat ret = length (take L (drop (rows_before c) rows))"
    and "length rows < 2 ^ 64"
  shows "if L \<le> length rows - rows_before c
    then \<exists>n. page_next limit (cursor_offset c) ret = Some n \<and> unat n = rows_before c + L
    else page_next limit (cursor_offset c) ret = None"
proof -
  let ?k = "rows_before c" and ?o = "cursor_offset c"
  have k: "unat ?o = ?k" by (simp add: rows_before_def)
  have "0 < L" using assms(1,2) by (cases "limit = 0") (auto simp: unat_gt_0)
  have le: "limit \<le> ret \<longleftrightarrow> L \<le> length rows - ?k"
    using assms(2,3) by (auto simp: word_le_nat_alt)
  show ?thesis
  proof (cases "L \<le> length rows - ?k")
    case True
    then have r: "unat ret = L" using assms(3) by simp
    have "?k + L < 2 ^ 64" using True \<open>0 < L\<close> assms(4) by linarith
    then have "unat (?o + ret) = ?k + L" using k r by (simp add: unat_word_ariths)
    with True le assms(1) show ?thesis by (simp add: page_next_def)
  next
    case False
    with le show ?thesis by (simp add: page_next_def)
  qed
qed

lemma walk:
  assumes sched: "\<And>n. list_all (not_cancelled ctx) (sched n)" and u: "serde_reads u" "struct_ok g u (LogQuery_fields q)"
    and cs: "build_log_query api q = Inr cs" and pager: "offset_pager engine d cs L rows"
    and L: "0 < sint (lq_Limit q)" "unat (lq_Limit q) = L" and len: "length rows < 2 ^ 64"
  shows "paging_ready n ev ctx w \<Longrightarrow> w_dbs w (db_id db) = Some d \<Longrightarrow> n = (length rows - rows_before c) div L + 1 \<Longrightarrow>
    page_loop n (query_log_page_handler api u msg engine ev) g sched db ctx q (cursor_text c) w =
      Some (Inr (drop (rows_before c) rows))"
proof (induction n arbitrary: c w)
  case (Suc n)
  let ?ev = "query_log_page_handler api u msg engine ev"
  let ?es = "take L (drop (rows_before c) rows)"
  obtain bs st where e: "engine d cs c = Inr (bs, st)"
    "dec_all (decode_rows log_entry_row) bs [] = Some ?es" "unat (qs_RowsReturned st) = length ?es"
    using pager unfolding offset_pager_def by blast
  let ?next = "page_next (lq_Limit q) (cursor_offset c) (qs_RowsReturned st)"
  from page_served [OF u cs, where engine = engine and d = d and c = c, OF e(1), where msg = msg and ev = ev] obtain t where t:
    "marshal g (logPageReq_fields \<lparr>lp_LogQuery = q, lp_After = cursor_text c\<rparr>) = Inr t"
    "ev_parse ?ev opLogPage t = None" "ev_page ?ev d t = Inr (bs, print_json (page_meta_json ?next st))" by metis
  have "print_json (page_meta_json ?next st) \<noteq> []" by (simp add: page_meta_json_def)
  note m = decode_meta_print [of g ?next st] this
  have "0 < L" using L by (cases "lq_Limit q = 0") (auto simp: unat_gt_0)
  have n: "n = (length rows - rows_before c) div L" using Suc.prems(3) by simp
  also have "\<dots> \<le> length rows" by (rule order_trans [OF div_le_dividend]) simp
  finally have "n < 2 ^ 64" using len by linarith
  moreover have "paging_ready (Suc n) ?ev ctx w" using Suc.prems(1) by simp
  ultimately obtain w' where w':
    "QueryLogPage ?ev g (sched n) db ctx q (cursor_text c) w =
      (Some (Inr \<lparr>pg_Entries = ?es, pg_Next = cursor_text ?next, pg_Stats = st\<rparr>), w')"
    "paging_ready n ?ev ctx w'" "w_dbs w' = w_dbs w"
    using page_step [OF _ _ sched Suc.prems(2) t e(2) m] by auto
  note off = page_next_offset [OF L e(3) len]
  show ?case
  proof (cases "L \<le> length rows - rows_before c")
    case True
    with off obtain k where k: "?next = Some k" "rows_before (Some k) = rows_before c + L"
      by (auto simp: rows_before_def cursor_offset_def)
    have "n = (length rows - rows_before (Some k)) div L + 1"
      using n k(2) True \<open>0 < L\<close> by (simp add: le_div_geq diff_diff_left)
    with Suc.IH [of w' "Some k"] w'(2,3) Suc.prems(2)
    have ih: "page_loop n ?ev g sched db ctx q (cursor_text (Some k)) w' = Some (Inr (drop (rows_before (Some k)) rows))"
      by simp
    have h: "HasMore (cursor_text (Some k))" by (simp add: HasMore_def cursor_text_def)
    have "?es @ drop (rows_before (Some k)) rows = drop (rows_before c) rows"
      using append_take_drop_id [of L "drop (rows_before c) rows"] by (simp add: k(2) add.commute)
    with w'(1) k(1) ih h show ?thesis by simp
  next
    case False
    with off w'(1) show ?thesis by (simp add: HasMore_def cursor_text_def)
  qed
qed simp

section \<open>What a client can rely on\<close>

text \<open>An engine with three log rows, for the examples.\<close>

definition demo_api :: imbh_api where
  "demo_api = \<lparr>ia_trace_id = (\<lambda>_. None), ia_span_id = (\<lambda>_. None), ia_debug = id\<rparr>"

definition demo_bodies :: "string list" where
  "demo_bodies = [''a'', ''b'', ''c'']"

definition demo_entry :: "string \<Rightarrow> LogEntry" where
  "demo_entry s = \<lparr>le_Time = 0, le_ObservedTime = 0, le_Service = [], le_Severity = 0, le_SeverityText = [], le_Body = s,
     le_Attributes = [], le_TraceID = [], le_SpanID = []\<rparr>"

definition demo_pages :: "nat \<Rightarrow> nat \<Rightarrow> qcall list \<Rightarrow> u64 option \<Rightarrow> string + batch list \<times> QueryStats" where
  "demo_pages L d cs c =
     (let rows = take L (drop (rows_before c) demo_bodies)
      in Inr ([utf8_batch ''body'' rows], QueryStats_zero\<lparr>qs_RowsReturned := of_nat (length rows)\<rparr>))"

definition demo_paged :: LogQuery where
  "demo_paged = \<lparr>lq_Service = [], lq_Match = [], lq_AttrEq = [], lq_Start = 0, lq_End = 0, lq_Limit = 2,
     lq_Backward = False, lq_TraceID = [], lq_SpanID = [], lq_SeverityAtLeast = 0, lq_AttrExists = [],
     lq_AttrMatches = [], lq_AttrIn = [], lq_AttrNotIn = [], lq_AttrGt = [], lq_AttrGe = [], lq_AttrLt = [],
     lq_AttrLe = [], lq_AttrRegex = [], lq_ObservedAfter = 0, lq_OrderBy = []\<rparr>"

lemma demo_body_rows: "dec_all (decode_rows log_entry_row) [utf8_batch ''body'' xs] [] = Some (map demo_entry xs)"
proof -
  have "log_entry_row (columnsByName (utf8_batch ''body'' xs)) i = Some (demo_entry (xs ! i))" if "i < length xs" for i
    using that by (simp add: utf8_batch_def log_entry_row_def columnsByName_map_of demo_entry_def
        int64At_def bytesAt_def) (simp add: stringAt_def)
  from decode_rows_map [of xs log_entry_row "utf8_batch ''body'' xs" demo_entry "[]", OF this] show ?thesis
    by (simp add: utf8_batch_def)
qed

lemma demo_paged_ok: "struct_ok demo_gojson demo_rust (LogQuery_fields (demo_paged\<lparr>lq_Limit := k\<rparr>))"
  by (simp add: struct_ok_def LogQuery_fields_def demo_paged_def map_ok_def set_ok_def utf8_valid_ascii)

lemma demo_paged_build: "\<exists>cs. build_log_query demo_api (demo_paged\<lparr>lq_Limit := k\<rparr>) = Inr cs"
  by (simp add: build_log_query_def demo_paged_def)

lemma demo_paging_ready: "paging_ready n demo_env (Some 0) demo_db_world"
  by (simp add: paging_ready_def demo_db_winv demo_db_fields qid_fresh_def demo_env_def ctx_err_def)

text \<open>
  C14. A page returns the rows the engine found for the request and the resume point passed, with the
  engine's statistics, and a cursor for more exactly when a positive limit was reached: without a limit
  there is no next page, however many rows were left.
\<close>
theorem page_end_to_end:
  assumes "paging_ready 1 ev ctx w" "list_all (not_cancelled ctx) sched" "w_dbs w (db_id db) = Some d"
    and "serde_reads u" "struct_ok g u (LogQuery_fields q)" "build_log_query api q = Inr cs"
    and "engine d cs c = Inr (bs, st)" "dec_all (decode_rows log_entry_row) bs [] = Some es"
  shows "\<exists>next'. fst (QueryLogPage (query_log_page_handler api u msg engine ev) g sched db ctx q (cursor_text c) w) =
      Some (Inr \<lparr>pg_Entries = es, pg_Next = next', pg_Stats = st\<rparr>) \<and>
    (HasMore next' \<longleftrightarrow> 0 < sint (lq_Limit q) \<and> lq_Limit q \<le> qs_RowsReturned st) \<and>
    (HasMore next' \<longrightarrow> next' = itoa (unat (cursor_offset c + qs_RowsReturned st)))"
proof -
  let ?ev = "query_log_page_handler api u msg engine ev"
  let ?next = "page_next (lq_Limit q) (cursor_offset c) (qs_RowsReturned st)"
  from page_served [OF assms(4-6), where engine = engine and d = d and c = c, OF assms(7), where msg = msg and ev = ev]
  obtain t where t: "marshal g (logPageReq_fields \<lparr>lp_LogQuery = q, lp_After = cursor_text c\<rparr>) = Inr t"
    "ev_parse ?ev opLogPage t = None" "ev_page ?ev d t = Inr (bs, print_json (page_meta_json ?next st))" by metis
  have "print_json (page_meta_json ?next st) \<noteq> []" by (simp add: page_meta_json_def)
  note m = decode_meta_print [of g ?next st] this
  have "paging_ready (Suc 0) ?ev ctx w" using assms(1) by simp
  from page_step [OF this _ assms(2,3) t assms(8) m] show ?thesis
    by (auto simp: HasMore_def cursor_text_def page_next_def)
qed

theorem page_end_to_end_witness:
  "\<exists>next'. fst (QueryLogPage (query_log_page_handler demo_api demo_rust id (demo_pages 2) demo_env) demo_gojson [] \<lparr>db_id = 1\<rparr>
      (Some 0) (demo_paged\<lparr>lq_Limit := 0\<rparr>) [] demo_db_world) =
    Some (Inr \<lparr>pg_Entries = [demo_entry ''a'', demo_entry ''b''], pg_Next = next',
      pg_Stats = QueryStats_zero\<lparr>qs_RowsReturned := 2\<rparr>\<rparr>) \<and> \<not> HasMore next'"
proof -
  have db: "w_dbs demo_db_world (db_id \<lparr>db_id = 1\<rparr>) = Some 0" by (simp add: demo_db_fields)
  obtain cs where cs: "build_log_query demo_api (demo_paged\<lparr>lq_Limit := 0\<rparr>) = Inr cs" using demo_paged_build by blast
  have e: "demo_pages 2 0 cs None = Inr ([utf8_batch ''body'' [''a'', ''b'']], QueryStats_zero\<lparr>qs_RowsReturned := 2\<rparr>)"
    by (simp add: demo_pages_def rows_before_def cursor_offset_def demo_bodies_def)
  have "\<not> 0 < sint (lq_Limit (demo_paged\<lparr>lq_Limit := 0\<rparr>))" by simp
  with page_end_to_end [OF demo_paging_ready _ db serde_reads_demo demo_paged_ok cs, where engine = "demo_pages 2" and
      c = None, OF _ e demo_body_rows, of "[]" id]
  show ?thesis by (auto simp: cursor_text_def)
qed

text \<open>
  C2. Paging ends and loses nothing: a client that follows the cursors of a query with a positive limit gets
  every row once, in order, within (rows div limit) + 1 pages, and then an empty cursor, for any schedule
  of the handlers that does not cancel its context.
\<close>
theorem paging_complete:
  assumes "paging_ready (length rows div unat (lq_Limit q) + 1) ev ctx w" "\<And>n. list_all (not_cancelled ctx) (sched n)"
    and "w_dbs w (db_id db) = Some d" "serde_reads u" "struct_ok g u (LogQuery_fields q)"
    and "build_log_query api q = Inr cs" "offset_pager engine d cs (unat (lq_Limit q)) rows"
    and "0 < sint (lq_Limit q)" "length rows < 2 ^ 64"
  shows "page_loop (length rows div unat (lq_Limit q) + 1) (query_log_page_handler api u msg engine ev) g sched db ctx q []
    w = Some (Inr rows)"
  using walk [OF assms(2,4-8) refl assms(9,1,3), of None]
  by (simp add: rows_before_def cursor_offset_def cursor_text_def)

theorem paging_complete_witness:
  "page_loop 2 (query_log_page_handler demo_api demo_rust id (demo_pages 2) demo_env) demo_gojson (\<lambda>_. []) \<lparr>db_id = 1\<rparr>
     (Some 0) demo_paged [] demo_db_world = Some (Inr [demo_entry ''a'', demo_entry ''b'', demo_entry ''c''])"
proof -
  have q: "demo_paged\<lparr>lq_Limit := 2\<rparr> = demo_paged" by (simp add: demo_paged_def)
  have db: "w_dbs demo_db_world (db_id \<lparr>db_id = 1\<rparr>) = Some 0" by (simp add: demo_db_fields)
  obtain cs where cs: "build_log_query demo_api demo_paged = Inr cs" using demo_paged_build [of 2] q by auto
  have l: "length (take 2 (drop k demo_bodies)) < 2 ^ 64" for k by (simp add: demo_bodies_def)
  have p: "offset_pager (demo_pages 2) 0 cs (unat (lq_Limit demo_paged)) (map demo_entry demo_bodies)"
    using demo_body_rows l
    by (simp add: offset_pager_def demo_pages_def demo_paged_def take_map drop_map Let_def unat_of_nat QueryStats_zero_def
        take_bit_nat_eq_self del: dec_all.simps)
  have n: "length (map demo_entry demo_bodies) div unat (lq_Limit demo_paged) + 1 = 2"
    by (simp add: demo_bodies_def demo_paged_def)
  have "page_loop 2 (query_log_page_handler demo_api demo_rust id (demo_pages 2) demo_env) demo_gojson (\<lambda>_. []) \<lparr>db_id = 1\<rparr>
     (Some 0) demo_paged [] demo_db_world = Some (Inr (map demo_entry demo_bodies))"
    by (rule paging_complete [OF demo_paging_ready _ db serde_reads_demo demo_paged_ok [of 2, unfolded q] cs p, unfolded n])
      (simp_all add: demo_paged_def demo_bodies_def)
  then show ?thesis by (simp add: demo_bodies_def)
qed

text \<open>
  The metadata slot of a page can outlive the call: when the context is done before the handler has
  started, the call fetches the slot first and returns the context's error, and the handler then files
  metadata that nothing will fetch.
\<close>
theorem page_meta_unclaimed:
  assumes "winv w" "admits w" "ctx = Some x" "w_ctx w x = Some e" "w_dbs w (db_id db) = Some d"
    and "marshal g (logPageReq_fields \<lparr>lp_LogQuery = q, lp_After = after\<rparr>) = Inr t"
    and "ev_parse ev opLogPage t = None" "ev_page ev d t = Inr (bs, meta)"
    and "\<And>op p. ev_call_err ev op p = None"
  shows "let (res, w') = QueryLogPage ev g [] db ctx q after w in
    (case res of Some (Inl err) \<Rightarrow> err = e | _ \<Rightarrow> False) \<and>
    w_page_meta (producer_step ev (w_next_stream w) w') (w_query_ctr w + 1) = Some meta"
proof -
  let ?q = "w_query_ctr w + 1" and ?dec = "decode_rows log_entry_row" and ?h = "w_next_stream w"
  obtain r w1 where o: "openStream db ctx opLogPage t w = (Inr r, w1)"
    and r: "r_s r = ?h" "r_ctx r = ctx" "\<not> r_ended r" "w_ctx w1 = w_ctx w"
    and st: "w_streams w1 ?h = Some \<lparr>st_task = Start opLogPage (stream_frame (db_id db) ?q t), st_buf = [], st_open = True\<rparr>"
    using assms(2) by (auto simp: openStream_def queryCtr_Add_def sable_open_stream_def admits_def)
  note f = openStream_fields [OF o]
  have c: "ctx_err ctx w1 = Some e" using assms(3,4) r by (simp add: ctx_err_def)
  then have n: "sable_next ev (r_s r) (r_ctx r) w1 = (None, w1)"
    using r st by (simp add: sable_next.simps [of ev ?h])
  have slot: "slot_fetch_ok ev (r_queryID r)" by (simp add: slot_fetch_ok_def assms(9))
  obtain r2 w2 where n2: "Rows_Next ev r (env_run ev (events []) w1) = ((None, Some e), r2, w2)"
    using n r c finish_ok [OF slot, of None w1]
    by (simp add: Rows_Next_def events_def env_run_def terminal_err_def Let_def)
  obtain r3 w3 where d: "drain ev ?dec [] r w1 [] = (Some (Inl e), r3, w3)"
    by (cases "Rows_Close ev r2 w2") (simp add: drain_end [OF n2])
  note md = moves_drain [OF d]
  have q3: "r_queryID r3 = ?q" "w_dbs w3 = w_dbs w" using md moves_keeps [OF conjunct1 [OF md]] f by simp_all
  have "same_tasks w1 w2"
    using n2 n r same_tasks_finish [of ev None r w1] by (auto simp: Rows_Next_def events_def env_run_def split: prod.splits)
  moreover have "same_tasks w2 w3"
    using d drain_end [OF n2, of ?dec "[]"] same_tasks_Rows_Close [of ev r2 w2 r3 w3] by (simp add: prod_eq_iff)
  ultimately have t3: "task_of ?h w3 = Start opLogPage (stream_frame (db_id db) ?q t)"
    using st by (simp add: same_tasks_def)
  obtain m where fm: "fetchLogPageMeta ev g ?q w3 = (m, w3\<lparr>w_page_meta := (w_page_meta w3)(?q := None)\<rparr>)"
    by (auto simp: fetchLogPageMeta_def sable_call_def assms(9) byte_handler_def log_page_meta_handler_def op_defs Let_def)
  let ?w = "w3\<lparr>w_page_meta := (w_page_meta w3)(?q := None)\<rparr>"
  have "QueryLogPage ev g [] db ctx q after w = (Some (Inl e), ?w)"
    using o d fm f(5) assms(6) by (simp add: QueryLogPage_def send_query_def decodeLogEntries_def)
  moreover have "w_page_meta (producer_step ev ?h ?w) ?q = Some meta"
  proof (subst producer_files_meta)
    show "task_of ?h ?w = Start opLogPage (stream_frame (db_id db) ?q t)"
      using t3 by (simp add: task_of_def)
    show "start_meta ev (w_dbs ?w) (Start opLogPage (stream_frame (db_id db) ?q t)) = Some (?q, meta)"
      using q3 assms(5,7,8) by simp
  qed simp
  ultimately show ?thesis by simp
qed

theorem page_meta_unclaimed_witness:
  "w_page_meta (producer_step demo_env 0
     (snd (QueryLogPage demo_env demo_gojson [] \<lparr>db_id = 1\<rparr> (Some 0) demo_paged []
       (env_step demo_env (Cancel 0 CtxCanceled) demo_db_world)))) 2 = Some ''{}''"
proof -
  let ?w = "env_step demo_env (Cancel 0 CtxCanceled) demo_db_world"
  have w: "winv ?w" using demo_db_winv same_core_winv [of demo_db_world ?w] by (simp add: same_core_def)
  have a: "admits ?w" "w_ctx ?w 0 = Some CtxCanceled" "w_dbs ?w (db_id \<lparr>db_id = 1\<rparr>) = Some 0" "w_query_ctr ?w = 1"
    using demo_db_fields by (simp_all add: admits_def)
  have h: "w_next_stream ?w = 0"
    by (simp add: demo_db_world_def OpenInMemory_def open_handle_success open_reply_def demo_env_def init_world_def)
  have q: "demo_paged\<lparr>lq_Limit := 2\<rparr> = demo_paged" by (simp add: demo_paged_def)
  obtain t where t: "marshal demo_gojson (logPageReq_fields \<lparr>lp_LogQuery = demo_paged, lp_After = []\<rparr>) = Inr t"
    using marshal_ok [OF page_request_ok [OF demo_paged_ok [of 2, unfolded q], of None]] by (simp add: cursor_text_def)
  have p: "ev_parse demo_env opLogPage t = None" "ev_page demo_env 0 t = Inr ([demo_batch [''a'']], ''{}'')"
    "\<And>op x. ev_call_err demo_env op x = None" by (simp_all add: demo_env_def)
  from page_meta_unclaimed [OF w a(1) refl a(2,3) t p] a(4) h show ?thesis
    by (simp add: Let_def case_prod_beta)
qed

end
