(* ===== verification/Freshness.thy ===== *)
theory Freshness
  imports System Paging
begin

text \<open>
  Query ids. Errors and page metadata are filed under the id a query drew from \<open>queryCtr\<close>, so two queries
  that shared an id would read each other's errors. The invariant here says which ids a process can have in
  use, and with it the assumptions the cursor lemmas make about ids hold in every state that a process reaches
  with fewer than \<open>2 ^ 64\<close> draws.
\<close>

section \<open>Counting the draws\<close>

text \<open>The runs of \<open>reachable\<close>, with the number of ids drawn so far.\<close>

inductive reached :: "'db env \<Rightarrow> nat \<Rightarrow> 'db sys \<Rightarrow> bool" for ev where
  init: "reached ev 0 init_sys"
| quiet: "reached ev k s \<Longrightarrow> step ev s s' \<Longrightarrow> w_query_ctr (s_w s') = w_query_ctr (s_w s) \<Longrightarrow> reached ev k s'"
| draw: "reached ev k s \<Longrightarrow> step ev s s' \<Longrightarrow> w_query_ctr (s_w s') \<noteq> w_query_ctr (s_w s) \<Longrightarrow>
    reached ev (Suc k) s'"

lemma reached_reachable: "reached ev k s \<Longrightarrow> reachable ev s"
  by (induction rule: reached.induct) (auto intro: reachable.intros)

lemma reachable_reached: "reachable ev s \<Longrightarrow> \<exists>k. reached ev k s"
  by (induction rule: reachable.induct) (blast intro: reached.intros)+

text \<open>The ids issued by the first \<open>k\<close> draws; 0 is the id that stands for none.\<close>

definition issued :: "nat \<Rightarrow> u64 set" where
  "issued k = of_nat ` {..k}"

lemma issued_Suc: "issued (Suc k) = insert (of_nat (Suc k)) (issued k)"
  by (simp add: issued_def atMost_Suc)

lemma next_not_issued: "Suc k < 2 ^ 64 \<Longrightarrow> of_nat (Suc k) \<notin> issued k"
proof
  assume k: "Suc k < 2 ^ 64" and "of_nat (Suc k) \<in> issued k"
  then obtain j where j: "j \<le> k" "(of_nat (Suc k) :: u64) = of_nat j" unfolding issued_def by blast
  then have "unat (of_nat (Suc k) :: u64) = unat (of_nat j :: u64)" by simp
  with j(1) k show False by (simp add: unat_of_nat take_bit_nat_eq_self del: of_nat_Suc)
qed

section \<open>The invariant\<close>

text \<open>An id that was not issued is unused; every cursor has an issued id, its own, and a handler its cursor's.\<close>

definition owns_task :: "rows list \<Rightarrow> nat \<Rightarrow> u64 \<Rightarrow> bool" where
  "owns_task rs h q \<longleftrightarrow> (h, q) \<in> set (map (\<lambda>r. (r_s r, r_queryID r)) rs)"

definition ids_inv :: "nat \<Rightarrow> 'db world \<Rightarrow> rows list \<Rightarrow> bool" where
  "ids_inv k w rs \<longleftrightarrow> w_query_ctr w = of_nat k \<and> (\<forall>q. q \<notin> issued k \<longrightarrow> qid_fresh q w) \<and>
     r_queryID ` set rs \<subseteq> issued k \<and> (k < 2 ^ 64 \<longrightarrow> distinct (map r_queryID rs)) \<and>
     (\<forall>h q. task_qid (task_of h w) = Some q \<longrightarrow> owns_task rs h q)"

lemma ids_inv_init: "ids_inv 0 init_world []"
  by (simp add: ids_inv_def init_world_def qid_fresh_tasks task_of_def)

text \<open>Three ways to change the world: no id is used anew, an id is drawn, a drawn id is given to a cursor.\<close>

definition follows :: "'db world \<Rightarrow> 'db world \<Rightarrow> bool" where
  "follows w w' \<longleftrightarrow> w_query_ctr w' = w_query_ctr w \<and> (\<forall>q. qid_fresh q w \<longrightarrow> qid_fresh q w') \<and>
     (\<forall>h. task_qid (task_of h w') \<in> {None, task_qid (task_of h w)})"

definition draws :: "'db world \<Rightarrow> 'db world \<Rightarrow> bool" where
  "draws w w' \<longleftrightarrow> w_query_ctr w' = w_query_ctr w + 1 \<and>
     (\<forall>q. q \<noteq> w_query_ctr w + 1 \<longrightarrow> w_query_errors w q = None \<longrightarrow> w_query_errors w' q = None)"

lemma ids_follow:
  assumes "ids_inv k w rs" "follows w w'"
    and "map r_s rs' = map r_s rs" "map r_queryID rs' = map r_queryID rs"
  shows "ids_inv k w' rs'"
proof -
  have z: "map (\<lambda>r. (r_s r, r_queryID r)) xs = zip (map r_s xs) (map r_queryID xs)" for xs
    by (induction xs) simp_all
  have o: "owns_task rs' h q \<longleftrightarrow> owns_task rs h q" for h q using assms(3,4) by (simp only: owns_task_def z)
  have i: "r_queryID ` set rs' = r_queryID ` set rs" using assms(4) by (metis set_map)
  have "task_qid (task_of h w') = Some q \<Longrightarrow> task_qid (task_of h w) = Some q" for h q
    using assms(2) by (auto simp: follows_def dest!: spec [of _ h])
  with assms(1,2,4) i o show ?thesis by (simp add: ids_inv_def follows_def)
qed

lemma ids_draw:
  assumes "ids_inv k w rs" "draws w w'" "\<And>h. task_of h w' = task_of h w"
  shows "ids_inv (Suc k) w' rs"
proof -
  have c: "w_query_ctr w + 1 = of_nat (Suc k)" using assms(1) by (simp add: ids_inv_def)
  from assms show ?thesis unfolding ids_inv_def draws_def c issued_Suc
    by (auto simp: qid_fresh_tasks simp del: of_nat_Suc)
qed

lemma ids_open:
  assumes inv: "ids_inv k w rs" and d: "draws w w'" and q: "r_queryID r = w_query_ctr w + 1"
    and t: "\<And>h. task_of h w' = (if h = r_s r then Start op (stream_frame db (r_queryID r) p) else task_of h w)"
  shows "ids_inv (Suc k) w' (rs @ [r])"
proof -
  have c: "w_query_ctr w + 1 = of_nat (Suc k)" using inv by (simp add: ids_inv_def)
  have n: "distinct (map r_queryID (rs @ [r]))" if "Suc k < 2 ^ 64"
    using that inv next_not_issued [OF that] q c by (auto simp: ids_inv_def simp del: of_nat_Suc)
  have f: "qid_fresh x w'" if "x \<notin> issued (Suc k)" for x
    using that inv d t q c by (auto simp: ids_inv_def draws_def issued_Suc qid_fresh_tasks simp del: of_nat_Suc)
  have o: "owns_task (rs @ [r]) h x" if "task_qid (task_of h w') = Some x" for h x
    using that inv t by (auto simp: ids_inv_def owns_task_def split: if_splits)
  have i: "r_queryID ` set (rs @ [r]) \<subseteq> issued (Suc k)"
    using inv q c by (auto simp: ids_inv_def issued_Suc simp del: of_nat_Suc)
  show ?thesis unfolding ids_inv_def using n f o i d c by (simp add: draws_def)
qed

section \<open>What each operation does to the ids\<close>

lemma task_id_producer: "task_qid (task_of h' (producer_step ev h w)) \<in> {None, task_qid (task_of h' w)}"
proof (cases "h' = h \<and> w_streams w h \<noteq> None")
  case False
  then have "task_of h' (producer_step ev h w) = task_of h' w"
    using producer_other [of h h' ev w] by (cases "h' = h") (simp_all add: task_of_def producer_step_def)
  then show ?thesis by simp
next
  case True
  then obtain st where st: "w_streams w h = Some st" "h' = h" by blast
  show ?thesis
  proof (cases "st_task st")
    case (Start op req)
    obtain w1 t where s: "start_handler ev op req w = (w1, t)" by fastforce
    from start_handler_id(1) [OF s] st Start s show ?thesis by (auto simp: producer_step_def)
  next
    case (Sending q "is")
    with st show ?thesis
      by (auto simp: producer_step_def Let_def split: list.splits item.splits sum.splits prod.splits)
  qed (use st in \<open>simp add: producer_step_def\<close>)
qed

lemma follows_trans: "follows w w1 \<Longrightarrow> follows w1 w2 \<Longrightarrow> follows w w2"
  by (simp add: follows_def) (metis)

lemma follows_same_tasks: "same_tasks w w' \<Longrightarrow> follows w w'"
  by (simp add: follows_def same_tasks_def qid_fresh_tasks)

lemma follows_producer: "follows w (producer_step ev h w)"
  using task_id_producer [of _ ev h w] by (auto simp: follows_def qid_fresh_producer)

lemma follows_moves: "moves ev w w' \<Longrightarrow> follows w w'"
proof (induction rule: moves.induct)
  case (stay w)
  show ?case by (rule follows_same_tasks) simp
next
  case (keep w w1 w2)
  then show ?case by (blast intro: follows_trans follows_same_tasks)
next
  case (handler w w1 h)
  then show ?case by (blast intro: follows_trans follows_producer)
qed

text \<open>A world whose streams and counter are untouched and in which no error is filed.\<close>

lemma follows_frame:
  "w_streams w' = w_streams w \<Longrightarrow> w_query_ctr w' = w_query_ctr w \<Longrightarrow>
   (\<And>q. w_query_errors w q = None \<Longrightarrow> w_query_errors w' q = None) \<Longrightarrow> follows w w'"
  by (simp add: follows_def qid_fresh_tasks task_of_def)

lemma follows_call: "sable_call ev op req w = (r, w') \<Longrightarrow> follows w w'"
  by (rule follows_frame)
    (auto simp: sable_call_def byte_handler_def query_error_handler_def log_page_meta_handler_def ingest_handler_def
      flush_handler_def log_count_handler_def admin_handler_def with_db_def Let_def
      split: if_splits option.splits prod.splits sum.splits)

lemma follows_try_call: "sable_try_call ev op req w = (r, w') \<Longrightarrow> follows w w'"
proof (cases "admits w")
  case False
  assume "sable_try_call ev op req w = (r, w')"
  with False show ?thesis by (auto simp: sable_try_call_def reject_def intro!: follows_frame)
qed (auto simp: sable_try_call_def dest: follows_call)

lemma open_draws:
  assumes "open_handle ev rq what w = (r, w')"
  shows "draws w w' \<and> w_streams w' = w_streams w"
proof -
  let ?q = "w_query_ctr w + 1"
  obtain i w2 where i: "imbhgo_open ev rq ?q (w\<lparr>w_query_ctr := ?q\<rparr>) = (i, w2)" by fastforce
  then have d: "draws w w2 \<and> w_streams w2 = w_streams w"
    by (auto simp: imbhgo_open_def store_open_error_def insert_db_def store_query_error_def draws_def Let_def
        split: option.splits sum.splits)
  show ?thesis
  proof (cases "i = 0")
    case False
    with assms i d show ?thesis by (simp add: open_handle_def queryCtr_Add_def)
  next
    case True
    obtain x w3 where t: "takeStoredError ev ?q w2 = (x, w3)" by fastforce
    have "w' = w3"
      using assms i True t by (auto simp: open_handle_def queryCtr_Add_def openFailure_def split: sum.splits)
    moreover have "w_streams w3 = w_streams w2" using same_core_take [OF t] by (simp add: same_core_def)
    ultimately show ?thesis using d same_tasks_take [OF t] by (auto simp: draws_def same_tasks_def)
  qed
qed

lemma refused_draws:
  "openStream db ctx op payload w = (Inl e, w') \<Longrightarrow> draws w w' \<and> w_streams w' = w_streams w"
  by (auto simp: openStream_def queryCtr_Add_def sable_open_stream_def reject_def draws_def split: if_splits)

text \<open>A step either follows, with the same cursors, or draws the next id, and then for at most one new cursor.\<close>

lemma env_follows: "follows w (env_step ev e w)"
  by (cases e) (auto intro: follows_producer follows_frame)

lemma update_same:
  assumes "i < length rs" "r_s r' = r_s (rs ! i)" "r_queryID r' = r_queryID (rs ! i)"
  shows "map r_s (rs[i := r']) = map r_s rs" "map r_queryID (rs[i := r']) = map r_queryID rs"
  using assms by (metis list_update_id map_update)+

lemma ids_step:
  assumes "step ev s s'" "ids_inv k (s_w s) (s_rows s)"
  shows "ids_inv k (s_w s') (s_rows s') \<and> w_query_ctr (s_w s') = w_query_ctr (s_w s) \<or>
    ids_inv (Suc k) (s_w s') (s_rows s') \<and> w_query_ctr (s_w s') \<noteq> w_query_ctr (s_w s)"
proof -
  have F: "?thesis" if "follows (s_w s) (s_w s')" "map r_s (s_rows s') = map r_s (s_rows s)"
      "map r_queryID (s_rows s') = map r_queryID (s_rows s)"
    using ids_follow [OF assms(2) that] that(1) by (simp add: follows_def)
  have D: "?thesis" if "draws (s_w s) (s_w s')" "w_streams (s_w s') = w_streams (s_w s)" "s_rows s' = s_rows s"
    using ids_draw [OF assms(2) that(1)] that by (simp add: draws_def task_of_def)
  from assms(1) show ?thesis
  proof cases
    case (Env e)
    then show ?thesis by (intro F) (simp_all add: env_follows)
  next
    case (OpenDb rq what r w')
    then show ?thesis using open_draws by (intro D) force+
  next
    case (CloseDb db)
    then show ?thesis by (intro F) (auto simp: DB_Close_def imbhgo_close_def intro: follows_frame)
  next
    case (Call op req r w')
    then show ?thesis using follows_call by (intro F) force+
  next
    case (TryCall op req r w')
    then show ?thesis using follows_try_call by (intro F) force+
  next
    case (SetCap n)
    then show ?thesis by (intro F) (auto simp: SetMaxInFlight_def intro: follows_frame)
  next
    case (OpenCursor db ctx op payload r w')
    note f = openStream_fields [OF OpenCursor(2)]
    have d: "draws (s_w s) w'" using f by (simp add: draws_def)
    have "ids_inv (Suc k) w' (s_rows s @ [r])"
      by (rule ids_open [OF assms(2) d f(5), where op = op and db = "db_id db" and p = payload])
        (simp only: f(5,6))
    with OpenCursor(1) f(2) show ?thesis by simp
  next
    case (Refused db ctx op payload e w')
    then show ?thesis using refused_draws by (intro D) force+
  next
    case (NextRow i p b e r' w')
    from NextRow show ?thesis using follows_moves moves_Rows_Next [OF NextRow(3)] Rows_Next_streams(1) [OF NextRow(3)]
      by (intro F) (auto intro: update_same)
  next
    case (NextEnd i e r' w')
    from NextEnd show ?thesis using follows_moves moves_Rows_Next [OF NextEnd(3)] Rows_Next_streams(1) [OF NextEnd(3)]
      by (intro F) (auto intro: update_same)
  next
    case (CloseCursor i r' w')
    from CloseCursor show ?thesis
      using follows_same_tasks same_tasks_Rows_Close [OF CloseCursor(3)] closes_Rows_Close [OF CloseCursor(3)]
      by (intro F) (auto intro: update_same)
  next
    case (ReleaseRecord p)
    then show ?thesis by (intro F) (auto intro: follows_same_tasks same_tasks_release)
  qed
qed

lemma reached_ids: "reached ev k s \<Longrightarrow> ids_inv k (s_w s) (s_rows s)"
proof (induction rule: reached.induct)
  case init
  show ?case by (simp add: init_sys_def ids_inv_init)
qed (use ids_step in blast)+

text \<open>With its own id, a cursor that has not ended is live.\<close>

lemma reached_live:
  assumes "reached ev k s" "k < 2 ^ 64" "r \<in> set (s_rows s)" "\<not> r_ended r"
  shows "live_cursor r (s_w s)"
proof -
  note i = reached_ids [OF assms(1)] and inv = reachable_sinv [OF reached_reachable [OF assms(1)]]
  have op: "opened (r_s r) (s_w s)" using inv assms(3,4) unfolding sinv_def cursors_inv_def by blast
  have ds: "distinct (map r_s (s_rows s))" using inv by (simp add: sinv_def cursors_inv_def)
  have dq: "distinct (map r_queryID (s_rows s))" using i assms(2) by (simp add: ids_inv_def)
  have own: "\<exists>x\<in>set (s_rows s). r_s x = h \<and> r_queryID x = q" if "task_qid (task_of h (s_w s)) = Some q" for h q
  proof -
    from i that have "owns_task (s_rows s) h q" by (simp add: ids_inv_def)
    then show ?thesis by (auto simp: owns_task_def)
  qed
  have "qid_private (r_s r) (r_queryID r) (s_w s)"
    unfolding qid_private_tasks
  proof
    fix h
    have same_s: "x = r" if "x \<in> set (s_rows s)" "r_s x = r_s r" for x
      using ds assms(3) that by (auto simp: distinct_map dest: inj_onD)
    have same_q: "x = r" if "x \<in> set (s_rows s)" "r_queryID x = r_queryID r" for x
      using dq assms(3) that by (auto simp: distinct_map dest: inj_onD)
    show "if h = r_s r then task_qid (task_of h (s_w s)) \<in> {None, Some (r_queryID r)}
      else task_qid (task_of h (s_w s)) \<noteq> Some (r_queryID r)"
    proof (cases "task_qid (task_of h (s_w s))")
      case (Some q)
      from own [OF this] obtain x where "x \<in> set (s_rows s)" "r_s x = h" "r_queryID x = q" by blast
      with same_s [of x] same_q [of x] Some show ?thesis by auto
    qed auto
  qed
  with op assms(4) inv show ?thesis by (simp add: live_cursor_def sinv_def)
qed

text \<open>So the cursor lemmas need no assumption on ids: the rows a reached cursor still has to deliver come out of Next.\<close>

lemma reached_next:
  assumes "reached ev k s" "k < 2 ^ 64" "r \<in> set (s_rows s)" "\<not> r_ended r"
    and "ctx_err (r_ctx r) (env_run ev es (s_w s)) = None" "slot_fetch_ok ev (r_queryID r)" "\<And>b. ev_import ev b = ImportOk"
  shows "case rows_view ev r (s_w s) of
      (b # bs, e) \<Rightarrow> \<exists>p w'. Rows_Next ev r (env_run ev es (s_w s)) = ((Some (p, b), None), r, w') \<and>
        live_cursor r w' \<and> rows_view ev r w' = (bs, e) \<and> w_owner w' p = Some GoOwned
    | ([], e) \<Rightarrow> \<exists>w'. Rows_Next ev r (env_run ev es (s_w s)) =
        ((None, query_err e), r\<lparr>r_err := query_err e, r_ended := True\<rparr>, w') \<and>
        w_query_errors w' (r_queryID r) = None \<and> \<not> opened (r_s r) w'"
  by (rule Next_schedule_independent [OF reached_live [OF assms(1-4)] assms(5-7)])

section \<open>The property\<close>

text \<open>
  C20. No two queries share an id: in every state a process reaches with fewer than \<open>2 ^ 64\<close> ids drawn, by
  whatever interleaving of opens, calls, cursors and handlers, the next id is unused by any handler and has no
  error filed, all cursors ever opened have different ids, and every cursor that has not ended is live, its id
  used by its own handler alone.
\<close>
theorem ids_never_shared:
  assumes "reached ev k s" "Suc k < 2 ^ 64"
  shows "qid_fresh (w_query_ctr (s_w s) + 1) (s_w s) \<and> distinct (map r_queryID (s_rows s)) \<and>
    (\<forall>r\<in>set (s_rows s). \<not> r_ended r \<longrightarrow> live_cursor r (s_w s))"
proof -
  note i = reached_ids [OF assms(1)]
  have "w_query_ctr (s_w s) + 1 = of_nat (Suc k)" using i by (simp add: ids_inv_def)
  then have "qid_fresh (w_query_ctr (s_w s) + 1) (s_w s)"
    using i next_not_issued [OF assms(2)] by (simp add: ids_inv_def del: of_nat_Suc)
  with i reached_live [OF assms(1)] assms(2) show ?thesis by (simp add: ids_inv_def)
qed

lemma demo_open_reached: "reached demo_env 2 demo_open"
proof -
  have "reached demo_env (Suc 0) (init_sys\<lparr>s_w := demo_db_world\<rparr>)"
  proof (rule reached.draw [OF reached.init step.OpenDb [where rq = OpenMemory
          and what = "''open in-memory database''" and r = "fst (OpenInMemory demo_env init_world)"]])
    show "w_query_ctr (s_w (init_sys\<lparr>s_w := demo_db_world\<rparr>)) \<noteq> w_query_ctr (s_w init_sys)"
      by (simp add: demo_db_fields init_sys_def init_world_def)
  qed (simp add: init_sys_def demo_db_world_def OpenInMemory_def)
  moreover have "isl (fst (openStream \<lparr>db_id = 1\<rparr> (Some 0) opSQL ''ok'' demo_db_world)) = False" by code_simp
  then obtain r w where q: "openStream \<lparr>db_id = 1\<rparr> (Some 0) opSQL ''ok'' demo_db_world = (Inr r, w)"
    by (cases "openStream \<lparr>db_id = 1\<rparr> (Some 0) opSQL ''ok'' demo_db_world";
        cases "fst (openStream \<lparr>db_id = 1\<rparr> (Some 0) opSQL ''ok'' demo_db_world)") auto
  then have "step demo_env (init_sys\<lparr>s_w := demo_db_world\<rparr>) demo_open"
    using step.OpenCursor [of "\<lparr>db_id = 1\<rparr>" "Some 0" opSQL "''ok''" "init_sys\<lparr>s_w := demo_db_world\<rparr>" r w demo_env]
    by (simp add: init_sys_def demo_open_def demo_cursor_def Query_def)
  moreover have "w_query_ctr (s_w demo_open) = 2" "w_query_ctr demo_db_world = 1" by code_simp+
  then have "w_query_ctr (s_w demo_open) \<noteq> w_query_ctr (s_w (init_sys\<lparr>s_w := demo_db_world\<rparr>))" by simp
  ultimately have "reached demo_env (Suc (Suc 0)) demo_open" by (rule reached.draw)
  then show ?thesis by (simp add: numeral_2_eq_2)
qed

theorem ids_never_shared_witness:
  "qid_fresh 3 (s_w demo_open) \<and> live_cursor (hd (s_rows demo_open)) (s_w demo_open) \<and>
   map r_queryID (s_rows demo_open) = [2]"
proof -
  have f: "w_query_ctr (s_w demo_open) = 2" "map r_queryID (s_rows demo_open) = [2]"
    "list_all (\<lambda>r. \<not> r_ended r) (s_rows demo_open)" by code_simp+
  from ids_never_shared [OF demo_open_reached] f show ?thesis
    by (cases "s_rows demo_open") (simp_all add: list_all_iff)
qed

end
