(* ===== verification/Typing.thy ===== *)
theory Typing
  imports LogPage Moves
begin

text \<open>
  A typing of the batches in flight. A batch is well-formed when Arrow's guarantees hold of its columns
  (\<open>wf_batch\<close>: one slot per row, dictionary indexes and offsets inside their children); the process is
  well-typed when every allocated shell and every item a handler has yet to send is. Well-typedness is kept
  by every operation, and no reader of a well-typed process indexes out of range: a typed query never
  panics, whatever the schedule, the cancellations and the failures.
\<close>

section \<open>Well-typed processes\<close>

definition wt_items :: "item list \<Rightarrow> bool" where
  "wt_items is \<longleftrightarrow> (\<forall>b. Item b \<in> set is \<longrightarrow> wf_batch b)"

fun wt_task :: "task \<Rightarrow> bool" where
  "wt_task (Sending q is) = wt_items is"
| "wt_task _ = True"

definition wt_world :: "'db world \<Rightarrow> bool" where
  "wt_world w \<longleftrightarrow> (\<forall>b\<in>ran (w_shells w). wf_batch b) \<and> (\<forall>h. wt_task (task_of h w))"

text \<open>The engine hands out well-formed batches only; Arrow's constructors check this.\<close>

definition wt_env :: "'db env \<Rightarrow> bool" where
  "wt_env ev \<longleftrightarrow> (\<forall>d q is. ev_sql ev d q = Inr is \<longrightarrow> wt_items is) \<and>
     (\<forall>op d q bs. ev_typed ev op d q = Inr bs \<longrightarrow> list_all wf_batch bs) \<and>
     (\<forall>d q bs m. ev_page ev d q = Inr (bs, m) \<longrightarrow> list_all wf_batch bs)"

lemma wt_items_simps [simp]:
  "wt_items []" "wt_items (ItemErr e # is) = wt_items is" "wt_items (Item b # is) \<longleftrightarrow> wf_batch b \<and> wt_items is"
  "wt_items (map Item bs) = list_all wf_batch bs"
  by (auto simp: wt_items_def list_all_iff)

section \<open>Preservation\<close>

text \<open>An operation that leaves the tasks alone and allocates no shell.\<close>

definition fewer :: "'db world \<Rightarrow> 'db world \<Rightarrow> bool" where
  "fewer w w' \<longleftrightarrow> (\<forall>h. task_of h w' = task_of h w) \<and> ran (w_shells w') \<subseteq> ran (w_shells w)"

lemma wt_fewer: "wt_world w \<Longrightarrow> fewer w w' \<Longrightarrow> wt_world w'"
  by (auto simp: wt_world_def fewer_def)

lemma fewer_trans: "fewer w w1 \<Longrightarrow> fewer w1 w2 \<Longrightarrow> fewer w w2"
  by (auto simp: fewer_def)

lemma fewer_refl [simp]: "fewer w w"
  by (simp add: fewer_def)

lemma fewer_tasks: "same_tasks w w' \<Longrightarrow> ran (w_shells w') \<subseteq> ran (w_shells w) \<Longrightarrow> fewer w w'"
  by (simp add: fewer_def same_tasks_def)

lemma fewer_core: "same_core w w' \<Longrightarrow> fewer w w'"
  by (simp add: fewer_def same_core_def task_of_def)

lemma ran_del: "ran (m(p := None)) \<subseteq> ran m"
  by (auto simp: ran_def split: if_splits)

lemma ran_release: "ran (w_shells (batch_release p w)) \<subseteq> ran (w_shells w)" "ran (w_shells (shell_free p w)) \<subseteq> ran (w_shells w)"
  by (simp_all add: batch_release_def shell_free_def ran_del)

lemma ran_releases: "ran (w_shells (fold batch_release ps w)) \<subseteq> ran (w_shells w)"
  by (induction ps arbitrary: w) (auto dest: subsetD [OF ran_release(1)])

lemma fewer_release: "fewer w (rec_release p w)" "fewer w (shell_free p w)"
  by (intro fewer_tasks same_tasks_release; simp add: rec_release_def ran_release)+

lemma fewer_import: "import_batch ev p w = (x, w') \<Longrightarrow> fewer w w'"
  by (intro fewer_tasks same_tasks_import [of ev p w x w'])
    (auto simp: import_batch_def split: option.splits import_outcome.splits if_splits)

lemma fewer_close: "fewer w (sable_close h w)"
  by (intro fewer_tasks same_tasks_close)
    (use ran_releases in \<open>auto simp: sable_close_def put_stream_def split: option.splits\<close>)

lemma fewer_Rows_Close: "Rows_Close ev r w = (r', w') \<Longrightarrow> fewer w w'"
  using fewer_trans [OF fewer_close fewer_core [OF same_core_take_snd], of w ev "r_queryID r" "r_s r"] fewer_close
  by (auto simp: Rows_Close_def Let_def split: if_splits)

lemma fewer_finish:
  assumes "finish ev e r w = (x, r', w')"
  shows "fewer w w'"
proof -
  obtain s w1 where q: "fetchQueryError ev r w = (s, w1)" by fastforce
  obtain e' where "Rows_Close ev (r\<lparr>r_err := e', r_ended := True\<rparr>) w1 = (r', w')"
    using assms by (auto simp: finish_def q Let_def split: prod.splits)
  from fewer_trans [OF fewer_core [OF same_core_fetch [OF q]] fewer_Rows_Close [OF this]] show ?thesis .
qed

lemma wt_put: "wt_world w \<Longrightarrow> wt_task (st_task st) \<Longrightarrow> wt_world (put_stream h st w)"
  by (simp add: wt_world_def)

lemma wt_start:
  assumes "wt_env ev" "start_handler ev op req w = (w', t)"
  shows "wt_task t"
  using assms(2)
  by (auto simp: start_handler_def sql_stream_start_def typed_stream_start_def log_page_start_def
      dest: assms(1) [unfolded wt_env_def, THEN conjunct1, rule_format]
        assms(1) [unfolded wt_env_def, THEN conjunct2, THEN conjunct1, rule_format]
        assms(1) [unfolded wt_env_def, THEN conjunct2, THEN conjunct2, rule_format]
      split: if_splits option.splits sum.splits prod.splits)

lemma wt_export: "wt_world w \<Longrightarrow> wf_batch b \<Longrightarrow> export_batch ev b w = Inr (p, w') \<Longrightarrow> wt_world w'"
proof -
  assume wt: "wt_world w" "wf_batch b" and e: "export_batch ev b w = Inr (p, w')"
  have "ran (w_shells w') \<subseteq> insert b (ran (w_shells w))"
    using e by (auto simp: export_batch_def Let_def ran_def split: option.splits if_splits)
  moreover have "w_streams w' = w_streams w"
    using e by (auto simp: export_batch_def Let_def split: option.splits)
  ultimately show "wt_world w'" using wt by (auto simp: wt_world_def task_of_def)
qed

lemma wt_producer:
  assumes "wt_env ev" "wt_world w"
  shows "wt_world (producer_step ev h w)"
proof (cases "w_streams w h")
  case (Some st)
  have t: "wt_task (st_task st)" using assms(2) Some by (metis task_Some wt_world_def)
  show ?thesis
  proof (cases "st_task st")
    case (Start op req)
    obtain w' t where s: "start_handler ev op req w = (w', t)" by fastforce
    have "wt_world w'" using assms(2) fewer_core [OF same_core_start [OF s]] by (rule wt_fewer)
    with wt_start [OF assms(1) s] Some Start s show ?thesis by (simp add: producer_step_def wt_put)
  next
    case (Sending q "is")
    note pr = producer_step_def Some Sending
    show ?thesis
    proof (cases "is")
      case Nil
      then show ?thesis using assms(2) by (simp add: pr wt_put)
    next
      case (Cons i rest)
      with t Sending have rest: "wt_items rest" and i: "\<And>b. i = Item b \<Longrightarrow> wf_batch b" by (cases i; simp)+
      show ?thesis
      proof (cases i)
        case (ItemErr e)
        have "wt_world (store_query_error q e w)"
          by (rule wt_fewer [OF assms(2) fewer_core]) simp
        then show ?thesis by (simp add: pr Cons ItemErr wt_put)
      next
        case (Item b)
        show ?thesis
        proof (cases "export_batch ev b w")
          case (Inl e)
          have "wt_world (store_query_error q e w)"
            by (rule wt_fewer [OF assms(2) fewer_core]) simp
          then show ?thesis by (simp add: pr Cons Item Inl wt_put)
        next
          case (Inr pw)
          obtain p w' where pw: "pw = (p, w')" by fastforce
          have w': "wt_world w'" using assms(2) i [OF Item] Inr pw by (auto intro: wt_export)
          have "wt_world (batch_release p w')"
            by (rule wt_fewer [OF w' fewer_tasks]) (simp_all add: same_tasks_release ran_release)
          with w' rest show ?thesis by (simp add: pr Cons Item Inr pw wt_put)
        qed
      qed
    qed
  qed (use assms(2) Some in \<open>simp add: producer_step_def\<close>)
qed (use assms(2) in \<open>simp add: producer_step_def\<close>)

lemma wt_env_step: "wt_env ev \<Longrightarrow> wt_world w \<Longrightarrow> wt_world (env_step ev e w)"
proof (cases e)
  case (Cancel c x)
  assume "wt_world w"
  then show ?thesis by (rule wt_fewer) (simp add: Cancel fewer_def task_of_def)
qed (simp add: wt_producer)

lemma wt_env_run: "wt_env ev \<Longrightarrow> wt_world w \<Longrightarrow> wt_world (env_run ev es w)"
proof (induction es arbitrary: w)
  case (Cons e es)
  have "wt_world (env_step ev e w)" using Cons.prems by (rule wt_env_step)
  with Cons show ?case by (simp add: env_run_def)
qed (simp add: env_run_def)

lemma wt_next: "sable_next ev h c w = (x, w') \<Longrightarrow> wt_env ev \<Longrightarrow> wt_world w \<Longrightarrow> wt_world w'"
proof (induction ev h c w rule: sable_next.induct)
  case (1 ev h c w)
  show ?case
  proof (cases "\<exists>st. w_streams w h = Some st \<and> st_open st \<and> ctx_err c w = None \<and> st_buf st = [] \<and>
      st_task st \<noteq> Done")
    case False
    have "wt_task (st_task st)" if "w_streams w h = Some st" for st
      using that 1(4) by (metis task_Some wt_world_def)
    with False 1(2,4) show ?thesis
      by (auto simp: sable_next.simps [of ev h c w] wt_put split: option.splits if_splits list.splits)
  next
    case True
    then obtain st where st: "w_streams w h = Some st" "st_open st" "st_buf st = []" "st_task st \<noteq> Done"
      "ctx_err c w = None" by auto
    have "sable_next ev h c (producer_step ev h w) = (x, w')"
      using 1(2) st by (simp add: sable_next.simps [of ev h c w])
    from 1(1) [OF st(1) _ _ st(3,4) this 1(3) wt_producer [OF 1(3,4)]] st show ?thesis by simp
  qed
qed

lemma wt_Rows_Next:
  assumes "wt_env ev" "wt_world w" "Rows_Next ev r w = ((rec, e), r', w')"
  shows "wt_world w' \<and> (\<forall>p b. rec = Some (p, b) \<longrightarrow> wf_batch b)"
proof (cases "r_ended r")
  case False
  obtain x w1 where n: "sable_next ev (r_s r) (r_ctx r) w = (x, w1)" by fastforce
  have w1: "wt_world w1" by (rule wt_next [OF n assms(1,2)])
  show ?thesis
  proof (cases x)
    case None
    with assms(3) False n obtain x' where "finish ev None r w1 = (x', r', w')" "rec = None"
      by (auto simp: Rows_Next_def split: prod.splits)
    with wt_fewer [OF w1 fewer_finish] show ?thesis by auto
  next
    case (Some p)
    obtain rc w2 where i: "import_batch ev p w1 = (rc, w2)" by fastforce
    have w3: "wt_world (shell_free p w2)"
      by (rule wt_fewer [OF w1 fewer_trans [OF fewer_import [OF i] fewer_release(2)]])
    show ?thesis
    proof (cases rc)
      case (Inl ie)
      with assms(3) False n Some i obtain x' where "finish ev (Some ie) r (shell_free p w2) = (x', r', w')" "rec = None"
        by (auto simp: Rows_Next_def Let_def split: prod.splits)
      with wt_fewer [OF w3 fewer_finish] show ?thesis by auto
    next
      case (Inr b)
      with i have "w_shells w1 p = Some b"
        by (auto simp: import_batch_def split: option.splits import_outcome.splits)
      with w1 have "wf_batch b" by (auto simp: wt_world_def ran_def)
      with assms(3) False n Some i Inr w3 show ?thesis by (auto simp: Rows_Next_def Let_def)
    qed
  qed
qed (use assms in \<open>auto simp: Rows_Next_def\<close>)

lemma wt_open:
  assumes "wt_world w" "openStream db ctx op payload w = (res, w')"
  shows "wt_world w'"
proof -
  have "ran (w_shells w') \<subseteq> ran (w_shells w)" "\<And>h. task_of h w' = task_of h w \<or> wt_task (task_of h w')"
    using assms(2)
    by (auto simp: openStream_def queryCtr_Add_def sable_open_stream_def put_stream_def task_of_def reject_def
        split: if_splits)
  with assms(1) show ?thesis unfolding wt_world_def by (metis subsetD)
qed

text \<open>So every reachable process is well-typed.\<close>

lemma wt_init: "wt_world (s_w init_sys)"
  by (simp add: wt_world_def init_sys_def init_world_def task_of_def)

lemma step_wt: "step ev s s' \<Longrightarrow> wt_env ev \<Longrightarrow> wt_world (s_w s) \<Longrightarrow> wt_world (s_w s')"
proof (induction rule: step.induct)
  case (CloseDb s db)
  show ?case by (rule wt_fewer [OF CloseDb(2)]) (simp add: DB_Close_def imbhgo_close_def fewer_def task_of_def)
next
  case (SetCap s n)
  show ?case by (rule wt_fewer [OF SetCap(2)]) (simp add: SetMaxInFlight_def fewer_def task_of_def)
next
  case (ReleaseRecord p s)
  show ?case by (rule wt_fewer [OF ReleaseRecord(3)]) (simp add: fewer_release)
next
  case (NextRow i s p b e r' w')
  with wt_Rows_Next [OF NextRow(3,4)] show ?case by simp
next
  case (NextEnd i s e r' w')
  with wt_Rows_Next [OF NextEnd(3,4)] show ?case by simp
qed (auto intro: wt_env_step wt_open
    elim: wt_fewer [OF _ fewer_core [OF same_core_open]] wt_fewer [OF _ fewer_core [OF same_core_call]]
      wt_fewer [OF _ fewer_core [OF same_core_try]] wt_fewer [OF _ fewer_Rows_Close])

lemma reachable_wt: "reachable ev s \<Longrightarrow> wt_env ev \<Longrightarrow> wt_world (s_w s)"
  by (induction rule: reachable.induct) (auto intro: wt_init step_wt)

section \<open>Progress\<close>

text \<open>A call that returns, in a well-typed process: no reader has panicked.\<close>

definition no_panic :: "'r option \<times> 'db world \<Rightarrow> bool" where
  "no_panic x \<longleftrightarrow> fst x \<noteq> None \<and> wt_world (snd x)"

definition sound :: "(rows \<Rightarrow> 'db world \<Rightarrow> 'r option \<times> rows \<times> 'db world) \<Rightarrow> bool" where
  "sound dec \<longleftrightarrow> (\<forall>r w. wt_world w \<longrightarrow> no_panic (fst (dec r w), snd (snd (dec r w))))"

lemma soundD: "sound dec \<Longrightarrow> wt_world w \<Longrightarrow> dec r w = (res, r', w') \<Longrightarrow> no_panic (res, w')"
  unfolding sound_def by (metis fst_conv snd_conv)

lemma soundI: "(\<And>r w res r' w'. wt_world w \<Longrightarrow> dec r w = (res, r', w') \<Longrightarrow> no_panic (res, w')) \<Longrightarrow> sound dec"
  unfolding sound_def by (metis prod.collapse)

text \<open>\<open>P\<close> is what the decoder keeps of its accumulator.\<close>

lemma sound_drain:
  assumes "wt_env ev" "\<And>b acc. wf_batch b \<Longrightarrow> P acc \<Longrightarrow> \<exists>acc'. dec b acc = Some acc' \<and> P acc'" "P acc"
  shows "sound (\<lambda>r w. drain ev dec sched r w acc)"
  unfolding sound_def
proof (intro allI impI)
  fix r and w :: "'a world"
  assume "wt_world w"
  with assms(3) show "no_panic (fst (drain ev dec sched r w acc), snd (snd (drain ev dec sched r w acc)))"
  proof (induction sched w acc rule: drain_induct [of ev r dec])
    case (pull sched w acc)
    obtain rec e r1 w1 where n: "Rows_Next ev r (env_run ev (events sched) w) = ((rec, e), r1, w1)"
      by (metis prod_cases3 surj_pair)
    note wt = wt_Rows_Next [OF assms(1) wt_env_run [OF assms(1) pull.prems(2)] n]
    have closed: "wt_world (snd (Rows_Close ev r1 w1))"
      by (rule wt_fewer [OF conjunct1 [OF wt] fewer_Rows_Close [of ev r1 w1 "fst (Rows_Close ev r1 w1)"]]) simp
    show ?case
    proof (cases rec)
      case None
      from drain_end [OF n [unfolded None], of dec acc] closed show ?thesis by (simp add: no_panic_def)
    next
      case (Some pb)
      obtain p b where pb: "pb = (p, b)" by fastforce
      note d = drain_pull [OF n [unfolded Some pb], of dec acc]
      obtain acc' where a: "dec b acc = Some acc'" "P acc'" using assms(2) pull.prems(1) wt Some pb by blast
      have n': "Rows_Next ev r (env_run ev (events sched) w) = ((Some (p, b), None), r, w1)"
        using n Some pb d by simp
      from pull.IH [OF n' a(1,2) wt_fewer [OF conjunct1 [OF wt] fewer_release(1)]] d a(1) show ?thesis by simp
    qed
  qed
qed

context row_decoder
begin

lemma sound_decode: "wt_env ev \<Longrightarrow> sound (\<lambda>r w. drain ev (decode_rows row) sched r w acc)"
  by (rule sound_drain [where P = "\<lambda>_. True"]) (auto simp: decode_rows_total)

end

context sample_decoder
begin

lemma sound_series: "wt_env ev \<Longrightarrow> sound (drain_series ev row sched)"
proof -
  assume wt: "wt_env ev"
  have "sound (\<lambda>r w. drain ev (group_batch row) sched r w (Map.empty, []))"
  proof (rule sound_drain [OF wt, where P = "\<lambda>acc. \<exists>xs. acc = group_state xs"])
    fix b acc
    assume "wf_batch b" "\<exists>xs. acc = group_state xs"
    then show "\<exists>acc'. group_batch row b acc = Some acc' \<and> (\<exists>xs. acc' = group_state xs)"
      using group_batch_rows by blast
  next
    show "\<exists>xs. (Map.empty, []) = group_state xs" by (rule exI [of _ "[]"]) (simp add: group_state_Nil)
  qed
  from soundD [OF this] show ?thesis
    by (intro soundI) (auto simp: drain_series_def no_panic_def split: prod.splits)
qed

end

lemma sound_collect:
  assumes "sound dec" "wt_world (snd opn)"
  shows "no_panic (collect dec opn)"
proof -
  obtain x w where o: "opn = (x, w)" by fastforce
  show ?thesis
  proof (cases x)
    case (Inr r)
    obtain res r' w' where "dec r w = (res, r', w')" by (metis prod_cases3)
    with soundD [OF assms(1) _ this] assms(2) show ?thesis by (simp add: collect_def o Inr)
  qed (use assms(2) in \<open>simp add: collect_def o no_panic_def\<close>)
qed

lemma wt_stream: "wt_world w \<Longrightarrow> wt_world (snd (openStream db ctx op payload w))"
  using wt_open by (metis prod.collapse)

lemma wt_send: "wt_world w \<Longrightarrow> wt_world (snd (send_query g db ctx op fs w))"
  by (simp add: send_query_def wt_stream split: sum.splits)

lemmas sound_decoders = log_entries.sound_decode trace_matches.sound_decode strings.sound_decode
  instant_samples.sound_decode metric_points.sound_decode metric_infos.sound_decode exemplars.sound_decode
  volume_buckets.sound_decode spans.sound_decode trace_summaries.sound_decode span_metrics.sound_decode
  metric_samples.sound_series labeled_samples.sound_series

lemma GetTraceForest_no_panic:
  assumes "wt_env ev" "wt_world w"
  shows "no_panic (GetTraceForest ev g sched db ctx id' w)"
proof -
  have "no_panic (GetTraceSpans ev g sched db ctx id' w)"
    using assms by (simp add: GetTraceSpans_def GetTrace_def Queries.drain_rows_def [abs_def] sound_collect sound_decoders wt_send)
  moreover have "\<exists>ts. AssembleTrace ss = Some ts" for ss
    using forest_spec_total [OF first_by_id_distinct, of ss] by (simp add: AssembleTrace_spec)
  ultimately show ?thesis
    by (auto simp: GetTraceForest_def no_panic_def split: prod.splits option.splits sum.splits)
qed

lemma QueryLogPage_no_panic:
  assumes "wt_env ev" "wt_world w"
  shows "no_panic (QueryLogPage ev g sched db ctx q after w)"
proof -
  obtain x w1 where s: "send_query g db ctx opLogPage (logPageReq_fields \<lparr>lp_LogQuery = q, lp_After = after\<rparr>) w = (x, w1)"
    by fastforce
  with wt_send [OF assms(2), of g db ctx opLogPage "logPageReq_fields \<lparr>lp_LogQuery = q, lp_After = after\<rparr>"]
  have w1: "wt_world w1" by simp
  show ?thesis
  proof (cases x)
    case (Inr r)
    obtain res r' w2 where d: "decodeLogEntries ev sched r w1 = (res, r', w2)" by (metis prod_cases3)
    have "sound (decodeLogEntries ev sched)"
      using log_entries.sound_decode [OF assms(1), of sched "[]"] by (simp add: decodeLogEntries_def [abs_def])
    from soundD [OF this w1 d] obtain dec where r: "res = Some dec" "wt_world w2" by (auto simp: no_panic_def)
    obtain m w3 where m: "fetchLogPageMeta ev g (r_queryID r) w2 = (m, w3)" by fastforce
    have "same_core w2 w3"
      using m by (auto simp: fetchLogPageMeta_def dest: same_core_call split: prod.splits sum.splits if_splits)
    with r(2) have "wt_world w3" using wt_fewer fewer_core by blast
    with s Inr d r m show ?thesis by (simp add: QueryLogPage_def no_panic_def)
  qed (use s w1 in \<open>simp add: QueryLogPage_def no_panic_def\<close>)
qed

section \<open>Typed queries do not panic\<close>

text \<open>
  C22. No typed query ever panics: from every reachable state of the process, whatever columns the batches
  have, whatever the schedule, the cancellations and the failures on the way, each method returns a result
  or an error and leaves the process well-typed.
\<close>
theorem typed_queries_return:
  assumes "wt_env ev" "reachable ev s"
  shows "no_panic (QueryLogsTyped ev g sched db ctx q (s_w s)) \<and>
    no_panic (QueryLogPage ev g sched db ctx q after (s_w s)) \<and>
    no_panic (QueryMetricsTyped ev g sched db ctx m (s_w s)) \<and>
    no_panic (QueryMetricInstant ev g sched db ctx m (s_w s)) \<and>
    no_panic (QueryMetricPointsTyped ev g sched db ctx pt (s_w s)) \<and>
    no_panic (QuerySpanMetricsTyped ev g sched db ctx sm (s_w s)) \<and>
    no_panic (QueryPromQLSeries ev g sched db ctx txt a b c (s_w s)) \<and>
    no_panic (QueryLogQLLines ev g sched db ctx txt a b c (s_w s)) \<and>
    no_panic (QueryLogQLSeries ev g sched db ctx txt a b c (s_w s)) \<and>
    no_panic (QueryTraceQLMatches ev g sched db ctx txt a b (s_w s)) \<and>
    no_panic (GetTraceForest ev g sched db ctx txt (s_w s)) \<and>
    no_panic (SearchTraces ev g sched db ctx tq (s_w s)) \<and>
    no_panic (AttrNames ev sched db ctx (s_w s)) \<and>
    no_panic (AttrValues ev g sched db ctx txt (s_w s)) \<and>
    no_panic (MetricCatalog ev sched db ctx (s_w s)) \<and>
    no_panic (MetricSeries ev g sched db ctx txt (s_w s)) \<and>
    no_panic (MetricExemplars ev g sched db ctx txt (s_w s)) \<and>
    no_panic (LogVolumeBy ev g sched db ctx q a ks (s_w s))"
  using assms(1) reachable_wt [OF assms(2,1)]
  by (simp add: query_defs QueryLogsTyped_def QueryLogs_def QueryMetricsTyped_def QueryMetrics_def
      decode_matrix_def QueryMetricPointsTyped_def QueryMetricPoints_def QuerySpanMetricsTyped_def
      QuerySpanMetrics_def QueryPromQLSeries_def QueryPromQL_def lgtmStream_def lgtmStreamLimit_def
      QueryLogQLLines_def QueryLogQLSeries_def QueryLogQL_def QueryTraceQLMatches_def QueryTraceQL_def
      decodeLabeledSeries_def decodeLogEntries_def [abs_def] decodeTraceMatches_def [abs_def]
      GetTraceForest_no_panic QueryLogPage_no_panic sound_collect sound_decoders wt_send wt_stream
      Queries.drain_rows_def [abs_def])

lemma demo_wt_env: "wt_env demo_env"
  by (auto simp: wt_env_def demo_env_def wf_batch_def demo_batch_def alen_def split: if_splits)

theorem typed_queries_return_witness:
  "fst (QueryLogsTyped demo_env demo_gojson [] \<lparr>db_id = 1\<rparr> None demo_logs (s_w demo_pulled)) \<noteq> None \<and>
   fst (GetTraceForest demo_env demo_gojson [] \<lparr>db_id = 1\<rparr> None ''00'' (s_w demo_pulled)) \<noteq> None"
  using typed_queries_return [OF demo_wt_env demo_pulled_reachable] unfolding no_panic_def by blast

end
