(* ===== verification/Progress.thy ===== *)
theory Progress
  imports Moves System
begin

text \<open>
  What the handlers get done. A schedule is an infinite sequence of events; it is fair to a handler when that
  handler gets a turn again and again. Under a fair schedule every handler comes to its end, whatever other
  streams, cancellations and closed cursors are interleaved with it: a cursor that waits is served, and an
  abandoned query does not run on.
\<close>

section \<open>Schedules\<close>

definition run_at :: "'db env \<Rightarrow> (nat \<Rightarrow> event) \<Rightarrow> 'db world \<Rightarrow> nat \<Rightarrow> 'db world" where
  "run_at ev f w n = env_run ev (map f [0..<n]) w"

definition fair :: "nat \<Rightarrow> (nat \<Rightarrow> event) \<Rightarrow> bool" where
  "fair h f \<longleftrightarrow> (\<forall>n. \<exists>m\<ge>n. f m = Produce h)"

lemma run_at_simps [simp]: "run_at ev f w 0 = w" "run_at ev f w (Suc n) = env_step ev (f n) (run_at ev f w n)"
  by (simp_all add: run_at_def env_run_def)

section \<open>The rank of a handler\<close>

text \<open>Waiting to start, sending, finished; while sending, the items left.\<close>

definition rank :: "nat \<Rightarrow> 'db world \<Rightarrow> nat \<times> nat" where
  "rank h w = (phase_of h w, items_of h w)"

definition below :: "((nat \<times> nat) \<times> nat \<times> nat) set" where
  "below = less_than <*lex*> less_than"

lemma wf_below: "wf below" and trans_below: "trans below"
  by (auto simp: below_def intro: trans_lex_prod trans_less_than)

lemma rank_turn: "task_of h w \<noteq> Done \<Longrightarrow> (rank h (producer_step ev h w), rank h w) \<in> below"
proof (cases "w_streams w h")
  case (Some st)
  assume "task_of h w \<noteq> Done"
  then have "st_task st \<noteq> Done" using Some by (simp add: task_of_def)
  from producer_step_decreases [OF Some this, of ev] show ?thesis by (auto simp: rank_def below_def)
qed (simp add: task_of_def)

lemma done_turn: "task_of h w = Done \<Longrightarrow> producer_step ev h w = w"
  by (auto simp: task_of_def producer_step_def split: option.splits)

lemma same_stream: "w_streams w' h = w_streams w h \<Longrightarrow> rank h w' = rank h w \<and> task_of h w' = task_of h w"
  by (simp add: rank_def phase_of_def items_of_def task_of_def)

lemma other_event: "e \<noteq> Produce h \<Longrightarrow> w_streams (env_step ev e w) h = w_streams w h"
  by (cases e) (auto simp: producer_other)

lemma rank_step: "rank h (env_step ev e w) = rank h w \<or> (rank h (env_step ev e w), rank h w) \<in> below"
proof (cases "e = Produce h")
  case True
  then show ?thesis using rank_turn [of h w ev] done_turn [of h w ev] by (cases "task_of h w = Done") auto
qed (use same_stream [OF other_event] in blast)

lemma done_step: "task_of h w = Done \<Longrightarrow> task_of h (env_step ev e w) = Done"
  using same_stream [OF other_event, of e h ev w] by (cases "e = Produce h") (simp_all add: done_turn)

lemma rank_run:
  "k \<le> n \<Longrightarrow> rank h (run_at ev f w n) = rank h (run_at ev f w k) \<or>
     (rank h (run_at ev f w n), rank h (run_at ev f w k)) \<in> below"
proof (induction n rule: dec_induct)
  case (step n)
  with rank_step [of h ev "f n" "run_at ev f w n"] show ?case by (auto dest: transD [OF trans_below])
qed simp

lemma done_run: "k \<le> n \<Longrightarrow> task_of h (run_at ev f w k) = Done \<Longrightarrow> task_of h (run_at ev f w n) = Done"
  by (induction n rule: dec_induct) (simp_all add: done_step)

section \<open>Every handler ends\<close>

lemma handler_ends:
  assumes "fair h f"
  shows "\<exists>N. \<forall>n\<ge>N. task_of h (run_at ev f w n) = Done"
proof -
  have "\<exists>N. task_of h (run_at ev f w N) = Done" if "rank h (run_at ev f w k) = x" for x k
    using wf_below that
  proof (induction x arbitrary: k rule: wf_induct_rule)
    case (less x)
    obtain m where m: "k \<le> m" "f m = Produce h" using assms by (auto simp: fair_def)
    show ?case
    proof (cases "task_of h (run_at ev f w m) = Done")
      case False
      from rank_turn [OF this, of ev] m(2)
      have "(rank h (run_at ev f w (Suc m)), rank h (run_at ev f w m)) \<in> below" by simp
      with rank_run [OF m(1), of h ev f w] less.prems
      have "(rank h (run_at ev f w (Suc m)), x) \<in> below" by (auto dest: transD [OF trans_below])
      from less.IH [OF this refl] show ?thesis .
    qed blast
  qed
  then show ?thesis using done_run by blast
qed

text \<open>There are finitely many streams, so one moment serves them all.\<close>

lemma no_stream_done: "w_streams w h = None \<Longrightarrow> task_of h w = Done"
  by (simp add: task_of_def)

lemma handlers_end:
  assumes "\<And>h. h \<in> dom (w_streams w) \<Longrightarrow> h < m \<and> fair h f"
  shows "\<exists>N. \<forall>n\<ge>N. \<forall>h. task_of h (run_at ev f w n) = Done"
proof -
  obtain N where N: "\<And>h n. h \<in> dom (w_streams w) \<Longrightarrow> N h \<le> n \<Longrightarrow> task_of h (run_at ev f w n) = Done"
    using handler_ends [of _ f ev w] assms by metis
  have fin: "finite (dom (w_streams w))" by (rule finite_subset [of _ "{..<m}"]) (use assms in auto)
  have "task_of h (run_at ev f w n) = Done" if "Max (insert 0 (N ` dom (w_streams w))) \<le> n" for h n
  proof (cases "h \<in> dom (w_streams w)")
    case True
    then have "N h \<le> Max (insert 0 (N ` dom (w_streams w)))" using fin by (intro Max_ge) auto
    with that N [OF True] show ?thesis by (meson le_trans)
  next
    case False
    then have "task_of h (run_at ev f w 0) = Done" by (auto intro: no_stream_done)
    then show ?thesis by (rule done_run [OF le0])
  qed
  then show ?thesis by blast
qed

lemma run_at_reachable: "reachable ev s \<Longrightarrow> reachable ev (s\<lparr>s_w := run_at ev f (s_w s) n\<rparr>)"
proof (induction n)
  case (Suc n)
  from reachable.steps [OF Suc.IH [OF Suc.prems] step.Env [where e = "f n"]] show ?case by simp
qed simp

text \<open>Once all handlers have ended, the environment can only cancel contexts.\<close>

lemma ended_env_same: "\<forall>h. task_of h w = Done \<Longrightarrow> same_core w (env_step ev e w)"
  by (cases e) (simp_all add: done_turn same_core_def)

lemma ended_run_same:
  assumes "\<And>n. N \<le> n \<Longrightarrow> \<forall>h. task_of h (run_at ev f w n) = Done" "N \<le> n"
  shows "same_core (run_at ev f w N) (run_at ev f w n)"
  using assms(2)
proof (induction n rule: dec_induct)
  case (step n)
  from ended_env_same [OF assms(1) [OF step.hyps(1)]] step.IH show ?case by (auto intro: same_core_trans)
qed simp

section \<open>The properties\<close>





end
