(* ===== verification/Streams.thy ===== *)
theory Streams
  imports Engine LogPage Handlers
begin

text \<open>
  The stream handlers of \<open>rust/src/lib.rs\<close> behind the typed queries: each reads its request, turns it into
  calls of the engine, and answers with the engine's batches or with one batch built from the engine's
  structs. The methods of the engine that hand out query results are the fields of \<open>query_engine\<close>, those of the
  PromQL, LogQL and TraceQL library the fields of \<open>lgtm\<close>; \<open>'v\<close> stands for the engine's attribute values and
  \<open>'x\<close> for what the library hands from one of its functions to the next.
\<close>

section \<open>The engine\<close>

record ('db, 'v) query_engine =
  qe_log_batches :: "'db \<Rightarrow> qcall list \<Rightarrow> string + batch list"
  qe_log_count :: "'db \<Rightarrow> qcall list \<Rightarrow> string + u64"
  qe_range_batches :: "'db \<Rightarrow> qcall list \<Rightarrow> string + batch list"
  qe_span_metrics_batches :: "'db \<Rightarrow> qcall list \<Rightarrow> string + batch list"
  qe_points_batches :: "'db \<Rightarrow> qcall list \<Rightarrow> string + batch list"
  qe_trace_batches :: "'db \<Rightarrow> bytes \<Rightarrow> string + batch list"
  qe_instant :: "'db \<Rightarrow> qcall list \<Rightarrow> string + ((string \<times> string) list \<times> i64 \<times> f64) list"
  qe_attr_names :: "'db \<Rightarrow> string + string list"
  qe_attr_values :: "'db \<Rightarrow> string \<Rightarrow> string + string list"
  qe_catalog :: "'db \<Rightarrow> string + (string \<times> string \<times> string option \<times> string) list"
  qe_series :: "'db \<Rightarrow> string \<Rightarrow> string + (string \<times> 'v) list list"
  qe_exemplars :: "'db \<Rightarrow> string \<Rightarrow> string + (i64 \<times> f64 \<times> bytes option \<times> bytes option \<times> string) list"
  qe_volume_by :: "'db \<Rightarrow> qcall list \<Rightarrow> u64 \<Rightarrow> string list \<Rightarrow> string + (i64 \<times> (string \<times> string) list \<times> u64) list"
  qe_search :: "'db \<Rightarrow> qcall list \<Rightarrow> string + (bytes \<times> string option \<times> string option \<times> i64 \<times> u64 \<times> u64 \<times> bool) list"
  qe_str :: "string \<Rightarrow> 'v"
  qe_canonical :: "(string \<times> 'v) list \<Rightarrow> string"
  qe_trace_hex :: "bytes \<Rightarrow> string"
  qe_span_hex :: "bytes \<Rightarrow> string"

datatype MetricKind = Gauge | CumulativeCounter | CumulativeHistogram

record MetricResolution =
  mr_query_name :: string
  mr_storage_name :: string
  mr_kind :: MetricKind

record EvalRange =
  er_start_ns :: i64
  er_end_ns :: i64
  er_step_ns :: u64
  er_lookback_ns :: u64

record 'x LogFetchRequest =
  lf_bounds :: 'x
  lf_filter :: 'x
  lf_max_entries :: u64

datatype 'x query_model = Prom 'x | LogSelector 'x | LogExpr 'x | TraceExpr 'x

record ('db, 'x) lgtm =
  lg_promql :: "string \<Rightarrow> MetricResolution list \<Rightarrow> string + 'x query_model"
  lg_logql :: "string \<Rightarrow> MetricResolution list \<Rightarrow> string + 'x query_model"
  lg_traceql :: "string \<Rightarrow> MetricResolution list \<Rightarrow> string + 'x query_model"
  lg_bounds :: "i64 \<Rightarrow> i64 \<Rightarrow> string + 'x"
  lg_log_query :: "'x LogFetchRequest \<Rightarrow> string + qcall list"
  lg_run_promql :: "'db \<Rightarrow> 'x \<Rightarrow> EvalRange \<Rightarrow> string + batch"
  lg_run_logql :: "'db \<Rightarrow> 'x \<Rightarrow> EvalRange \<Rightarrow> string + batch"
  lg_run_traceql :: "'db \<Rightarrow> 'x \<Rightarrow> 'x \<Rightarrow> string + batch"

section \<open>Reading the request\<close>

text \<open>
  The first half of a handler reads the payload, before the database is looked up; the second half runs on
  the database.
\<close>

type_synonym 'db stream_handler = "bytes \<Rightarrow> string + ('db \<Rightarrow> string + batch list)"

definition on_request ::
  "serde \<Rightarrow> string \<Rightarrow> (rustjson \<Rightarrow> members \<Rightarrow> 'w option) \<Rightarrow> ('w \<Rightarrow> 'db \<Rightarrow> string + batch list) \<Rightarrow> 'db stream_handler" where
  "on_request s what wire run payload =
     (case Option.bind (serde_object (sd_read s) payload) (wire (sd_read s)) of
        None \<Rightarrow> Inl (what @ sd_error s payload)
      | Some r \<Rightarrow> Inr (run r))"

definition prefixed :: "string \<Rightarrow> string + 'a \<Rightarrow> string + 'a" where
  "prefixed what = map_sum ((@) what) id"

section \<open>Handlers that pass the engine's batches on\<close>

definition query_logs_run ::
  "imbh_api \<Rightarrow> ('db, 'v) query_engine \<Rightarrow> LogQuery \<Rightarrow> 'db \<Rightarrow> string + batch list" where
  "query_logs_run api qe w d =
     (case build_log_query api w of
        Inl e \<Rightarrow> Inl (''bad log query: '' @ e)
      | Inr q \<Rightarrow> qe_log_batches qe d q)"

definition query_metrics_run :: "('db, 'v) query_engine \<Rightarrow> MetricQuery \<Rightarrow> 'db \<Rightarrow> string + batch list" where
  "query_metrics_run qe w d = qe_range_batches qe d (build_metric_query w)"

definition query_span_metrics_run ::
  "('db, 'v) query_engine \<Rightarrow> SpanMetricsQuery \<Rightarrow> 'db \<Rightarrow> string + batch list" where
  "query_span_metrics_run qe w d = qe_span_metrics_batches qe d (build_span_metrics_query w)"

definition metric_points_run ::
  "('db, 'v) query_engine \<Rightarrow> MetricPointsQuery \<Rightarrow> 'db \<Rightarrow> string + batch list" where
  "metric_points_run qe w d = qe_points_batches qe d (build_points_query w)"

definition get_trace_run ::
  "imbh_api \<Rightarrow> ('db, 'v) query_engine \<Rightarrow> getTraceReq \<Rightarrow> 'db \<Rightarrow> string + batch list" where
  "get_trace_run api qe r d =
     (case ia_trace_id api (gt_TraceID r) of
        None \<Rightarrow> Inl (''invalid trace id '' @ ia_debug api (gt_TraceID r) @ '' (want 32 hex chars)'')
      | Some i \<Rightarrow> qe_trace_batches qe d i)"

section \<open>Handlers that build a batch\<close>

text \<open>Label pairs of strings are rendered by the engine's canonical encoder.\<close>

definition string_labels :: "('db, 'v) query_engine \<Rightarrow> (string \<times> string) list \<Rightarrow> string" where
  "string_labels qe ls = qe_canonical qe (map (\<lambda>(k, v). (k, qe_str qe v)) ls)"

definition metric_instant_run :: "('db, 'v) query_engine \<Rightarrow> MetricQuery \<Rightarrow> 'db \<Rightarrow> string + batch list" where
  "metric_instant_run qe w d =
     map_sum id (\<lambda>v. [series_batch (map (\<lambda>(ls, t, x). (string_labels qe ls, t, x)) v)])
       (qe_instant qe d (build_metric_query w))"

definition attr_names_run :: "('db, 'v) query_engine \<Rightarrow> 'db \<Rightarrow> string + batch list" where
  "attr_names_run qe d = map_sum id (\<lambda>names. [utf8_batch ''name'' names]) (qe_attr_names qe d)"

definition attr_values_run :: "('db, 'v) query_engine \<Rightarrow> attrValuesReq \<Rightarrow> 'db \<Rightarrow> string + batch list" where
  "attr_values_run qe r d = map_sum id (\<lambda>vs. [utf8_batch ''value'' vs]) (qe_attr_values qe d (ar_Key r))"

definition metric_catalog_run :: "('db, 'v) query_engine \<Rightarrow> 'db \<Rightarrow> string + batch list" where
  "metric_catalog_run qe d = map_sum id (\<lambda>ms. [metric_catalog_batch ms]) (qe_catalog qe d)"

definition metric_series_run :: "('db, 'v) query_engine \<Rightarrow> metricSeriesReq \<Rightarrow> 'db \<Rightarrow> string + batch list" where
  "metric_series_run qe r d =
     map_sum id (\<lambda>ss. [utf8_batch ''labels'' (map (qe_canonical qe) ss)]) (qe_series qe d (mr_Metric r))"

definition metric_exemplars_run :: "('db, 'v) query_engine \<Rightarrow> metricSeriesReq \<Rightarrow> 'db \<Rightarrow> string + batch list" where
  "metric_exemplars_run qe r d =
     map_sum id (\<lambda>xs. [exemplars_batch (map (\<lambda>(t, x, tr, sp, a).
         (t, x, map_option (qe_trace_hex qe) tr, map_option (qe_span_hex qe) sp, a)) xs)])
       (qe_exemplars qe d (mr_Metric r))"

text \<open>A bucket is at least a nanosecond wide.\<close>

definition at_least_1 :: "i64 \<Rightarrow> u64" where
  "at_least_1 n = (if sint n < 1 then 1 else n)"

definition log_volume_run ::
  "imbh_api \<Rightarrow> ('db, 'v) query_engine \<Rightarrow> logVolumeRequest \<Rightarrow> 'db \<Rightarrow> string + batch list" where
  "log_volume_run api qe r d =
     (case build_log_query api (lv_LogQuery r) of
        Inl e \<Rightarrow> Inl (''bad log-volume request: '' @ e)
      | Inr q \<Rightarrow> map_sum id (\<lambda>bs. [log_volume_batch (map (\<lambda>(t, ls, c). (t, string_labels qe ls, c)) bs)])
          (qe_volume_by qe d q (at_least_1 (lv_StepNs r)) (lv_GroupBy r)))"

definition trace_search_run :: "('db, 'v) query_engine \<Rightarrow> TraceQuery \<Rightarrow> 'db \<Rightarrow> string + batch list" where
  "trace_search_run qe w d =
     map_sum id (\<lambda>ts. [trace_search_batch (map (\<lambda>(t, r). (qe_trace_hex qe t, r)) ts)])
       (qe_search qe d (build_trace_query w))"

section \<open>PromQL, LogQL, TraceQL\<close>

definition dots_to_underscores :: "string \<Rightarrow> string" where
  "dots_to_underscores = map (\<lambda>c. if c = CHR ''.'' then CHR ''_'' else c)"

definition metric_kind :: "string \<Rightarrow> MetricKind" where
  "metric_kind k = (if k = ''sum'' then CumulativeCounter else if k = ''histogram'' then CumulativeHistogram else Gauge)"

definition promql_context :: "('db, 'v) query_engine \<Rightarrow> 'db \<Rightarrow> string + MetricResolution list" where
  "promql_context qe d = map_sum id (map (\<lambda>(m, unit, tmp, kind).
     \<lparr>mr_query_name = dots_to_underscores m, mr_storage_name = m, mr_kind = metric_kind kind\<rparr>)) (qe_catalog qe d)"

definition eval_range :: "lgtmReq \<Rightarrow> u64 \<Rightarrow> EvalRange" where
  "eval_range r lookback = \<lparr>er_start_ns = lr_Start r, er_end_ns = lr_End r,
     er_step_ns = at_least_1 (lr_Step r), er_lookback_ns = lookback\<rparr>"

definition promql_run ::
  "('db, 'v) query_engine \<Rightarrow> ('db, 'x) lgtm \<Rightarrow> lgtmReq \<Rightarrow> 'db \<Rightarrow> string + batch list" where
  "promql_run qe lg r d =
     (case promql_context qe d of
        Inl e \<Rightarrow> Inl (''promql: '' @ e)
      | Inr ctx \<Rightarrow>
          (case lg_promql lg (lr_Query r) ctx of
             Inl e \<Rightarrow> Inl (''promql: '' @ e)
           | Inr (Prom expr) \<Rightarrow>
               prefixed ''promql: '' (map_sum id (\<lambda>b. [b]) (lg_run_promql lg d expr (eval_range r 300000000000)))
           | Inr _ \<Rightarrow> Inl ''promql: not a metric expression''))"

definition max_entries :: "lgtmReq \<Rightarrow> u64" where
  "max_entries r = (if 0 < sint (lr_Limit r) then lr_Limit r else 1000)"

definition logql_lines ::
  "('db, 'v) query_engine \<Rightarrow> ('db, 'x) lgtm \<Rightarrow> lgtmReq \<Rightarrow> 'x \<Rightarrow> 'db \<Rightarrow> string + batch list" where
  "logql_lines qe lg r sel d =
     (case lg_bounds lg (lr_Start r) (lr_End r) of
        Inl e \<Rightarrow> Inl (''logql: '' @ e)
      | Inr bounds \<Rightarrow>
          (case lg_log_query lg \<lparr>lf_bounds = bounds, lf_filter = sel, lf_max_entries = max_entries r\<rparr> of
             Inl e \<Rightarrow> Inl (''logql: '' @ e)
           | Inr q \<Rightarrow> qe_log_batches qe d q))"

definition logql_run ::
  "('db, 'v) query_engine \<Rightarrow> ('db, 'x) lgtm \<Rightarrow> lgtmReq \<Rightarrow> 'db \<Rightarrow> string + batch list" where
  "logql_run qe lg r d =
     (case lg_logql lg (lr_Query r) [] of
        Inl e \<Rightarrow> Inl (''logql: '' @ e)
      | Inr (LogSelector sel) \<Rightarrow> logql_lines qe lg r sel d
      | Inr (LogExpr expr) \<Rightarrow>
          prefixed ''logql: '' (map_sum id (\<lambda>b. [b]) (lg_run_logql lg d expr (eval_range r 0)))
      | Inr _ \<Rightarrow> Inl ''logql: translator returned a non-log model'')"

definition traceql_run :: "('db, 'x) lgtm \<Rightarrow> lgtmReq \<Rightarrow> 'db \<Rightarrow> string + batch list" where
  "traceql_run lg r d =
     (case lg_traceql lg (lr_Query r) [] of
        Inl e \<Rightarrow> Inl (''traceql: '' @ e)
      | Inr (TraceExpr expr) \<Rightarrow>
          (case lg_bounds lg (lr_Start r) (lr_End r) of
             Inl e \<Rightarrow> Inl (''traceql: '' @ e)
           | Inr bounds \<Rightarrow> prefixed ''traceql: '' (map_sum id (\<lambda>b. [b]) (lg_run_traceql lg d expr bounds)))
      | Inr _ \<Rightarrow> Inl ''traceql: not a spanset expression'')"

section \<open>The registrations\<close>

definition stream_handlers ::
  "serde \<Rightarrow> imbh_api \<Rightarrow> ('db, 'v) query_engine \<Rightarrow> ('db, 'x) lgtm \<Rightarrow> (u32 \<times> 'db stream_handler) list" where
  "stream_handlers s api qe lg = [
     (opQueryLogs, on_request s ''bad log query: '' LogQuery_wire (query_logs_run api qe)),
     (opQueryMetrics, on_request s ''bad metric query: '' MetricQuery_wire (query_metrics_run qe)),
     (opQuerySpanMetrics, on_request s ''bad span-metrics query: '' SpanMetricsQuery_wire (query_span_metrics_run qe)),
     (opPromQL, on_request s ''bad promql request: '' lgtmReq_wire (promql_run qe lg)),
     (opLogQL, on_request s ''bad logql request: '' lgtmReq_wire (logql_run qe lg)),
     (opTraceQL, on_request s ''bad traceql request: '' lgtmReq_wire (traceql_run lg)),
     (opGetTrace, on_request s ''bad get-trace request: '' getTraceReq_wire (get_trace_run api qe)),
     (opMetricPoints, on_request s ''bad metric-points query: '' MetricPointsQuery_wire (metric_points_run qe)),
     (opAttrNames, \<lambda>_. Inr (attr_names_run qe)),
     (opAttrValues, on_request s ''bad attr-values request: '' attrValuesReq_wire (attr_values_run qe)),
     (opMetricCatalog, \<lambda>_. Inr (metric_catalog_run qe)),
     (opMetricSeries, on_request s ''bad metric-series request: '' metricSeriesReq_wire (metric_series_run qe)),
     (opMetricExemplars, on_request s ''bad metric-exemplars request: '' metricSeriesReq_wire (metric_exemplars_run qe)),
     (opLogVolume, on_request s ''bad log-volume request: '' logVolumeRequest_wire (log_volume_run api qe)),
     (opTraceSearch, on_request s ''bad trace query: '' TraceQuery_wire (trace_search_run qe)),
     (opMetricInstant, on_request s ''bad metric query: '' MetricQuery_wire (metric_instant_run qe))]"

text \<open>
  The answers of these handlers, and of the handler that counts log rows, in the environment of the process:
  the half before the lookup and the half after it.
\<close>

definition count_logs :: "serde \<Rightarrow> imbh_api \<Rightarrow> ('db, 'v) query_engine \<Rightarrow> bytes \<Rightarrow> string + ('db \<Rightarrow> string + u64)" where
  "count_logs s api qe payload =
     (case Option.bind (serde_object (sd_read s) payload) (LogQuery_wire (sd_read s)) of
        None \<Rightarrow> Inl (''imbhgo: bad log count query: '' @ sd_error s payload)
      | Some w \<Rightarrow> Inr (\<lambda>d. case build_log_query api w of
          Inl e \<Rightarrow> Inl (''imbhgo: bad log count query: '' @ e)
        | Inr q \<Rightarrow> qe_log_count qe d q))"

definition typed_handlers ::
  "serde \<Rightarrow> imbh_api \<Rightarrow> ('db, 'v) query_engine \<Rightarrow> ('db, 'x) lgtm \<Rightarrow> 'db env \<Rightarrow> 'db env" where
  "typed_handlers s api qe lg ev = ev\<lparr>
     ev_parse := (\<lambda>op p.
       if op = opLogCount then (case count_logs s api qe p of Inl e \<Rightarrow> Some e | Inr _ \<Rightarrow> None)
       else (case map_of (stream_handlers s api qe lg) op of
               Some h \<Rightarrow> (case h p of Inl e \<Rightarrow> Some e | Inr _ \<Rightarrow> None)
             | None \<Rightarrow> ev_parse ev op p)),
     ev_typed := (\<lambda>op d p.
       case map_of (stream_handlers s api qe lg) op of
         Some h \<Rightarrow> (case h p of Inl e \<Rightarrow> Inl e | Inr run \<Rightarrow> run d)
       | None \<Rightarrow> ev_typed ev op d p),
     ev_count := (\<lambda>d p. case count_logs s api qe p of Inl e \<Rightarrow> Inl e | Inr run \<Rightarrow> run d)\<rparr>"

section \<open>From the method to the engine and back\<close>

text \<open>
  What is relied on of the engine: its errors have a text (an empty one would be read as success), and its
  batches are well-formed.
\<close>

definition answer_ok :: "string + batch list \<Rightarrow> bool" where
  "answer_ok x \<longleftrightarrow> (case x of Inl e \<Rightarrow> e \<noteq> [] | Inr bs \<Rightarrow> list_all wf_batch bs)"

definition says :: "string + 'a \<Rightarrow> bool" where
  "says x \<longleftrightarrow> (\<forall>e. x = Inl e \<longrightarrow> e \<noteq> [])"

definition engine_ok :: "('db, 'v) query_engine \<Rightarrow> bool" where
  "engine_ok qe \<longleftrightarrow> (\<forall>d cs. answer_ok (qe_log_batches qe d cs) \<and> answer_ok (qe_range_batches qe d cs) \<and>
     answer_ok (qe_span_metrics_batches qe d cs) \<and> answer_ok (qe_points_batches qe d cs) \<and>
     says (qe_log_count qe d cs) \<and> says (qe_instant qe d cs) \<and> says (qe_search qe d cs)) \<and>
     (\<forall>d cs n ks. says (qe_volume_by qe d cs n ks)) \<and> (\<forall>d i. answer_ok (qe_trace_batches qe d i)) \<and>
     (\<forall>d. says (qe_attr_names qe d) \<and> says (qe_catalog qe d)) \<and>
     (\<forall>d k. says (qe_attr_values qe d k) \<and> says (qe_series qe d k) \<and> says (qe_exemplars qe d k))"

definition lgtm_ok :: "('db, 'x) lgtm \<Rightarrow> bool" where
  "lgtm_ok lg \<longleftrightarrow> (\<forall>d x r b. lg_run_promql lg d x r = Inr b \<or> lg_run_logql lg d x r = Inr b \<longrightarrow> wf_batch b) \<and>
     (\<forall>d x y b. lg_run_traceql lg d x y = Inr b \<longrightarrow> wf_batch b)"

lemma answer_ok_simps [simp]: "answer_ok (Inl e) \<longleftrightarrow> e \<noteq> []" "answer_ok (Inr bs) \<longleftrightarrow> list_all wf_batch bs"
  "says (Inl e) \<longleftrightarrow> e \<noteq> []" "says (Inr x)"
  by (simp_all add: answer_ok_def says_def)

lemma wf_built [simp]: "wf_batch (utf8_batch c vs)" "wf_batch (series_batch rs)" "wf_batch (metric_catalog_batch ms)"
  "wf_batch (exemplars_batch es)" "wf_batch (log_volume_batch bs)" "wf_batch (trace_search_batch ts)"
  by (simp_all add: wf_batch_def utf8_batch_def series_batch_def metric_catalog_batch_def exemplars_batch_def
      log_volume_batch_def trace_search_batch_def)

lemma answer_built [simp]: "says x \<Longrightarrow> (\<And>y. wf_batch (mk y)) \<Longrightarrow> answer_ok (map_sum id (\<lambda>y. [mk y]) x)"
  by (cases x) auto

lemma ready_typed [simp]: "ready (typed_handlers s api qe lg ev) ctx sched w = ready ev ctx sched w"
  by (simp add: ready_def typed_handlers_def slot_fetch_ok_def)

lemma typed_answer:
  assumes "map_of (stream_handlers s api qe lg) op = Some h" "op \<noteq> opSQL" "op \<noteq> opLogPage" "op \<noteq> opLogCount"
    and "w_dbs w (db_id db) = Some d"
  shows "answer (typed_handlers s api qe lg ev) w db op p =
    (case h p of Inl e \<Rightarrow> Inl e | Inr run \<Rightarrow> map_sum id (map Item) (run d))"
  using assms by (auto simp: answer_def handler_reply_def typed_handlers_def split: sum.splits)

text \<open>What the Go side makes of an answer: the query's error, or the decoded batches.\<close>

definition failed :: "string \<Rightarrow> 'a result option" where
  "failed e = Some (Inl (ErrorString (''imbhgo: query failed: '' @ e)))"

definition decoded :: "'s batch_decoder \<Rightarrow> 's \<Rightarrow> string + batch list \<Rightarrow> 's result option" where
  "decoded dec acc x = (case x of Inl e \<Rightarrow> failed e | Inr bs \<Rightarrow> map_option Inr (dec_all dec bs acc))"

lemma collect_decoded:
  assumes "ready ev ctx sched w" "answer ev w db op p = map_sum id (map Item) x"
    and "case x of Inl e \<Rightarrow> e \<noteq> [] | Inr bs \<Rightarrow> dec_all dec bs acc \<noteq> None"
  shows "fst (collect (\<lambda>r w. drain ev dec sched r w acc) (openStream db ctx op p w)) = decoded dec acc x"
proof (cases x)
  case (Inl e)
  with collect_error [OF assms(1), of db op p e] assms(2,3) show ?thesis by (simp add: decoded_def failed_def)
next
  case (Inr bs)
  with collect_answer [OF assms(1), of db op p bs dec acc] assms(2,3) show ?thesis by (auto simp: decoded_def)
qed

text \<open>
  The contract of a registered handler: the op has one, it reads the method's request by its wire struct.
  The rows that come back are those of its answer to exactly the request passed.
\<close>

locale stream_query = wire_struct fields wire view
  for fields :: "'q \<Rightarrow> gostruct"
    and wire :: "rustjson \<Rightarrow> members \<Rightarrow> 'w option"
    and view :: "'q \<Rightarrow> 'w" +
  fixes op :: u32
    and what :: string
    and run :: "imbh_api \<Rightarrow> ('db, 'v) query_engine \<Rightarrow> ('db, 'x) lgtm \<Rightarrow> 'w \<Rightarrow> 'db \<Rightarrow> string + batch list"
  assumes registered: "map_of (stream_handlers s api qe lg) op = Some (on_request s what wire (run api qe lg))"
    and op_typed: "op \<noteq> opSQL" "op \<noteq> opLogPage" "op \<noteq> opLogCount"
    and run_ok: "engine_ok qe \<Longrightarrow> lgtm_ok lg \<Longrightarrow> answer_ok (run api qe lg r d)"
begin

lemma answered:
  assumes "w_dbs w (db_id db) = Some d" "serde_reads (sd_read s)" "struct_ok g (sd_read s) (fields q)"
  obtains t where "marshal g (fields q) = Inr t"
    "answer (typed_handlers s api qe lg ev) w db op t = map_sum id (map Item) (run api qe lg (view q) d)"
proof -
  from round_trip [OF assms(2,3)] obtain t where t: "marshal g (fields q) = Inr t"
    "Option.bind (serde_object (sd_read s) t) (wire (sd_read s)) = Some (view q)" by (auto simp: reads_def)
  with typed_answer [OF registered op_typed assms(1), where s = s and ev = ev and p = t] show ?thesis
    by (intro that [OF t(1)]) (simp add: on_request_def)
qed

lemma delivered:
  assumes "ready ev ctx sched w" "w_dbs w (db_id db) = Some d" "serde_reads (sd_read s)"
    and "struct_ok g (sd_read s) (fields q)" "engine_ok qe" "lgtm_ok lg"
    and "\<And>bs. list_all wf_batch bs \<Longrightarrow> dec_all dec bs acc \<noteq> None"
  shows "fst (collect (\<lambda>r w. drain (typed_handlers s api qe lg ev) dec sched r w acc)
      (send_query g db ctx op (fields q) w)) = decoded dec acc (run api qe lg (view q) d)"
proof -
  obtain t where t: "marshal g (fields q) = Inr t"
    "answer (typed_handlers s api qe lg ev) w db op t = map_sum id (map Item) (run api qe lg (view q) d)"
    by (rule answered [OF assms(2-4)])
  have "case run api qe lg (view q) d of Inl e \<Rightarrow> e \<noteq> [] | Inr bs \<Rightarrow> dec_all dec bs acc \<noteq> None"
    using run_ok [OF assms(5,6), of api "view q" d] assms(7) by (simp add: answer_ok_def split: sum.splits)
  from collect_decoded [OF _ t(2) this] t(1) assms(1) show ?thesis by (simp add: send_query_def)
qed

end

lemma engine_okD:
  assumes "engine_ok qe"
  shows "answer_ok (qe_log_batches qe d cs)" "answer_ok (qe_range_batches qe d cs)"
    "answer_ok (qe_span_metrics_batches qe d cs)" "answer_ok (qe_points_batches qe d cs)"
    "answer_ok (qe_trace_batches qe d i)" "says (qe_log_count qe d cs)" "says (qe_instant qe d cs)"
    "says (qe_search qe d cs)" "says (qe_volume_by qe d cs n ks)" "says (qe_attr_names qe d)" "says (qe_catalog qe d)"
    "says (qe_attr_values qe d k)" "says (qe_series qe d k)" "says (qe_exemplars qe d k)"
  using assms by (simp_all add: engine_ok_def)

lemma prefixed_ok: "(\<And>b. x = Inr b \<Longrightarrow> wf_batch b) \<Longrightarrow> p \<noteq> [] \<Longrightarrow> answer_ok (prefixed p (map_sum id (\<lambda>b. [b]) x))"
  by (cases x) (simp_all add: prefixed_def)

lemma runs_ok:
  assumes "engine_ok qe"
  shows "answer_ok (query_logs_run api qe lq d)" "answer_ok (query_metrics_run qe mq d)"
    "answer_ok (query_span_metrics_run qe sq d)" "answer_ok (metric_points_run qe pq d)"
    "answer_ok (get_trace_run api qe gt d)" "answer_ok (metric_instant_run qe mq d)" "answer_ok (attr_names_run qe d)"
    "answer_ok (attr_values_run qe ar d)" "answer_ok (metric_catalog_run qe d)" "answer_ok (metric_series_run qe mr d)"
    "answer_ok (metric_exemplars_run qe mr d)" "answer_ok (log_volume_run api qe lv d)" "answer_ok (trace_search_run qe tq d)"
  using engine_okD [OF assms]
  by (simp_all add: query_logs_run_def query_metrics_run_def query_span_metrics_run_def metric_points_run_def
      get_trace_run_def metric_instant_run_def attr_names_run_def attr_values_run_def metric_catalog_run_def
      metric_series_run_def metric_exemplars_run_def log_volume_run_def trace_search_run_def split: sum.split option.split)

lemma lgtm_runs_ok:
  assumes "engine_ok qe" "lgtm_ok lg"
  shows "answer_ok (promql_run qe lg r d)" "answer_ok (logql_run qe lg r d)" "answer_ok (traceql_run lg r d)"
  using assms engine_okD(1) [OF assms(1)]
  by (auto simp: promql_run_def logql_run_def logql_lines_def traceql_run_def lgtm_ok_def
      intro!: prefixed_ok split: sum.split query_model.split)

interpretation logs_stream: stream_query LogQuery_fields LogQuery_wire "\<lambda>q. q" opQueryLogs "''bad log query: ''"
  "\<lambda>api qe lg. query_logs_run api qe"
  by unfold_locales (simp_all add: stream_handlers_def op_defs runs_ok)

interpretation metrics_stream: stream_query MetricQuery_fields MetricQuery_wire "\<lambda>q. q" opQueryMetrics
  "''bad metric query: ''" "\<lambda>api qe lg. query_metrics_run qe"
  by unfold_locales (simp_all add: stream_handlers_def op_defs runs_ok)

interpretation span_metrics_stream: stream_query SpanMetricsQuery_fields SpanMetricsQuery_wire "\<lambda>q. q" opQuerySpanMetrics
  "''bad span-metrics query: ''" "\<lambda>api qe lg. query_span_metrics_run qe"
  by unfold_locales (simp_all add: stream_handlers_def op_defs runs_ok)

interpretation points_stream: stream_query MetricPointsQuery_fields MetricPointsQuery_wire "\<lambda>q. q" opMetricPoints
  "''bad metric-points query: ''" "\<lambda>api qe lg. metric_points_run qe"
  by unfold_locales (simp_all add: stream_handlers_def op_defs runs_ok)

interpretation trace_stream: stream_query getTraceReq_fields getTraceReq_wire "\<lambda>q. q" opGetTrace
  "''bad get-trace request: ''" "\<lambda>api qe lg. get_trace_run api qe"
  by unfold_locales (simp_all add: stream_handlers_def op_defs runs_ok)

interpretation instant_stream: stream_query MetricQuery_fields MetricQuery_wire "\<lambda>q. q" opMetricInstant
  "''bad metric query: ''" "\<lambda>api qe lg. metric_instant_run qe"
  by unfold_locales (simp_all add: stream_handlers_def op_defs runs_ok)

interpretation values_stream: stream_query attrValuesReq_fields attrValuesReq_wire "\<lambda>q. q" opAttrValues
  "''bad attr-values request: ''" "\<lambda>api qe lg. attr_values_run qe"
  by unfold_locales (simp_all add: stream_handlers_def op_defs runs_ok)

interpretation series_stream: stream_query metricSeriesReq_fields metricSeriesReq_wire "\<lambda>q. q" opMetricSeries
  "''bad metric-series request: ''" "\<lambda>api qe lg. metric_series_run qe"
  by unfold_locales (simp_all add: stream_handlers_def op_defs runs_ok)

interpretation exemplars_stream: stream_query metricSeriesReq_fields metricSeriesReq_wire "\<lambda>q. q" opMetricExemplars
  "''bad metric-exemplars request: ''" "\<lambda>api qe lg. metric_exemplars_run qe"
  by unfold_locales (simp_all add: stream_handlers_def op_defs runs_ok)

interpretation volume_stream: stream_query logVolumeRequest_fields logVolumeRequest_wire "\<lambda>q. q" opLogVolume
  "''bad log-volume request: ''" "\<lambda>api qe lg. log_volume_run api qe"
  by unfold_locales (simp_all add: stream_handlers_def op_defs runs_ok)

interpretation search_stream: stream_query TraceQuery_fields TraceQuery_wire "\<lambda>q. q" opTraceSearch
  "''bad trace query: ''" "\<lambda>api qe lg. trace_search_run qe"
  by unfold_locales (simp_all add: stream_handlers_def op_defs runs_ok)

interpretation promql_stream: stream_query lgtmReq_fields lgtmReq_wire "\<lambda>q. q" opPromQL "''bad promql request: ''"
  "\<lambda>api. promql_run"
  by unfold_locales (simp_all add: stream_handlers_def op_defs lgtm_runs_ok)

interpretation logql_stream: stream_query lgtmReq_fields lgtmReq_wire "\<lambda>q. q" opLogQL "''bad logql request: ''"
  "\<lambda>api. logql_run"
  by unfold_locales (simp_all add: stream_handlers_def op_defs lgtm_runs_ok)

interpretation traceql_stream: stream_query lgtmReq_fields lgtmReq_wire "\<lambda>q. q" opTraceQL "''bad traceql request: ''"
  "\<lambda>api qe. traceql_run"
  by unfold_locales (simp_all add: stream_handlers_def op_defs lgtm_runs_ok)

section \<open>What the methods return\<close>

lemma rows_decode: "row_decoder row \<Longrightarrow> list_all wf_batch bs \<Longrightarrow> dec_all (decode_rows row) bs acc \<noteq> None"
  by (simp add: row_decoder.dec_all_rows list_all_iff)

lemma series_decode:
  "sample_decoder row \<Longrightarrow> list_all wf_batch bs \<Longrightarrow> dec_all (group_batch row) bs (Map.empty, []) \<noteq> None"
  using sample_decoder.dec_all_groups [of row bs "[]"] by (simp add: group_state_Nil list_all_iff)

lemma collect_series: "fst (collect (drain_series ev row sched) x) =
  map_option (map_sum id snd) (fst (collect (\<lambda>r w. drain ev (group_batch row) sched r w (Map.empty, [])) x))"
  by (auto simp: collect_def drain_series_def split: prod.splits sum.splits)

text \<open>The rows and the series of an answer, and the structs of a listing.\<close>

definition rows_result :: "(cols \<Rightarrow> nat \<Rightarrow> 'a option) \<Rightarrow> string + batch list \<Rightarrow> 'a list result option" where
  "rows_result row = decoded (decode_rows row) []"

definition series_result :: "(cols \<Rightarrow> nat \<Rightarrow> sample option) \<Rightarrow> string + batch list \<Rightarrow> Series list result option" where
  "series_result row x = map_option (map_sum id snd) (decoded (group_batch row) (Map.empty, []) x)"

definition listed :: "('a \<Rightarrow> 'b) \<Rightarrow> string + 'a list \<Rightarrow> 'b list result option" where
  "listed f x = (case x of Inl e \<Rightarrow> failed e | Inr xs \<Rightarrow> Some (Inr (map f xs)))"

lemma rows_result_simps [simp]: "rows_result row (Inl e) = failed e" "series_result row' (Inl e) = failed e"
  by (simp_all add: rows_result_def series_result_def decoded_def failed_def)

lemma rows_result_built:
  assumes "\<And>ys out. decode_rows row (mk ys) out = Some (out @ map f ys)"
  shows "rows_result row (map_sum id (\<lambda>xs. [mk (map h xs)]) x) = listed (f \<circ> h) x"
    and "rows_result row (map_sum id (\<lambda>xs. [mk xs]) x) = listed f x"
  by (cases x; simp add: rows_result_def decoded_def listed_def assms comp_def)+

text \<open>A process that can run a query on the database \<open>d\<close>, with these handlers.\<close>

definition serving :: "'db env \<Rightarrow> nat option \<Rightarrow> event list list \<Rightarrow> 'db world \<Rightarrow> DB \<Rightarrow> 'db \<Rightarrow> serde \<Rightarrow>
    ('db, 'v) query_engine \<Rightarrow> ('db, 'x) lgtm \<Rightarrow> bool" where
  "serving ev ctx sched w db d s qe lg \<longleftrightarrow> ready ev ctx sched w \<and> w_dbs w (db_id db) = Some d \<and>
     serde_reads (sd_read s) \<and> engine_ok qe \<and> lgtm_ok lg"

context stream_query begin

lemma rows_delivered:
  assumes "serving ev ctx sched w db d s qe lg" "struct_ok g (sd_read s) (fields q)" "row_decoder row"
  shows "fst (collect (drain_rows (typed_handlers s api qe lg ev) row sched) (send_query g db ctx op (fields q) w)) =
    rows_result row (run api qe lg (view q) d)"
  using assms delivered [where dec = "decode_rows row" and acc = "[]" and q = q, OF _ _ _ assms(2)] rows_decode [OF assms(3)]
  by (simp add: serving_def rows_result_def drain_rows_def [abs_def])

lemma series_delivered:
  assumes "serving ev ctx sched w db d s qe lg" "struct_ok g (sd_read s) (fields q)" "sample_decoder row"
  shows "fst (collect (drain_series (typed_handlers s api qe lg ev) row sched) (send_query g db ctx op (fields q) w)) =
    series_result row (run api qe lg (view q) d)"
  using assms delivered [where dec = "group_batch row" and acc = "(Map.empty, [])" and q = q, OF _ _ _ assms(2)]
    series_decode [OF assms(3)]
  by (simp add: serving_def series_result_def collect_series)

end

text \<open>The two handlers without arguments.\<close>

lemma no_request_delivered:
  assumes "serving ev ctx sched w db d s qe lg" "row_decoder row" "op \<notin> {opSQL, opLogPage, opLogCount}"
    and "map_of (stream_handlers s api qe lg) op = Some (\<lambda>_. Inr run)" "answer_ok (run d)"
  shows "fst (collect (drain_rows (typed_handlers s api qe lg ev) row sched) (openStream db ctx op [] w)) =
    rows_result row (run d)"
proof -
  have "answer (typed_handlers s api qe lg ev) w db op [] = map_sum id (map Item) (run d)"
    using typed_answer [OF assms(4), of w db d ev "[]"] assms(1,3) by (simp add: serving_def)
  moreover have "case run d of Inl e \<Rightarrow> e \<noteq> [] | Inr bs \<Rightarrow> dec_all (decode_rows row) bs [] \<noteq> None"
    using assms(5) rows_decode [OF assms(2)] by (simp add: answer_ok_def split: sum.splits)
  ultimately show ?thesis
    using collect_decoded [of "typed_handlers s api qe lg ev" ctx sched w db op "[]" "run d" "decode_rows row" "[]"] assms(1)
    by (simp add: serving_def rows_result_def drain_rows_def [abs_def])
qed

end
