(* ===== verification/Answers.thy ===== *)
theory Answers
  imports Streams
begin

text \<open>
  The typed queries end to end: what each method of \<open>DB\<close> returns, as a function of what the engine answers to
  the builder calls the Rust handler makes of the caller's request. A listing comes back as one Go struct per
  struct of the engine, batches of the engine come back as their decoded rows, a refusal of a handler or an
  error of the engine as the method's error with its text.
\<close>

lemmas row_decoders = log_entries.row_decoder_axioms instant_samples.row_decoder_axioms
  metric_points.row_decoder_axioms metric_infos.row_decoder_axioms exemplars.row_decoder_axioms
  volume_buckets.row_decoder_axioms strings.row_decoder_axioms trace_matches.row_decoder_axioms
  spans.row_decoder_axioms trace_summaries.row_decoder_axioms span_metrics.row_decoder_axioms

lemmas series_decoders = metric_samples.sample_decoder_axioms labeled_samples.sample_decoder_axioms

section \<open>An engine for the examples\<close>

definition demo_engine :: "(nat, string) query_engine" where
  "demo_engine = \<lparr>qe_log_batches = (\<lambda>d cs. Inr [demo_batch [''x'', ''y'']]), qe_log_count = (\<lambda>d cs. Inr 2),
     qe_range_batches = (\<lambda>d cs. Inr [demo_matrix]), qe_span_metrics_batches = (\<lambda>d cs. Inr []),
     qe_points_batches = (\<lambda>d cs. Inr []), qe_trace_batches = (\<lambda>d i. Inr []),
     qe_instant = (\<lambda>d cs. Inl ''no such metric''), qe_attr_names = (\<lambda>d. Inr [''host'', ''pod'']),
     qe_attr_values = (\<lambda>d k. Inr [k]), qe_catalog = (\<lambda>d. Inr [(''http.requests'', [], None, ''sum'')]),
     qe_series = (\<lambda>d m. Inr [[(''k'', m)]]), qe_exemplars = (\<lambda>d m. Inr [(7, 0, None, Some ''s'', [])]),
     qe_volume_by = (\<lambda>d cs n ks. Inr [(0, map (\<lambda>k. (k, ''v'')) ks, n)]),
     qe_search = (\<lambda>d cs. Inr [(''t'', None, Some ''GET'', 5, 1, 2, True)]), qe_str = id,
     qe_canonical = (\<lambda>ls. concat (map (\<lambda>(k, v). k @ ''='' @ v) ls)),
     qe_trace_hex = (\<lambda>t. ''0'' @ t), qe_span_hex = (\<lambda>t. ''1'' @ t)\<rparr>"

definition demo_lgtm :: "(nat, string) lgtm" where
  "demo_lgtm = \<lparr>lg_promql = (\<lambda>q ms. if map mr_query_name ms = [q] then Inr (Prom q) else Inl ''unknown metric''),
     lg_logql = (\<lambda>q ms. Inr (LogSelector q)), lg_traceql = (\<lambda>q ms. Inr (Prom q)), lg_bounds = (\<lambda>a b. Inr []),
     lg_log_query = (\<lambda>r. Inr [(''limit'', [QN (uint (lf_max_entries r))])]),
     lg_run_promql = (\<lambda>d x r. Inr (demo_labeled ''ts'')), lg_run_logql = (\<lambda>d x r. Inl ''unused''),
     lg_run_traceql = (\<lambda>d x y. Inl ''unused'')\<rparr>"

definition demo_api' :: imbh_api where
  "demo_api' = \<lparr>ia_trace_id = (\<lambda>t. if t = ''00'' then Some t else None), ia_span_id = (\<lambda>_. None), ia_debug = id\<rparr>"

lemma demo_serving: "serving demo_env (Some 0) [[Produce 0], []] demo_db_world \<lparr>db_id = 1\<rparr> 0 demo_serde demo_engine demo_lgtm"
proof -
  have "ready demo_env (Some 0) [[Produce 0], []] demo_db_world"
    by (simp add: ready_def demo_db_winv demo_db_fields qid_fresh_def ctx_err_def not_cancelled_def) (simp add: demo_env_def)
  moreover have "wf_batch demo_matrix" "wf_batch (demo_labeled ''ts'')" "wf_batch (demo_batch [''x'', ''y''])"
    by (simp_all add: wf_batch_def demo_matrix_def demo_labeled_def demo_batch_def alen_def)
  moreover have "engine_ok demo_engine" "lgtm_ok demo_lgtm"
    using calculation(2-4) by (simp_all add: engine_ok_def lgtm_ok_def demo_engine_def demo_lgtm_def)
  ultimately show ?thesis
    by (simp add: serving_def demo_db_fields demo_serde_def serde_reads_demo)
qed

lemma demo_requests:
  "struct_ok demo_gojson (sd_read demo_serde) (TraceQuery_fields demo_traces)"
  "struct_ok demo_gojson (sd_read demo_serde)
     (logVolumeRequest_fields \<lparr>lv_LogQuery = demo_logs, lv_StepNs = -5, lv_GroupBy = [''k'']\<rparr>)"
  "struct_ok demo_gojson (sd_read demo_serde) (MetricQuery_fields demo_metric)"
  "struct_ok demo_gojson (sd_read demo_serde) (LogQuery_fields (demo_logs\<lparr>lq_OrderBy := ''arrival''\<rparr>))"
  by (simp_all add: struct_ok_def TraceQuery_fields_def logVolumeRequest_fields_def LogQuery_fields_def
      MetricQuery_fields_def demo_traces_def demo_logs_def demo_metric_def map_ok_def set_ok_def demo_serde_def
      demo_float_ok utf8_valid_ascii)

section \<open>Listings\<close>

lemma built_results [simp]:
  "rows_result (string_row c) (map_sum id (\<lambda>vs. [utf8_batch c vs]) x) = listed (\<lambda>v. v) x"
  "rows_result (string_row c) (map_sum id (\<lambda>vs. [utf8_batch c (map f vs)]) x') = listed f x'"
  "rows_result instant_row (map_sum id (\<lambda>v. [series_batch (map h1 v)]) x1) = listed (instant_of \<circ> h1) x1"
  "rows_result metric_info_row (map_sum id (\<lambda>ms. [metric_catalog_batch ms]) x2) = listed info_of x2"
  "rows_result exemplar_row (map_sum id (\<lambda>xs. [exemplars_batch (map h3 xs)]) x3) = listed (exemplar_of \<circ> h3) x3"
  "rows_result volume_row (map_sum id (\<lambda>bs. [log_volume_batch (map h4 bs)]) x4) = listed (bucket_of \<circ> h4) x4"
  "rows_result trace_summary_row (map_sum id (\<lambda>ts. [trace_search_batch (map h5 ts)]) x5) = listed (summary_of \<circ> h5) x5"
  by (intro rows_result_built rows_result_built(2) [where f = "\<lambda>v. v"] rows_result_built(1) [where f = "\<lambda>v. v", unfolded comp_def];
      simp add: comp_def rust_batches_decode instant_of_def info_of_def exemplar_of_def bucket_of_def summary_of_def)+

lemma listing_handlers:
  "map_of (stream_handlers s api qe lg) opAttrNames = Some (\<lambda>_. Inr (attr_names_run qe))"
  "map_of (stream_handlers s api qe lg) opMetricCatalog = Some (\<lambda>_. Inr (metric_catalog_run qe))"
  by (simp_all add: stream_handlers_def op_defs)

text \<open>
  C5. The listings return the engine's own result for exactly the request the caller passed, or its error:
  trace searches, volumes (whose buckets are at least a nanosecond wide, and whose filter may be refused),
  instant samples, attribute names and values, the metric catalog, series and exemplars, for any schedule
  of the handlers.
\<close>
theorem listings_end_to_end:
  assumes "serving ev ctx sched w db d s qe lg"
    and "struct_ok g (sd_read s) (TraceQuery_fields q)" "struct_ok g (sd_read s) (logVolumeRequest_fields v)"
    and "struct_ok g (sd_read s) (MetricQuery_fields m)" "utf8_valid key" "utf8_valid metric"
  shows "fst (SearchTraces (typed_handlers s api qe lg ev) g sched db ctx q w) =
      listed (summary_of \<circ> (\<lambda>(t, r). (qe_trace_hex qe t, r))) (qe_search qe d (build_trace_query q)) \<and>
    fst (LogVolumeBy (typed_handlers s api qe lg ev) g sched db ctx (lv_LogQuery v) (lv_StepNs v) (lv_GroupBy v) w) =
      (case build_log_query api (lv_LogQuery v) of
         Inl e \<Rightarrow> failed (''bad log-volume request: '' @ e)
       | Inr cs \<Rightarrow> listed (bucket_of \<circ> (\<lambda>(t, ls, c). (t, string_labels qe ls, c)))
           (qe_volume_by qe d cs (at_least_1 (lv_StepNs v)) (lv_GroupBy v))) \<and>
    fst (QueryMetricInstant (typed_handlers s api qe lg ev) g sched db ctx m w) =
      listed (instant_of \<circ> (\<lambda>(ls, t, x). (string_labels qe ls, t, x))) (qe_instant qe d (build_metric_query m)) \<and>
    fst (AttrNames (typed_handlers s api qe lg ev) sched db ctx w) = listed (\<lambda>n. n) (qe_attr_names qe d) \<and>
    fst (AttrValues (typed_handlers s api qe lg ev) g sched db ctx key w) = listed (\<lambda>x. x) (qe_attr_values qe d key) \<and>
    fst (MetricCatalog (typed_handlers s api qe lg ev) sched db ctx w) = listed info_of (qe_catalog qe d) \<and>
    fst (MetricSeries (typed_handlers s api qe lg ev) g sched db ctx metric w) =
      listed (qe_canonical qe) (qe_series qe d metric) \<and>
    fst (MetricExemplars (typed_handlers s api qe lg ev) g sched db ctx metric w) =
      listed (exemplar_of \<circ> (\<lambda>(t, x, tr, sp, a). (t, x, map_option (qe_trace_hex qe) tr, map_option (qe_span_hex qe) sp, a)))
        (qe_exemplars qe d metric)"
proof -
  have ok: "struct_ok g (sd_read s) (attrValuesReq_fields \<lparr>ar_Key = key\<rparr>)"
    "struct_ok g (sd_read s) (metricSeriesReq_fields \<lparr>mr_Metric = metric\<rparr>)"
    using assms(5,6) by (simp_all add: struct_ok_def attrValuesReq_fields_def metricSeriesReq_fields_def utf8_valid_ascii)
  have e: "engine_ok qe" using assms(1) by (simp add: serving_def)
  have names: "fst (AttrNames (typed_handlers s api qe lg ev) sched db ctx w) = listed (\<lambda>n. n) (qe_attr_names qe d)"
    unfolding query_defs
    by (subst no_request_delivered [OF assms(1) _ _ listing_handlers(1) runs_ok(7) [OF e]])
      (simp_all add: row_decoders op_defs attr_names_run_def)
  have infos: "fst (MetricCatalog (typed_handlers s api qe lg ev) sched db ctx w) = listed info_of (qe_catalog qe d)"
    unfolding query_defs
    by (subst no_request_delivered [OF assms(1) _ _ listing_handlers(2) runs_ok(9) [OF e]])
      (simp_all add: row_decoders op_defs metric_catalog_run_def)
  note r = search_stream.rows_delivered [OF assms(1,2)] volume_stream.rows_delivered [OF assms(1,3)]
    instant_stream.rows_delivered [OF assms(1,4)] values_stream.rows_delivered [OF assms(1) ok(1)]
    series_stream.rows_delivered [OF assms(1) ok(2)] exemplars_stream.rows_delivered [OF assms(1) ok(2)]
  have v: "\<lparr>lv_LogQuery = lv_LogQuery v, lv_StepNs = lv_StepNs v, lv_GroupBy = lv_GroupBy v\<rparr> = v" by simp
  show ?thesis
    using names infos
    by (simp add: query_defs v r row_decoders trace_search_run_def log_volume_run_def metric_instant_run_def
        attr_values_run_def metric_series_run_def metric_exemplars_run_def split: sum.splits)
qed

theorem listings_end_to_end_witness:
  "fst (SearchTraces (typed_handlers demo_serde demo_api' demo_engine demo_lgtm demo_env) demo_gojson [[Produce 0], []]
      \<lparr>db_id = 1\<rparr> (Some 0) demo_traces demo_db_world) =
    Some (Inr [\<lparr>ts_TraceID = ''0t'', ts_RootService = [], ts_RootName = ''GET'', ts_StartTime = 5,
      ts_DurationNs = 1, ts_SpanCount = 2, ts_Error = True\<rparr>]) \<and>
   fst (LogVolumeBy (typed_handlers demo_serde demo_api' demo_engine demo_lgtm demo_env) demo_gojson [[Produce 0], []]
      \<lparr>db_id = 1\<rparr> (Some 0) demo_logs (-5) [''k''] demo_db_world) =
    Some (Inr [\<lparr>vb_Time = 0, vb_Labels = ''k=v'', vb_Count = 1\<rparr>]) \<and>
   fst (QueryMetricInstant (typed_handlers demo_serde demo_api' demo_engine demo_lgtm demo_env) demo_gojson [[Produce 0], []]
      \<lparr>db_id = 1\<rparr> (Some 0) demo_metric demo_db_world) =
    Some (Inl (ErrorString ''imbhgo: query failed: no such metric''))"
proof -
  obtain cs where cs: "build_log_query demo_api' demo_logs = Inr cs"
    by (auto simp: build_log_query_def demo_logs_def LogOrderTime_def Let_def)
  have v: "utf8_valid ''k''" "utf8_valid ''up''" by (simp_all add: utf8_valid_ascii)
  note e = listings_end_to_end [OF demo_serving demo_requests(1-3) v, where api = demo_api']
  have "at_least_1 (-5) = 1" by (simp add: at_least_1_def)
  then show ?thesis
    using e by (simp add: cs demo_engine_def listed_def failed_def summary_of_def bucket_of_def or_empty_def string_labels_def)
qed

section \<open>Rows of the engine\<close>

lemma counted:
  assumes "w_dbs w (db_id db) = Some d" "serde_reads (sd_read s)" "struct_ok g (sd_read s) (LogQuery_fields q)"
    and "w_ctx w c = None" "\<And>p. ev_call_err ev opLogCount p = None"
  shows "fst (CountLogs (typed_handlers s api qe lg ev) g db c q w) =
    (case build_log_query api q of
       Inl e \<Rightarrow> Inl (ErrorString (''imbhgo: bad log count query: '' @ e))
     | Inr cs \<Rightarrow> map_sum ErrorString id (qe_log_count qe d cs))"
proof -
  obtain t where t: "marshal g (LogQuery_fields q) = Inr t"
    "Option.bind (serde_object (sd_read s) t) (LogQuery_wire (sd_read s)) = Some q"
    using log_query.round_trip [OF assms(2,3)] by (auto simp: log_query.reads_def)
  let ?ev = "typed_handlers s api qe lg ev"
  have "log_count_handler ?ev (call_frame (db_id db) t) w =
      (map_sum id put64 (case build_log_query api q of
         Inl e \<Rightarrow> Inl (''imbhgo: bad log count query: '' @ e) | Inr cs \<Rightarrow> qe_log_count qe d cs), w)"
    using assms(1) t(2) by (simp add: log_count_handler_def with_db_def typed_handlers_def count_logs_def fun_upd_idem split: sum.splits)
  then have "sable_call_ctx ?ev c opLogCount (call_frame (db_id db) t) w =
      (map_sum ErrorString id (map_sum id put64 (case build_log_query api q of
         Inl e \<Rightarrow> Inl (''imbhgo: bad log count query: '' @ e) | Inr cs \<Rightarrow> qe_log_count qe d cs)), w)"
    using assms(4,5) by (simp add: sable_call_ctx_def sable_call_def byte_handler_def op_defs typed_handlers_def)
  with t(1) decodeCount_put64 [where rest = "[]"] show ?thesis
    by (cases "case build_log_query api q of
        Inl e \<Rightarrow> Inl (''imbhgo: bad log count query: '' @ e) | Inr cs \<Rightarrow> qe_log_count qe d cs")
      (auto simp: CountLogs_def split: sum.splits)
qed

text \<open>
  C28. The queries over the engine's own batches return the decoded rows of what the engine answers to the
  builder calls of exactly the request passed: log rows and their count, metric series, raw points, span
  metrics and spans. An order axis or a trace id that the Rust side cannot use is refused with its reason.
\<close>
theorem rows_end_to_end:
  assumes "serving ev ctx sched w db d s qe lg"
    and "struct_ok g (sd_read s) (LogQuery_fields q)" "struct_ok g (sd_read s) (MetricQuery_fields m)"
    and "struct_ok g (sd_read s) (MetricPointsQuery_fields pt)" "struct_ok g (sd_read s) (SpanMetricsQuery_fields sm)"
    and "utf8_valid tid" "w_ctx w c = None" "\<And>p. ev_call_err ev opLogCount p = None"
  shows "fst (QueryLogsTyped (typed_handlers s api qe lg ev) g sched db ctx q w) =
      (case build_log_query api q of
         Inl e \<Rightarrow> failed (''bad log query: '' @ e)
       | Inr cs \<Rightarrow> rows_result log_entry_row (qe_log_batches qe d cs)) \<and>
    fst (CountLogs (typed_handlers s api qe lg ev) g db c q w) =
      (case build_log_query api q of
         Inl e \<Rightarrow> Inl (ErrorString (''imbhgo: bad log count query: '' @ e))
       | Inr cs \<Rightarrow> map_sum ErrorString id (qe_log_count qe d cs)) \<and>
    fst (QueryMetricsTyped (typed_handlers s api qe lg ev) g sched db ctx m w) =
      series_result (metric_row (mq_GroupBy m)) (qe_range_batches qe d (build_metric_query m)) \<and>
    fst (QueryMetricPointsTyped (typed_handlers s api qe lg ev) g sched db ctx pt w) =
      rows_result metric_point_row (qe_points_batches qe d (build_points_query pt)) \<and>
    fst (QuerySpanMetricsTyped (typed_handlers s api qe lg ev) g sched db ctx sm w) =
      rows_result (span_metric_row (sq_GroupBy sm)) (qe_span_metrics_batches qe d (build_span_metrics_query sm)) \<and>
    fst (GetTraceSpans (typed_handlers s api qe lg ev) g sched db ctx tid w) =
      (case ia_trace_id api tid of
         None \<Rightarrow> failed (''invalid trace id '' @ ia_debug api tid @ '' (want 32 hex chars)'')
       | Some i \<Rightarrow> rows_result span_row (qe_trace_batches qe d i))"
proof -
  have tr: "struct_ok g (sd_read s) (getTraceReq_fields \<lparr>gt_TraceID = tid\<rparr>)"
    using assms(6) by (simp add: struct_ok_def getTraceReq_fields_def utf8_valid_ascii)
  note r = logs_stream.rows_delivered [OF assms(1,2)] metrics_stream.series_delivered [OF assms(1,3)]
    points_stream.rows_delivered [OF assms(1,4)] span_metrics_stream.rows_delivered [OF assms(1,5)]
    trace_stream.rows_delivered [OF assms(1) tr]
  have db: "w_dbs w (db_id db) = Some d" "serde_reads (sd_read s)" using assms(1) by (simp_all add: serving_def)
  have count: "fst (CountLogs (typed_handlers s api qe lg ev) g db c q w) =
      (case build_log_query api q of
         Inl e \<Rightarrow> Inl (ErrorString (''imbhgo: bad log count query: '' @ e))
       | Inr cs \<Rightarrow> map_sum ErrorString id (qe_log_count qe d cs))"
    by (rule counted [OF db assms(2,7,8)])
  have logs: "decodeLogEntries ev' sched = drain_rows ev' log_entry_row sched" for ev' :: "'a env"
    by (simp add: fun_eq_iff decodeLogEntries_def drain_rows_def)
  show ?thesis
    by (simp add: count QueryLogsTyped_def QueryLogs_def QueryMetricsTyped_def QueryMetrics_def decode_matrix_def
        QueryMetricPointsTyped_def QueryMetricPoints_def QuerySpanMetricsTyped_def QuerySpanMetrics_def
        GetTraceSpans_def GetTrace_def logs r row_decoders series_decoders query_logs_run_def query_metrics_run_def
        metric_points_run_def query_span_metrics_run_def get_trace_run_def split: sum.split option.split)
qed

definition demo_points :: MetricPointsQuery where
  "demo_points = \<lparr>pq_Metric = ''up'', pq_Kind = ''sum'', pq_Filters = [(''host'', ''a'')], pq_Start = 0, pq_End = 9, pq_Limit = 5\<rparr>"

definition demo_spans :: SpanMetricsQuery where
  "demo_spans = \<lparr>sq_Service = ''api'', sq_Name = [], sq_Kind = [], sq_Status = [], sq_GroupBy = [''k''], sq_Step = 60,
     sq_Start = 0, sq_End = 0\<rparr>"

theorem rows_end_to_end_witness:
  "fst (QueryLogsTyped (typed_handlers demo_serde demo_api' demo_engine demo_lgtm demo_env) demo_gojson [[Produce 0], []]
      \<lparr>db_id = 1\<rparr> (Some 0) (demo_logs\<lparr>lq_OrderBy := ''arrival''\<rparr>) demo_db_world) =
    Some (Inl (ErrorString ''imbhgo: query failed: bad log query: unknown log order axis arrival'')) \<and>
   fst (CountLogs (typed_handlers demo_serde demo_api' demo_engine demo_lgtm demo_env) demo_gojson
      \<lparr>db_id = 1\<rparr> 0 (demo_logs\<lparr>lq_OrderBy := ''arrival''\<rparr>) demo_db_world) =
    Inl (ErrorString ''imbhgo: bad log count query: unknown log order axis arrival'') \<and>
   fst (GetTraceSpans (typed_handlers demo_serde demo_api' demo_engine demo_lgtm demo_env) demo_gojson [[Produce 0], []]
      \<lparr>db_id = 1\<rparr> (Some 0) ''zz'' demo_db_world) =
    Some (Inl (ErrorString ''imbhgo: query failed: invalid trace id zz (want 32 hex chars)''))"
proof -
  have ok: "struct_ok demo_gojson (sd_read demo_serde) (MetricPointsQuery_fields demo_points)"
    "struct_ok demo_gojson (sd_read demo_serde) (SpanMetricsQuery_fields demo_spans)"
    by (simp_all add: struct_ok_def MetricPointsQuery_fields_def SpanMetricsQuery_fields_def demo_points_def demo_spans_def
        map_ok_def set_ok_def demo_serde_def utf8_valid_ascii)
  have z: "utf8_valid ''zz''" "w_ctx demo_db_world 0 = None" "\<And>p. ev_call_err demo_env opLogCount p = None"
    by (simp_all add: utf8_valid_ascii demo_db_fields) (simp add: demo_env_def)
  have bad: "build_log_query demo_api' (demo_logs\<lparr>lq_OrderBy := ''arrival''\<rparr>) = Inl ''unknown log order axis arrival''"
    by (simp add: build_log_query_def demo_api'_def demo_logs_def LogOrderTime_def LogOrderObservedTime_def)
  note e = rows_end_to_end [OF demo_serving demo_requests(4,3) ok z, where api = demo_api']
  have "ia_trace_id demo_api' ''zz'' = None" "ia_debug demo_api' ''zz'' = ''zz''"
    by (simp_all add: demo_api'_def)
  with e bad show ?thesis by (simp add: failed_def)
qed

section \<open>PromQL, LogQL and TraceQL\<close>



text \<open>
  A LogQL selector passed to \<open>QueryLogQLSeries\<close> is not refused: its log lines, which have no label, time or value
  column of a series, come back as one series without labels, with a zero point for each line.
\<close>
theorem selector_as_series:
  assumes "serving ev ctx sched w db d s qe lg" "utf8_valid txt"
    and "lg_logql lg txt [] = Inr (LogSelector f)" "lg_bounds lg a b = Inr bd"
    and "lg_log_query lg \<lparr>lf_bounds = bd, lf_filter = f, lf_max_entries = 1000\<rparr> = Inr cs" "qe_log_batches qe d cs = Inr bs"
    and "\<And>x n. x \<in> set bs \<Longrightarrow> n \<in> {''labels'', ''ts'', ''value''} \<Longrightarrow> columnsByName x n = None"
    and "0 < sum_list (map b_rows bs)"
  shows "fst (QueryLogQLSeries (typed_handlers s api qe lg ev) g sched db ctx txt a b c w) =
    Some (Inr [\<lparr>se_Labels = Map.empty, se_Points = replicate (sum_list (map b_rows bs)) \<lparr>pt_T = 0, pt_V = 0\<rparr>\<rparr>])"
proof -
  let ?n = "sum_list (map b_rows bs)" and ?p = "\<lparr>pt_T = 0, pt_V = 0\<rparr>"
  have wf: "list_all wf_batch bs"
    using engine_okD(1) [of qe d cs] assms(1,6) by (simp add: serving_def)
  have rows: "labeled_samples.rows_of x = replicate (b_rows x) (seriesKey Map.empty, Map.empty, ?p)" if "x \<in> set bs" for x
    using assms(7) [OF that]
    by (simp add: labeled_samples.rows_of_def labeled_row_def mapStringAt_def int64At_def float64At_def map_replicate_const)
  then have "concat (map labeled_samples.rows_of bs) = replicate ?n (seriesKey Map.empty, Map.empty, ?p)"
    by (induction bs) (simp_all add: replicate_add)
  also have "\<dots> = map (\<lambda>(m, p). (seriesKey m, id m, p)) (replicate ?n (Map.empty, ?p))" by (simp add: map_replicate)
  finally have st: "snd (group_state (concat (map labeled_samples.rows_of bs))) = series_by id (replicate ?n (Map.empty, ?p))"
    using label_key.group_by_label [of "replicate ?n (Map.empty, ?p)" id] by (simp add: labels_ok_def)
  have one: "series_by id (replicate n (Map.empty, ?p)) = [\<lparr>se_Labels = Map.empty, se_Points = replicate n ?p\<rparr>]"
    if "0 < n" for n
  proof -
    have "firsts (replicate n x) = [x]" for x :: labels using that by (induction n) (auto simp: gr0_conv_Suc)
    then show ?thesis by (simp add: series_by_def map_replicate)
  qed
  have "series_result labeled_row (Inr bs) = Some (Inr (series_by id (replicate ?n (Map.empty, ?p))))"
    using labeled_samples.dec_all_groups [of bs "[]"] wf st
    by (simp add: series_result_def decoded_def group_state_Nil list_all_iff)
  moreover have ok: "struct_ok g (sd_read s) (lgtmReq_fields \<lparr>lr_Query = txt, lr_Start = a, lr_End = b, lr_Step = c, lr_Limit = 0\<rparr>)"
    using assms(2) by (simp add: struct_ok_def lgtmReq_fields_def utf8_valid_ascii)
  ultimately show ?thesis
    using one [OF assms(8)] assms(3-6)
    by (simp add: QueryLogQLSeries_def QueryLogQL_def lgtmStream_def lgtmStreamLimit_def decodeLabeledSeries_def
        logql_stream.series_delivered [OF assms(1)] series_decoders logql_run_def logql_lines_def max_entries_def)
qed

end
