(* ===== verification/Quickstart.thy ===== *)
theory Quickstart
  imports Answers Paging
begin

text \<open>
  The tour \<open>examples/quickstart/main.go\<close>: open a database in memory, ingest some telemetry, query it three
  ways, print. A run is the lines on standard output and how it ends: a part that fails calls \<open>log.Fatal\<close>, which
  exits at once, without the deferred \<open>Close\<close>. The OTLP messages are the generated structs of the protobuf
  package, by the fields the program sets; their serialization and the formatting of floats are parameters.
\<close>

section \<open>OTLP messages\<close>

datatype AnyValue = StringValue string

record OtlpLogRecord =
  ol_TimeUnixNano :: u64
  ol_SeverityNumber :: int
  ol_SeverityText :: string
  ol_Body :: AnyValue

type_synonym Resource = "(string \<times> AnyValue) list"

record ResourceLogs =
  rl_Resource :: Resource
  rl_ScopeLogs :: "OtlpLogRecord list list"

record NumberDataPoint =
  nd_TimeUnixNano :: u64
  nd_AsDouble :: f64

record OtlpGauge =
  og_Name :: string
  og_DataPoints :: "NumberDataPoint list"

record ResourceMetrics =
  rm_Resource :: Resource
  rm_ScopeMetrics :: "OtlpGauge list list"

record tour_lib =
  tl_now :: i64
  tl_marshal_logs :: "ResourceLogs list \<Rightarrow> bytes result"
  tl_marshal_metrics :: "ResourceMetrics list \<Rightarrow> bytes result"
  tl_fixed3 :: "f64 \<Rightarrow> string"

definition serviceResource :: "string \<Rightarrow> Resource" where
  "serviceResource service = [(''service.name'', StringValue service)]"

definition log_records :: "string list \<Rightarrow> i64 \<Rightarrow> OtlpLogRecord list" where
  "log_records bodies base = map (\<lambda>(i, body).
     \<lparr>ol_TimeUnixNano = base + of_nat i, ol_SeverityNumber = 9, ol_SeverityText = ''INFO'',
       ol_Body = StringValue body\<rparr>) (enumerate 0 bodies)"

definition gauge_points :: "f64 list \<Rightarrow> i64 \<Rightarrow> NumberDataPoint list" where
  "gauge_points vs base = map (\<lambda>(i, v).
     \<lparr>nd_TimeUnixNano = base + of_nat i * 1000000000, nd_AsDouble = v\<rparr>) (enumerate 0 vs)"

section \<open>The parts of the program\<close>

datatype stop = Fatal goerr | Panicked

type_synonym 'db part = "'db world \<Rightarrow> string list \<times> (stop + 'db world)"

fun in_order :: "'db part list \<Rightarrow> 'db part" where
  "in_order [] w = ([], Inr w)"
| "in_order (p # ps) w =
     (case p w of
        (out, Inl x) \<Rightarrow> (out, Inl x)
      | (out, Inr w') \<Rightarrow> (case in_order ps w' of (out', r) \<Rightarrow> (out @ out', r)))"

definition say :: "string \<Rightarrow> 'db part" where
  "say line w = ([line], Inr w)"

definition must :: "'a result \<times> 'db world \<Rightarrow> string list \<times> (stop + 'db world)" where
  "must x = (case x of (Inl e, _) \<Rightarrow> ([], Inl (Fatal e)) | (Inr _, w) \<Rightarrow> ([], Inr w))"

definition mustIngestLogs ::
  "tour_lib \<Rightarrow> 'db env \<Rightarrow> DB \<Rightarrow> string \<Rightarrow> string list \<Rightarrow> i64 \<Rightarrow> 'db part" where
  "mustIngestLogs lib ev db service bodies base w =
     (case tl_marshal_logs lib [\<lparr>rl_Resource = serviceResource service, rl_ScopeLogs = [log_records bodies base]\<rparr>] of
        Inl e \<Rightarrow> ([], Inl (Fatal e))
      | Inr b \<Rightarrow> must (IngestOTLPLogs ev db b w))"

definition mustIngestGauge ::
  "tour_lib \<Rightarrow> 'db env \<Rightarrow> DB \<Rightarrow> string \<Rightarrow> string \<Rightarrow> f64 list \<Rightarrow> i64 \<Rightarrow> 'db part" where
  "mustIngestGauge lib ev db service metric vs base w =
     (case tl_marshal_metrics lib [\<lparr>rm_Resource = serviceResource service,
          rm_ScopeMetrics = [[\<lparr>og_Name = metric, og_DataPoints = gauge_points vs base\<rparr>]]\<rparr>] of
        Inl e \<Rightarrow> ([], Inl (Fatal e))
      | Inr b \<Rightarrow> must (IngestOTLPMetrics ev db b w))"

text \<open>
  \<open>rec.Column(0).(*array.Int64).Value(0)\<close>: a missing column, another type or no row is a panic; validity is not
  looked at.
\<close>

definition first_int64 :: "batch \<Rightarrow> i64 option" where
  "first_int64 b =
     (case b_fields b of
        (_, AInt64 ((_, n) # _)) # _ \<Rightarrow> Some n
      | _ \<Rightarrow> None)"

definition count_line :: "i64 \<Rightarrow> string" where
  "count_line n = ''  '' @ int_text (sint n) @ '' logs''"

text \<open>The loop over the rows of the SQL query; \<open>rows.Close\<close> after it is not deferred.\<close>

function sql_loop ::
  "'db env \<Rightarrow> event list list \<Rightarrow> rows \<Rightarrow> 'db world \<Rightarrow> string list \<Rightarrow> string list \<times> (stop + 'db world)" where
  "sql_loop ev sched r w out =
     (case Rows_Next ev r (env_run ev (events sched) w) of
        ((rec, Some e), r', w') \<Rightarrow> (out, Inl (Fatal e))
      | ((None, None), r', w') \<Rightarrow> (out, Inr (snd (Rows_Close ev r' w')))
      | ((Some (p, b), None), r', w') \<Rightarrow>
          (case first_int64 b of
             None \<Rightarrow> (out, Inl Panicked)
           | Some n \<Rightarrow> sql_loop ev (tl sched) r' (rec_release p w') (out @ [count_line n])))"
  by pat_completeness auto
termination
  by (relation "measure (\<lambda>(ev, sched, r, w, out). pending ev (r_s r) w)")
    (auto dest: pending_pull)

declare sql_loop.simps [simp del]

definition show_sql :: "'db env \<Rightarrow> event list list \<Rightarrow> DB \<Rightarrow> string \<Rightarrow> 'db part" where
  "show_sql ev sched db sql w =
     (case Query db None sql w of
        (Inl e, _) \<Rightarrow> ([], Inl (Fatal e))
      | (Inr r, w') \<Rightarrow> sql_loop ev sched r w' [])"

text \<open>Printing the result of a typed query.\<close>

definition print_all :: "('a \<Rightarrow> string list) \<Rightarrow> 'a list result option \<times> 'db world \<Rightarrow> string list \<times> (stop + 'db world)" where
  "print_all lines x =
     (case x of
        (None, _) \<Rightarrow> ([], Inl Panicked)
      | (Some (Inl e), _) \<Rightarrow> ([], Inl (Fatal e))
      | (Some (Inr xs), w) \<Rightarrow> (concat (map lines xs), Inr w))"

definition entry_line :: "LogEntry \<Rightarrow> string" where
  "entry_line e = ''  ['' @ le_Service e @ ''] '' @ le_Body e"

fun spaced :: "string list \<Rightarrow> string" where
  "spaced [] = []"
| "spaced [s] = s"
| "spaced (s # ss) = s @ '' '' @ spaced ss"

definition labels_text :: "labels \<Rightarrow> string" where
  "labels_text m = ''map['' @ spaced (map (\<lambda>k. k @ '':'' @ the (m k)) (sorted_list_of_set (dom m))) @ '']''"

definition point_lines :: "tour_lib \<Rightarrow> Series \<Rightarrow> string list" where
  "point_lines lib s = map (\<lambda>p. ''  labels='' @ labels_text (se_Labels s) @ '' value='' @ tl_fixed3 lib (pt_V p)) (se_Points s)"

section \<open>The program\<close>

definition error_logs :: LogQuery where
  "error_logs = \<lparr>lq_Service = [], lq_Match = ''error'', lq_AttrEq = [], lq_Start = 0, lq_End = 0, lq_Limit = 0,
     lq_Backward = False, lq_TraceID = [], lq_SpanID = [], lq_SeverityAtLeast = 0, lq_AttrExists = [],
     lq_AttrMatches = [], lq_AttrIn = [], lq_AttrNotIn = [], lq_AttrGt = [], lq_AttrGe = [], lq_AttrLt = [],
     lq_AttrLe = [], lq_AttrRegex = [], lq_ObservedAfter = 0, lq_OrderBy = []\<rparr>"

definition hour :: i64 where "hour = 3600000000000"

definition cpu_range :: "i64 \<Rightarrow> MetricQuery" where
  "cpu_range base = \<lparr>mq_Metric = ''cpu.utilization'', mq_Sum = False, mq_Step = hour, mq_Start = base - hour,
     mq_End = base + hour, mq_GroupBy = []\<rparr>"

definition tour :: "tour_lib \<Rightarrow> 'db env \<Rightarrow> gojson \<Rightarrow> event list list \<Rightarrow> event list list \<Rightarrow> event list list \<Rightarrow> DB \<Rightarrow> 'db part list" where
  "tour lib ev g s1 s2 s3 db = [
     mustIngestLogs lib ev db ''checkout'' [''request ok'', ''payment error: timeout''] (tl_now lib),
     mustIngestLogs lib ev db ''api'' [''served /health''] (tl_now lib),
     mustIngestGauge lib ev db ''web'' ''cpu.utilization'' [0x3FCAE147AE147AE1, 0x3FD5C28F5C28F5C3, 0x3FE199999999999A] (tl_now lib),
     say ''== SQL: total log count =='',
     show_sql ev s1 db ''SELECT count(*) AS n FROM logs'',
     say ''== Logs matching \"error\" =='',
     \<lambda>w. print_all (\<lambda>e. [entry_line e]) (QueryLogsTyped ev g s2 db None error_logs w),
     say ''== Metric range: cpu.utilization =='',
     \<lambda>w. print_all (point_lines lib) (QueryMetricsTyped ev g s3 db None (cpu_range (tl_now lib)) w)]"

definition quickstart_main ::
  "tour_lib \<Rightarrow> 'db env \<Rightarrow> gojson \<Rightarrow> event list list \<Rightarrow> event list list \<Rightarrow> event list list \<Rightarrow> 'db part" where
  "quickstart_main lib ev g s1 s2 s3 w =
     (case OpenInMemory ev w of
        (Inl e, _) \<Rightarrow> ([], Inl (Fatal e))
      | (Inr db, w1) \<Rightarrow>
          (case in_order (tour lib ev g s1 s2 s3 db) w1 of
             (out, Inl x) \<Rightarrow> (out, Inl x)
           | (out, Inr w2) \<Rightarrow> (out, Inr (DB_Close db w2))))"

section \<open>The loop is a drain\<close>

definition sql_dec :: "string list batch_decoder" where
  "sql_dec b out = map_option (\<lambda>n. out @ [count_line n]) (first_int64 b)"

lemma sql_loop_drain:
  "drain ev sql_dec sched r w out = (res, r', w') \<Longrightarrow>
     (case res of
        Some (Inr lines) \<Rightarrow> sql_loop ev sched r w out = (lines, Inr w')
      | Some (Inl e) \<Rightarrow> \<exists>printed. sql_loop ev sched r w out = (printed, Inl (Fatal e))
      | None \<Rightarrow> \<exists>printed. sql_loop ev sched r w out = (printed, Inl Panicked))"
proof (induction sched w out rule: drain_induct [of ev r sql_dec])
  case (pull sched w out)
  obtain rec e r1 w1 where n: "Rows_Next ev r (env_run ev (events sched) w) = ((rec, e), r1, w1)"
    by (metis prod_cases3 surj_pair)
  note loop = sql_loop.simps [of ev sched r w out]
  show ?case
  proof (cases rec)
    case None
    with drain_end [OF n [unfolded None], of sql_dec out] pull.prems n show ?thesis
      by (cases "Rows_Close ev r1 w1") (auto simp: loop split: option.splits)
  next
    case (Some pb)
    obtain p b where pb: "pb = (p, b)" by fastforce
    note d = drain_pull [OF n [unfolded Some pb], of sql_dec out]
    show ?thesis
    proof (cases "first_int64 b")
      case None
      with d pull.prems n Some pb show ?thesis by (simp add: loop sql_dec_def)
    next
      case (Some k)
      have n': "Rows_Next ev r (env_run ev (events sched) w) = ((Some (p, b), None), r, w1)"
        using n \<open>rec = Some pb\<close> pb d by simp
      have s: "sql_dec b out = Some (out @ [count_line k])" using Some by (simp add: sql_dec_def)
      with d pull.prems have "drain ev sql_dec (tl sched) r (rec_release p w1) (out @ [count_line k]) = (res, r', w')"
        by simp
      have "sql_loop ev sched r w out = sql_loop ev (tl sched) r (rec_release p w1) (out @ [count_line k])"
        by (subst loop) (simp add: n' Some)
      with pull.IH [OF n' s \<open>drain ev sql_dec (tl sched) r (rec_release p w1) (out @ [count_line k]) = (res, r', w')\<close>]
      show ?thesis by (simp only:)
    qed
  qed
qed

text \<open>On answers of one counted column, one line for each batch.\<close>

lemma sql_dec_all:
  "map first_int64 bs = map Some ns \<Longrightarrow> dec_all sql_dec bs out = Some (out @ map count_line ns)"
  by (induction bs arbitrary: ns out) (auto simp: sql_dec_def)

section \<open>A run leaves the process as it found it\<close>

definition tidy :: "'db part \<Rightarrow> bool" where
  "tidy p \<longleftrightarrow> (\<forall>w out w'. winv w \<longrightarrow> p w = (out, Inr w') \<longrightarrow> undisturbed w w')"

lemma undisturbed_refl: "winv w \<Longrightarrow> undisturbed w w"
  by (simp add: undisturbed_def)

lemma undisturbed_trans: "undisturbed w w1 \<Longrightarrow> undisturbed w1 w2 \<Longrightarrow> undisturbed w w2"
  by (simp add: undisturbed_def)

lemma undisturbed_core: "winv w \<Longrightarrow> same_core w w' \<Longrightarrow> undisturbed w w'"
  using same_core_winv [of w w'] by (auto simp: undisturbed_def same_core_def opened_def)

lemma tidy_in_order: "list_all tidy ps \<Longrightarrow> tidy (in_order ps)"
proof (induction ps)
  case (Cons p ps)
  show ?case unfolding tidy_def
  proof (intro allI impI)
    fix w out w'
    assume w: "winv w" "in_order (p # ps) w = (out, Inr w')"
    then obtain o1 w1 o2 where p: "p w = (o1, Inr w1)" "in_order ps w1 = (o2, Inr w')"
      by (auto split: prod.splits sum.splits)
    have t: "tidy p" "tidy (in_order ps)" using Cons by simp_all
    from t(1) [unfolded tidy_def, rule_format, OF w(1) p(1)] have u: "undisturbed w w1" .
    then have i: "winv w1" by (simp add: undisturbed_def)
    note u
    moreover from t(2) [unfolded tidy_def, rule_format, OF i p(2)] have "undisturbed w1 w'" .
    ultimately show "undisturbed w w'" by (rule undisturbed_trans)
  qed
qed (simp add: tidy_def undisturbed_refl)

lemma tidy_ingest: "tidy (\<lambda>w. must (ingest ev db op b w))"
  unfolding tidy_def
proof (intro allI impI)
  fix w out w'
  assume w: "winv w" "must (ingest ev db op b w) = (out, Inr w')"
  obtain x w1 where c: "sable_call ev op (call_frame (db_id db) b) w = (x, w1)" by fastforce
  with w(2) have "w1 = w'" by (cases x) (auto simp: must_def ingest_def split: sum.splits)
  with undisturbed_core [OF w(1) same_core_call [OF c]] show "undisturbed w w'" by simp
qed

lemma tidy_must:
  "tidy (mustIngestLogs lib ev db sv bodies base)" "tidy (mustIngestGauge lib ev db sv m vs base)"
  using tidy_ingest [of ev db opIngestLogs] tidy_ingest [of ev db opIngestMetrics]
  unfolding tidy_def mustIngestLogs_def mustIngestGauge_def IngestOTLPLogs_def IngestOTLPMetrics_def
  by (simp_all split: sum.split)

lemma tidy_sql: "tidy (show_sql ev sched db sql)"
  unfolding tidy_def
proof (intro allI impI)
  fix w out w'
  assume w: "winv w" "show_sql ev sched db sql w = (out, Inr w')"
  then obtain r w1 where q: "Query db None sql w = (Inr r, w1)" "sql_loop ev sched r w1 [] = (out, Inr w')"
    by (auto simp: show_sql_def split: prod.splits sum.splits)
  obtain res r2 w2 where d: "drain ev sql_dec sched r w1 [] = (res, r2, w2)" by (metis prod_cases3)
  from sql_loop_drain [OF this] q(2) have "w2 = w'" by (auto split: option.splits sum.splits)
  with collect_open [OF closing_drain w(1), of ev sql_dec sched "[]" db None opSQL sql] d q(1)
  show "undisturbed w w'" by (simp add: Query_def collect_def)
qed

lemma tidy_say: "tidy (say line)"
  by (simp add: tidy_def say_def undisturbed_refl)

lemma tidy_queries:
  "tidy (\<lambda>w. print_all f (QueryLogsTyped ev g sched db ctx q w))"
  "tidy (\<lambda>w. print_all f' (QueryMetricsTyped ev g sched db ctx m w))"
proof -
  have logs: "undisturbed w w'" if "winv w" "QueryLogsTyped ev g sched db ctx q w = (x, w')" for w x w'
    using collect_query [OF closing_logs(1) that(1), of ev sched g db ctx opQueryLogs "LogQuery_fields q"] that(2)
    by (simp add: QueryLogsTyped_def QueryLogs_def)
  have metrics: "undisturbed w w'" if "winv w" "QueryMetricsTyped ev g sched db ctx m w = (x, w')" for w x w'
    using collect_query [OF closing_series that(1), of ev "metric_row (mq_GroupBy m)" sched g db ctx
        opQueryMetrics "MetricQuery_fields m"] that(2)
    by (simp add: QueryMetricsTyped_def QueryMetrics_def decode_matrix_def)
  show "tidy (\<lambda>w. print_all f (QueryLogsTyped ev g sched db ctx q w))"
    "tidy (\<lambda>w. print_all f' (QueryMetricsTyped ev g sched db ctx m w))"
    by (auto simp: tidy_def print_all_def split: prod.splits option.splits sum.splits dest: logs metrics)
qed

lemma main_tidy:
  assumes "winv w" "quickstart_main lib ev g s1 s2 s3 w = (out, Inr w')"
  shows "undisturbed w w'"
proof -
  obtain db w1 w2 where o: "OpenInMemory ev w = (Inr db, w1)" and r: "in_order (tour lib ev g s1 s2 s3 db) w1 = (out, Inr w2)"
    and c: "w' = DB_Close db w2"
    using assms(2) by (auto simp: quickstart_main_def split: prod.splits sum.splits)
  have u: "undisturbed w w1"
    using o by (intro undisturbed_core [OF assms(1)] same_core_open) (simp add: OpenInMemory_def)
  then have i: "winv w1" by (simp add: undisturbed_def)
  have "tidy (in_order (tour lib ev g s1 s2 s3 db))"
    by (rule tidy_in_order) (simp add: tour_def tidy_must tidy_sql tidy_queries tidy_say)
  from this [unfolded tidy_def, rule_format, OF i r] have v: "undisturbed w1 w2" .
  then have "undisturbed w2 w'"
    by (intro undisturbed_core) (simp_all add: c undisturbed_def DB_Close_def imbhgo_close_def same_core_def)
  with undisturbed_trans [OF u v] show ?thesis by (rule undisturbed_trans)
qed

section \<open>Every part leaves the process ready for the next\<close>

lemma paging_ready_typed [simp]: "paging_ready n (typed_handlers s api qe lg ev) ctx w = paging_ready n ev ctx w"
  by (simp add: paging_ready_def typed_handlers_def)

lemma paging_ready_dbs: "paging_ready n ev ctx (w\<lparr>w_dbs := x\<rparr>) = paging_ready n ev ctx w"
proof -
  have "winv (w\<lparr>w_dbs := x\<rparr>) = winv w" by (rule same_core_winv) (simp add: same_core_def)
  moreover have "qid_fresh q (w\<lparr>w_dbs := x\<rparr>) = qid_fresh q w" for q by (simp add: qid_fresh_def)
  ultimately show ?thesis by (simp add: paging_ready_def admits_def ctx_err_def cong: option.case_cong)
qed

lemma open_ready:
  assumes "paging_ready (Suc n) ev ctx w" "ev_open ev OpenMemory = Inr d" "w_db_ctr w \<noteq> 0"
  obtains w' where "OpenInMemory ev w = (Inr \<lparr>db_id = w_db_ctr w\<rparr>, w')" "paging_ready n ev ctx w'"
    "w_dbs w' = (w_dbs w)(w_db_ctr w \<mapsto> d)"
proof -
  let ?w = "w\<lparr>w_query_ctr := w_query_ctr w + 1, w_db_ctr := w_db_ctr w + 1, w_dbs := (w_dbs w)(w_db_ctr w \<mapsto> d)\<rparr>"
  have "OpenInMemory ev w = (Inr \<lparr>db_id = w_db_ctr w\<rparr>, ?w)"
    using assms(2,3) by (simp add: OpenInMemory_def open_handle_success open_reply_def)
  moreover have "winv ?w = winv w" by (rule same_core_winv) (simp add: same_core_def)
  moreover have "qid_fresh q ?w = qid_fresh q w" for q by (simp add: qid_fresh_def)
  moreover have "qid_fresh (w_query_ctr w + 1 + of_nat (Suc i)) w" if "i < n" for i
    using assms(1) that by (simp add: paging_ready_def del: of_nat_Suc)
  ultimately show ?thesis using assms(1)
    by (intro that [of ?w]) (simp_all add: paging_ready_def admits_def ctx_err_def add.assoc cong: option.case_cong)
qed

lemma ingest_ready:
  assumes "paging_ready n ev ctx w" "w_dbs w (db_id db) = Some d" "ev_ingest ev op d b = (Inr r, d')"
    and "op \<in> {opIngestLogs, opIngestTraces, opIngestMetrics}"
  obtains w' where "must (ingest ev db op b w) = ([], Inr w')" "paging_ready n ev ctx w'"
    "w_dbs w' = (w_dbs w)(db_id db \<mapsto> d')"
proof -
  have "ev_call_err ev op p = None" for p using assms(1) by (simp add: paging_ready_def)
  then have c: "must (ingest ev db op b w) = ([], Inr (w\<lparr>w_dbs := (w_dbs w)(db_id db \<mapsto> d')\<rparr>))"
    using assms(2,3) decodeReceipt_encode [of r "[]"] by (simp add: ingest_cases [OF assms(4)] must_def)
  show ?thesis by (rule that [OF c]) (use assms(1) in \<open>simp_all add: paging_ready_dbs\<close>)
qed

lemma sql_ready:
  assumes "paging_ready (Suc n) ev None w" "n < 2 ^ 64" "w_dbs w (db_id db) = Some d" "utf8_valid sql"
    and "ev_sql ev d sql = Inr (map Item bs)" "map first_int64 bs = map Some ns"
  obtains w' where "show_sql ev sched db sql w = (map count_line ns, Inr w')" "paging_ready n ev None w'" "w_dbs w' = w_dbs w"
proof -
  have nc: "list_all (not_cancelled None) sched" by (simp add: list_all_iff not_cancelled_def)
  note rd = paging_ready_ready [OF assms(1) nc]
  have a: "answer ev w db opSQL sql = Inr (map Item bs)"
    using assms(3-5) by (simp add: answer_def handler_reply_def)
  from rd openStream_ok [of w db None opSQL sql ev] obtain r w1 where op: "openStream db None opSQL sql w = (Inr r, w1)"
    by (auto simp: ready_def)
  obtain res r2 w2 where d: "drain ev sql_dec sched r w1 [] = (res, r2, w2)" by (metis prod_cases3)
  have all: "dec_all sql_dec bs [] = Some (map count_line ns)" using sql_dec_all [OF assms(6)] by simp
  note q = query_step [OF assms(1,2) nc a all op d]
  from sql_loop_drain [OF d] q(1) have "sql_loop ev sched r w1 [] = (map count_line ns, Inr w2)" by simp
  then have "show_sql ev sched db sql w = (map count_line ns, Inr w2)" using op by (simp add: show_sql_def Query_def)
  then show ?thesis using q(2,3) by (intro that)
qed

context stream_query begin

lemma typed_ready:
  assumes "paging_ready (Suc n) ev None w" "n < 2 ^ 64" "w_dbs w (db_id db) = Some d" "serde_reads (sd_read s)"
    and "struct_ok g (sd_read s) (fields q)" "run api qe lg (view q) d = Inr bs" "dec_all dec bs acc = Some out"
  obtains w' where "collect (\<lambda>r w. drain (typed_handlers s api qe lg ev) dec sched r w acc) (send_query g db None op (fields q) w) =
      (Some (Inr out), w')" "paging_ready n ev None w'" "w_dbs w' = w_dbs w"
proof -
  let ?ev = "typed_handlers s api qe lg ev"
  have nc: "list_all (not_cancelled None) sched" by (simp add: list_all_iff not_cancelled_def)
  have rd: "paging_ready (Suc n) ?ev None w" using assms(1) by simp
  obtain t where t: "marshal g (fields q) = Inr t" "answer ?ev w db op t = map_sum id (map Item) (run api qe lg (view q) d)"
    by (rule answered [OF assms(3-5)])
  from paging_ready_ready [OF rd nc] openStream_ok [of w db None op t ?ev] obtain r w1 where
    op: "openStream db None op t w = (Inr r, w1)" by (auto simp: ready_def)
  obtain res r2 w2 where d: "drain ?ev dec sched r w1 acc = (res, r2, w2)" by (metis prod_cases3)
  have a: "answer ?ev w db op t = Inr (map Item bs)" using t(2) assms(6) by simp
  note q = query_step [OF rd assms(2) nc a assms(7) op d]
  have c: "collect (\<lambda>r w. drain ?ev dec sched r w acc) (send_query g db None op (fields q) w) = (Some (Inr out), w2)"
    using t(1) op d q(1) by (simp add: send_query_def collect_def)
  show ?thesis by (rule that [OF c]) (use q(2,3) in simp_all)
qed

end

section \<open>The properties\<close>

lemma in_order_step:
  "p w = (out, Inr w1) \<Longrightarrow> in_order ps w1 = (out', r) \<Longrightarrow> in_order (p # ps) w = (out @ out', r)"
  by simp

lemma tour_requests: "struct_ok g u (LogQuery_fields error_logs)" "struct_ok g u (MetricQuery_fields (cpu_range base))"
  by (simp_all add: struct_ok_def LogQuery_fields_def MetricQuery_fields_def error_logs_def cpu_range_def map_ok_def
      set_ok_def utf8_valid_ascii)

lemma collect_drain_series: "collect (drain_series ev row sched) x =
  map_prod (map_option (map_sum id snd)) id (collect (\<lambda>r w. drain ev (group_batch row) sched r w (Map.empty, [])) x)"
  by (auto simp: collect_def drain_series_def split: prod.splits sum.splits)

text \<open>The requests of the three messages, as serialized.\<close>

definition tour_bytes :: "tour_lib \<Rightarrow> bytes \<Rightarrow> bytes \<Rightarrow> bytes \<Rightarrow> bool" where
  "tour_bytes lib b1 b2 b3 \<longleftrightarrow>
     tl_marshal_logs lib [\<lparr>rl_Resource = serviceResource ''checkout'',
       rl_ScopeLogs = [log_records [''request ok'', ''payment error: timeout''] (tl_now lib)]\<rparr>] = Inr b1 \<and>
     tl_marshal_logs lib [\<lparr>rl_Resource = serviceResource ''api'',
       rl_ScopeLogs = [log_records [''served /health''] (tl_now lib)]\<rparr>] = Inr b2 \<and>
     tl_marshal_metrics lib [\<lparr>rm_Resource = serviceResource ''web'', rm_ScopeMetrics = [[\<lparr>og_Name = ''cpu.utilization'',
       og_DataPoints = gauge_points [0x3FCAE147AE147AE1, 0x3FD5C28F5C28F5C3, 0x3FE199999999999A] (tl_now lib)\<rparr>]]\<rparr>] = Inr b3"

text \<open>
  C40. The tour runs to its end and prints the engine's answers: after the three ingests, one line per batch of
  the count, one per matching log row with its service and body, one per point of the metric matrix, under
  their three headings; then the handle is closed and the process is as it was.
\<close>
theorem quickstart_prints:
  assumes rd: "paging_ready 4 ev None w" "w_db_ctr w \<noteq> 0" "ev_open ev OpenMemory = Inr d0"
    and ingest: "tour_bytes lib b1 b2 b3" "ev_ingest ev opIngestLogs d0 b1 = (Inr r1, d1)"
      "ev_ingest ev opIngestLogs d1 b2 = (Inr r2, d2)" "ev_ingest ev opIngestMetrics d2 b3 = (Inr r3, d)"
    and sql: "ev_sql ev d ''SELECT count(*) AS n FROM logs'' = Inr (map Item bs)" "map first_int64 bs = map Some ns"
    and u: "serde_reads (sd_read s)"
    and logs: "query_logs_run api qe error_logs d = Inr lbs" "rows_result log_entry_row (Inr lbs) = Some (Inr es)"
    and metrics: "query_metrics_run qe (cpu_range (tl_now lib)) d = Inr mbs" "series_result (metric_row []) (Inr mbs) = Some (Inr ss)"
  shows "\<exists>w'. quickstart_main lib (typed_handlers s api qe lg ev) g s1 s2 s3 w =
      ([''== SQL: total log count ==''] @ map count_line ns @ [''== Logs matching \"error\" ==''] @ map entry_line es @
       [''== Metric range: cpu.utilization ==''] @ concat (map (point_lines lib) ss), Inr w') \<and>
    undisturbed w w' \<and> w_dbs w' = (w_dbs w)(w_db_ctr w := None)"
proof -
  let ?ev = "typed_handlers s api qe lg ev" and ?db = "\<lparr>db_id = w_db_ctr w\<rparr>" and ?i = "w_db_ctr w"
  have same: "ev_open ?ev = ev_open ev" "ev_ingest ?ev = ev_ingest ev" "ev_sql ?ev = ev_sql ev"
    by (simp_all add: typed_handlers_def)
  have rd0: "paging_ready (Suc 3) ?ev None w" using rd(1) by (simp add: eval_nat_numeral)
  obtain w1 where w1: "OpenInMemory ?ev w = (Inr ?db, w1)" "paging_ready 3 ?ev None w1" "w_dbs w1 = (w_dbs w)(?i \<mapsto> d0)"
    by (rule open_ready [OF rd0 _ rd(2)]) (use rd(3) same in simp_all)
  obtain w2 where w2: "must (ingest ?ev ?db opIngestLogs b1 w1) = ([], Inr w2)" "paging_ready 3 ?ev None w2"
    "w_dbs w2 = (w_dbs w)(?i \<mapsto> d1)"
    by (rule ingest_ready [OF w1(2), of ?db d0 opIngestLogs b1 r1 d1]) (use w1(3) ingest(2) same in simp_all)
  obtain w3 where w3: "must (ingest ?ev ?db opIngestLogs b2 w2) = ([], Inr w3)" "paging_ready 3 ?ev None w3"
    "w_dbs w3 = (w_dbs w)(?i \<mapsto> d2)"
    by (rule ingest_ready [OF w2(2), of ?db d1 opIngestLogs b2 r2 d2]) (use w2(3) ingest(3) same in simp_all)
  obtain w4 where w4: "must (ingest ?ev ?db opIngestMetrics b3 w3) = ([], Inr w4)" "paging_ready (Suc 2) ?ev None w4"
    "w_dbs w4 = (w_dbs w)(?i \<mapsto> d)"
    by (rule ingest_ready [OF w3(2), of ?db d2 opIngestMetrics b3 r3 d])
      (use w3(3) ingest(4) same in \<open>simp_all add: eval_nat_numeral\<close>)
  obtain w5 where w5: "show_sql ?ev s1 ?db ''SELECT count(*) AS n FROM logs'' w4 = (map count_line ns, Inr w5)"
    "paging_ready 2 ?ev None w5" "w_dbs w5 = (w_dbs w)(?i \<mapsto> d)"
    by (rule sql_ready [OF w4(2), of ?db d "''SELECT count(*) AS n FROM logs''" bs ns s1])
      (use w4(3) sql same in \<open>simp_all add: utf8_valid_ascii\<close>)
  have dec: "dec_all (decode_rows log_entry_row) lbs [] = Some es"
    "\<exists>st. dec_all (group_batch (metric_row [])) mbs (Map.empty, []) = Some (st, ss)"
    using logs(2) metrics(2) by (auto simp: rows_result_def series_result_def decoded_def)
  then obtain st where st: "dec_all (group_batch (metric_row [])) mbs (Map.empty, []) = Some (st, ss)" by blast
  have rd5: "paging_ready (Suc 1) ev None w5" using w5(2) by (simp add: numeral_2_eq_2)
  obtain w6 where c6: "collect (\<lambda>r w. drain ?ev (decode_rows log_entry_row) s2 r w [])
      (send_query g ?db None opQueryLogs (LogQuery_fields error_logs) w5) = (Some (Inr es), w6)"
    and w6: "paging_ready (Suc 0) ev None w6" "w_dbs w6 = w_dbs w5"
    by (rule logs_stream.typed_ready [OF rd5 _ _ u tour_requests(1) logs(1) dec(1),
          where db = ?db and g = g and lg = lg and sched = s2]) (use w5(3) in simp_all)
  have q6: "QueryLogsTyped ?ev g s2 ?db None error_logs w5 = (Some (Inr es), w6)"
    using c6 by (simp add: QueryLogsTyped_def QueryLogs_def decodeLogEntries_def [abs_def])
  obtain w7 where c7: "collect (\<lambda>r w. drain ?ev (group_batch (metric_row [])) s3 r w (Map.empty, []))
      (send_query g ?db None opQueryMetrics (MetricQuery_fields (cpu_range (tl_now lib))) w6) = (Some (Inr (st, ss)), w7)"
    and w7: "paging_ready 0 ev None w7" "w_dbs w7 = w_dbs w6"
    by (rule metrics_stream.typed_ready [OF w6(1) _ _ u tour_requests(2) metrics(1) st,
          where db = ?db and g = g and lg = lg and sched = s3]) (use w5(3) w6(2) in simp_all)
  have "mq_GroupBy (cpu_range (tl_now lib)) = []" by (simp add: cpu_range_def)
  then have q7: "QueryMetricsTyped ?ev g s3 ?db None (cpu_range (tl_now lib)) w6 = (Some (Inr ss), w7)"
    using c7 by (simp add: QueryMetricsTyped_def QueryMetrics_def decode_matrix_def collect_drain_series)
  let ?out = "[''== SQL: total log count ==''] @ map count_line ns @ [''== Logs matching \"error\" ==''] @ map entry_line es @
       [''== Metric range: cpu.utilization ==''] @ concat (map (point_lines lib) ss)"
  have run: "in_order (tour lib ?ev g s1 s2 s3 ?db) w1 = (?out, Inr w7)"
    using ingest(1) w2(1) w3(1) w4(1) w5(1) q6 q7
    by (simp add: tour_def tour_bytes_def mustIngestLogs_def mustIngestGauge_def IngestOTLPLogs_def IngestOTLPMetrics_def
        say_def print_all_def)
  then have main: "quickstart_main lib ?ev g s1 s2 s3 w = (?out, Inr (DB_Close ?db w7))"
    by (simp add: quickstart_main_def w1(1))
  have "w_dbs (DB_Close ?db w7) = (w_dbs w)(?i := None)"
    using w5(3) w6(2) w7(2) by (simp add: DB_Close_def imbhgo_close_def)
  with main main_tidy [OF _ main] rd(1) show ?thesis by (auto simp: paging_ready_def)
qed

definition demo_tour_env :: "nat env" where
  "demo_tour_env = demo_env\<lparr>
     ev_ingest := (\<lambda>op d b. (Inr \<lparr>ir_accepted = 2, ir_rejected = 0, ir_lsn = None, ir_durable = False, ir_queued = False\<rparr>, Suc d)),
     ev_sql := (\<lambda>d q. Inr [Item \<lparr>b_fields = [(''n'', AInt64 [(True, of_nat d)])], b_rows = 1\<rparr>])\<rparr>"

definition demo_tour_lib :: tour_lib where
  "demo_tour_lib = \<lparr>tl_now = 0, tl_marshal_logs = (\<lambda>r. Inr ''logs''), tl_marshal_metrics = (\<lambda>r. Inr ''metrics''),
     tl_fixed3 = (\<lambda>x. if x = 7 then ''7.000'' else ''0.000'')\<rparr>"

theorem quickstart_prints_witness:
  "fst (quickstart_main demo_tour_lib (typed_handlers demo_serde demo_api' (demo_engine\<lparr>qe_range_batches := (\<lambda>d cs. Inr [])\<rparr>)
      demo_lgtm demo_tour_env) demo_gojson [] [] [] init_world) =
    [''== SQL: total log count =='', ''  3 logs'', ''== Logs matching \"error\" =='', ''  [] '', ''  [] '',
     ''== Metric range: cpu.utilization =='']"
proof -
  let ?qe = "demo_engine\<lparr>qe_range_batches := (\<lambda>d cs. Inr [])\<rparr>"
  let ?r = "\<lparr>ir_accepted = 2, ir_rejected = 0, ir_lsn = None, ir_durable = False, ir_queued = False\<rparr>"
  have rd: "paging_ready 4 demo_tour_env None init_world" "w_db_ctr init_world \<noteq> 0" "ev_open demo_tour_env OpenMemory = Inr 0"
    using init_winv by (simp_all add: paging_ready_def admits_def init_world_def qid_fresh_def ctx_err_def demo_tour_env_def demo_env_def)
  have i: "tour_bytes demo_tour_lib ''logs'' ''logs'' ''metrics''"
    "ev_ingest demo_tour_env opIngestLogs 0 ''logs'' = (Inr ?r, 1)" "ev_ingest demo_tour_env opIngestLogs 1 ''logs'' = (Inr ?r, 2)"
    "ev_ingest demo_tour_env opIngestMetrics 2 ''metrics'' = (Inr ?r, 3)"
    by (simp_all add: tour_bytes_def demo_tour_lib_def demo_tour_env_def)
  have sql: "ev_sql demo_tour_env 3 ''SELECT count(*) AS n FROM logs'' =
      Inr (map Item [\<lparr>b_fields = [(''n'', AInt64 [(True, 3)])], b_rows = 1\<rparr>])"
    "map first_int64 [\<lparr>b_fields = [(''n'', AInt64 [(True, 3)])], b_rows = 1\<rparr>] = map Some [3]"
    by (simp_all add: demo_tour_env_def first_int64_def)
  have u: "serde_reads (sd_read demo_serde)" by (simp add: demo_serde_def serde_reads_demo)
  let ?e = "\<lparr>le_Time = 0, le_ObservedTime = 0, le_Service = [], le_Severity = 0, le_SeverityText = [], le_Body = [],
      le_Attributes = [], le_TraceID = [], le_SpanID = []\<rparr>"
  have l: "query_logs_run demo_api' ?qe error_logs 3 = Inr [demo_batch [''x'', ''y'']]"
    by (simp add: query_logs_run_def build_log_query_def error_logs_def demo_engine_def Let_def)
  have es: "rows_result log_entry_row (Inr [demo_batch [''x'', ''y'']]) = Some (Inr [?e, ?e])" by code_simp
  have m: "query_metrics_run ?qe (cpu_range (tl_now demo_tour_lib)) 3 = Inr []" "series_result (metric_row []) (Inr []) = Some (Inr [])"
    by (simp_all add: query_metrics_run_def series_result_def decoded_def)
  have lines: "count_line 3 = ''  3 logs''" "entry_line ?e = ''  [] ''" by code_simp+
  from quickstart_prints [OF rd i sql u l es m, of demo_lgtm demo_gojson "[]" "[]" "[]"] lines show ?thesis by auto
qed

end
