(* ===== verification/Bridge.thy ===== *)
theory Bridge
  imports Arrow
begin

text \<open>
  The ownership prototype \<open>proto-cdata\<close>: one batch handed over by pointer, without transport or engine
  (\<open>bridge.go\<close> and its \<open>rust/src/lib.rs\<close>). It asks whether \<open>arrow-go\<close> clears the release callback of the source
  when it imports; that is a parameter here (\<open>moves\<close>), and the two ways to give the shell back are
  compared under both answers.
\<close>

section \<open>Shells and release callbacks\<close>

text \<open>
  An allocated shell holds its batch and whether the release callback of its array is set. \<open>hp_released\<close>
  counts the runs of the callback of each batch ever produced; \<open>hp_bad\<close> counts frees of a shell that is not
  allocated.
\<close>

record heap =
  hp_shells :: "nat \<rightharpoonup> batch \<times> bool"
  hp_released :: "nat \<Rightarrow> nat"
  hp_next :: nat
  hp_bad :: nat

definition make_batch :: batch where
  "make_batch = \<lparr>b_fields = [
     (''id'', AInt64 [(True, 10), (True, 20), (True, 30)]),
     (''name'', AString [(True, ''a''), (True, ''bb''), (True, ''ccc'')])], b_rows = 3\<rparr>"

definition testBatch :: "heap \<Rightarrow> nat \<times> heap" where
  "testBatch h = (hp_next h, h\<lparr>hp_next := Suc (hp_next h), hp_shells := (hp_shells h)(hp_next h \<mapsto> (make_batch, True))\<rparr>)"

definition run_callback :: "nat \<Rightarrow> heap \<Rightarrow> heap" where
  "run_callback p h = h\<lparr>hp_released := (hp_released h)(p := Suc (hp_released h p))\<rparr>"

text \<open>\<open>imbhgo_shell_free\<close> forgets the structs, \<open>imbhgo_batch_release\<close> drops them: a set callback runs.\<close>

definition shellFree :: "nat \<Rightarrow> heap \<Rightarrow> heap" where
  "shellFree p h =
     (if p = 0 then h
      else case hp_shells h p of
             None \<Rightarrow> h\<lparr>hp_bad := Suc (hp_bad h)\<rparr>
           | Some _ \<Rightarrow> h\<lparr>hp_shells := (hp_shells h)(p := None)\<rparr>)"

definition batchRelease :: "nat \<Rightarrow> heap \<Rightarrow> heap" where
  "batchRelease p h =
     (if p = 0 then h
      else case hp_shells h p of
             None \<Rightarrow> h\<lparr>hp_bad := Suc (hp_bad h)\<rparr>
           | Some (b, armed) \<Rightarrow>
               (let h' = h\<lparr>hp_shells := (hp_shells h)(p := None)\<rparr> in if armed then run_callback p h' else h'))"

definition arrayReleaseArmed :: "nat \<Rightarrow> heap \<Rightarrow> bool" where
  "arrayReleaseArmed p h = (case hp_shells h p of Some (b, armed) \<Rightarrow> armed | None \<Rightarrow> False)"

text \<open>
  \<open>cdata.ImportCRecordBatch\<close>: it may refuse the schema (\<open>refuses\<close>), and clears the callback of its source or
  leaves it. The record it returns is known by the pointer it came from; its \<open>Release\<close> runs the callback.
\<close>

definition import_c :: "(batch \<Rightarrow> goerr option) \<Rightarrow> bool \<Rightarrow> nat \<Rightarrow> heap \<Rightarrow> (nat \<times> batch) result \<times> heap" where
  "import_c refuses moves p h =
     (case hp_shells h p of
        None \<Rightarrow> (Inl (ErrorString ''invalid pointer''), h\<lparr>hp_bad := Suc (hp_bad h)\<rparr>)
      | Some (b, armed) \<Rightarrow>
          (case refuses b of
             Some e \<Rightarrow> (Inl e, h)
           | None \<Rightarrow> (Inr (p, b), h\<lparr>hp_shells := (hp_shells h)(p \<mapsto> (b, armed \<and> \<not> moves))\<rparr>)))"

definition importBatch :: "(batch \<Rightarrow> goerr option) \<Rightarrow> bool \<Rightarrow> nat \<Rightarrow> heap \<Rightarrow> (nat \<times> batch) result \<times> heap" where
  "importBatch refuses moves p h =
     (case import_c refuses moves p h of
        (Inl e, h') \<Rightarrow> (Inl e, h')
      | (Inr r, h') \<Rightarrow> (Inr r, shellFree p h'))"

definition importOnly :: "(batch \<Rightarrow> goerr option) \<Rightarrow> bool \<Rightarrow> nat \<Rightarrow> heap \<Rightarrow> ((nat \<times> batch) \<times> bool) result \<times> heap" where
  "importOnly refuses moves p h =
     (case import_c refuses moves p h of
        (Inl e, h') \<Rightarrow> (Inl e, h')
      | (Inr r, h') \<Rightarrow> (Inr (r, arrayReleaseArmed p h'), h'))"

section \<open>The two-free protocol\<close>

definition heap_ok :: "heap \<Rightarrow> bool" where
  "heap_ok h \<longleftrightarrow> 0 < hp_next h \<and> (\<forall>p\<ge>hp_next h. hp_shells h p = None \<and> hp_released h p = 0)"

text \<open>The loop of the taken path: produce, import, release the record, \<open>n\<close> times.\<close>

fun taken_loop :: "(batch \<Rightarrow> goerr option) \<Rightarrow> bool \<Rightarrow> nat \<Rightarrow> heap \<Rightarrow> heap" where
  "taken_loop refuses moves 0 h = h"
| "taken_loop refuses moves (Suc n) h =
     (case testBatch h of (p, h1) \<Rightarrow>
      (case importBatch refuses moves p h1 of
         (Inl e, h2) \<Rightarrow> h2
       | (Inr r, h2) \<Rightarrow> taken_loop refuses moves n (run_callback (fst r) h2)))"

lemma taken_round:
  assumes "heap_ok h" "refuses make_batch = None"
  shows "importBatch refuses moves (hp_next h) (snd (testBatch h)) =
    (Inr (hp_next h, make_batch), h\<lparr>hp_next := Suc (hp_next h)\<rparr>)"
  using assms by (simp add: testBatch_def importBatch_def import_c_def shellFree_def heap_ok_def fun_upd_idem)

lemma taken_loop_released:
  assumes "refuses make_batch = None"
  shows "heap_ok h \<Longrightarrow> hp_shells (taken_loop refuses moves n h) = hp_shells h \<and>
    hp_bad (taken_loop refuses moves n h) = hp_bad h \<and>
    hp_released (taken_loop refuses moves n h) =
      (\<lambda>p. if hp_next h \<le> p \<and> p < hp_next h + n then 1 else hp_released h p)"
proof (induction n arbitrary: h)
  case (Suc n)
  let ?h = "run_callback (hp_next h) (h\<lparr>hp_next := Suc (hp_next h)\<rparr>)"
  have "heap_ok ?h" using Suc.prems by (simp add: heap_ok_def run_callback_def)
  note ih = Suc.IH [OF this]
  have "taken_loop refuses moves (Suc n) h = taken_loop refuses moves n ?h"
    using taken_round [where refuses = refuses and moves = moves, OF Suc.prems assms] by (simp add: testBatch_def)
  with ih Suc.prems show ?case
    by (auto simp: run_callback_def heap_ok_def fun_eq_iff)
qed (auto simp: fun_eq_iff)

text \<open>
  C39. Whether or not the import clears its source, the taken path is sound: any number of rounds leaves no
  shell behind and runs the callback of each batch exactly once; so does the abandoned path. A full drop
  after an import is sound exactly when the import cleared the source, which \<open>importOnly\<close> reports.
\<close>
theorem two_free_protocol:
  assumes "heap_ok h" "refuses make_batch = None"
  shows "let p = hp_next h; h1 = snd (testBatch h);
      (probe, h2) = importOnly refuses moves p h1;
      dropped = run_callback p (batchRelease p h2); abandoned = batchRelease p h1
    in hp_shells (taken_loop refuses moves n h) = hp_shells h \<and> hp_bad (taken_loop refuses moves n h) = hp_bad h \<and>
      hp_released (taken_loop refuses moves n h) = (\<lambda>p. if hp_next h \<le> p \<and> p < hp_next h + n then 1 else hp_released h p) \<and>
      hp_shells abandoned p = None \<and> hp_released abandoned p = 1 \<and>
      probe = Inr ((p, make_batch), \<not> moves) \<and> hp_released dropped p = (if moves then 1 else 2)"
  using taken_loop_released [where refuses = refuses and h = h and moves = moves and n = n, OF assms(2,1)] assms
  by (simp add: Let_def testBatch_def importOnly_def import_c_def batchRelease_def run_callback_def
      arrayReleaseArmed_def heap_ok_def)

theorem two_free_protocol_witness:
  "hp_released (taken_loop (\<lambda>_. None) False 2000
     \<lparr>hp_shells = Map.empty, hp_released = (\<lambda>_. 0), hp_next = 1, hp_bad = 0\<rparr>) 2000 = 1"
proof -
  let ?h = "\<lparr>hp_shells = Map.empty, hp_released = (\<lambda>_. 0), hp_next = 1, hp_bad = 0\<rparr>"
  have "heap_ok ?h" by (simp add: heap_ok_def)
  from two_free_protocol [OF this, of "\<lambda>_. None" False 2000] show ?thesis
    by (simp add: Let_def case_prod_beta)
qed

end
